(* ===== verification/Prelude.thy ===== *)
theory Prelude
  imports Main "HOL-Library.Word"
begin

text \<open>
  Shared vocabulary of the development: the fixed width integers of the C++ sources, byte memory
  addressed through a pointer plus an offset, the machine's byte order, and the generic facts on
  lists, maps and words that the component theories use. The collections declared here gather the
  facts of one kind that the component proofs pass to the simplifier.
\<close>

unbundle bit_operations_syntax

type_synonym u8 = "8 word"
type_synonym u16 = "16 word"
type_synonym u32 = "32 word"
type_synonym u64 = "64 word"
type_synonym bytes = "8 word list"

text \<open>Collections: \<open>codec_simps\<close> holds the laws of reads after writes in byte memory,
  \<open>step_simps\<close> the unfoldings of handler steps, \<open>inv_intros\<close> the preservation lemmas of
  component invariants.\<close>

named_theorems codec_simps
named_theorems step_simps
named_theorems inv_intros

section \<open>Byte memory behind a pointer\<close>

text \<open>A call \<open>f(buf + off, ...)\<close> that works on the bytes from \<open>buf + off\<close> on.\<close>

definition at_off :: "nat \<Rightarrow> ('a list \<Rightarrow> 'a list) \<Rightarrow> 'a list \<Rightarrow> 'a list" where
  "at_off off f mem = take off mem @ f (drop off mem)"

text \<open>\<open>memcpy(buf + off, bs, len)\<close>.\<close>

definition put_bytes :: "nat \<Rightarrow> 'a list \<Rightarrow> 'a list \<Rightarrow> 'a list" where
  "put_bytes off bs mem = take off mem @ bs @ drop (off + length bs) mem"

definition get_bytes :: "nat \<Rightarrow> nat \<Rightarrow> 'a list \<Rightarrow> 'a list" where
  "get_bytes off n mem = take n (drop off mem)"

lemma length_put_bytes [simp]:
  "off + length bs \<le> length mem \<Longrightarrow> length (put_bytes off bs mem) = length mem"
  by (simp add: put_bytes_def)

lemma get_put_bytes_same [codec_simps]:
  "off \<le> length mem \<Longrightarrow> get_bytes off (length bs) (put_bytes off bs mem) = bs"
  by (simp add: get_bytes_def put_bytes_def)

lemma get_put_bytes_before [codec_simps]:
  "o1 + n \<le> o2 \<Longrightarrow> o2 \<le> length mem \<Longrightarrow> get_bytes o1 n (put_bytes o2 bs mem) = get_bytes o1 n mem"
  by (simp add: get_bytes_def put_bytes_def drop_take min_absorb1)

lemma get_put_bytes_after [codec_simps]:
  assumes "o2 + length bs \<le> o1" and "o2 + length bs \<le> length mem"
  shows "get_bytes o1 n (put_bytes o2 bs mem) = get_bytes o1 n mem"
proof -
  have "drop o1 (take o2 mem @ bs @ drop (o2 + length bs) mem) = drop o1 mem"
    using assms by (simp add: drop_append)
  then show ?thesis by (simp add: get_bytes_def put_bytes_def)
qed

section \<open>Byte order of the machine\<close>

datatype endian = LittleEnd | BigEnd

text \<open>The bytes \<open>((uchar*)&n)[0 .. k-1]\<close> of a \<open>k\<close> byte unsigned integer in memory, and the value
  \<open>*(uintN_t* )buf\<close> the machine loads from \<open>k\<close> bytes.\<close>

definition host_bytes :: "endian \<Rightarrow> nat \<Rightarrow> 'w::len word \<Rightarrow> bytes" where
  "host_bytes e k n =
     (let le = map (\<lambda>i. ucast (drop_bit (8 * i) n)) [0..<k]
      in case e of LittleEnd \<Rightarrow> le | BigEnd \<Rightarrow> rev le)"

definition host_word :: "endian \<Rightarrow> nat \<Rightarrow> bytes \<Rightarrow> 'w::len word" where
  "host_word e k bs =
     (let le = (case e of LittleEnd \<Rightarrow> take k bs | BigEnd \<Rightarrow> rev (take k bs))
      in foldr (\<lambda>b acc. push_bit 8 acc OR ucast b) le 0)"

lemma length_host_bytes [simp]: "length (host_bytes e k n) = k"
  by (simp add: host_bytes_def Let_def split: endian.splits)

lemma ucast_ucast_byte: "ucast (ucast n :: u8) = (take_bit 8 n :: 'w::len word)"
  by (rule bit_word_eqI) (auto simp: bit_simps)

lemma foldr_host_bytes:
  "foldr (\<lambda>b acc. push_bit 8 acc OR ucast b)
     (map (\<lambda>i. ucast (drop_bit (8 * i) n) :: u8) [j..<j + k]) 0
   = (take_bit (8 * k) (drop_bit (8 * j) n) :: 'w::len word)"
proof (induction k arbitrary: j)
  case 0
  then show ?case by simp
next
  case (Suc k)
  have upt: "[j..<j + Suc k] = j # [Suc j..<Suc j + k]"
    by (simp add: upt_rec)
  have "foldr (\<lambda>b acc. push_bit 8 acc OR ucast b)
      (map (\<lambda>i. ucast (drop_bit (8 * i) n) :: u8) [j..<j + Suc k]) 0
    = push_bit 8 (take_bit (8 * k) (drop_bit (8 * Suc j) n)) OR take_bit 8 (drop_bit (8 * j) n)"
    unfolding upt using Suc.IH [of "Suc j"]
    by (simp only: list.map foldr.simps o_apply ucast_ucast_byte)
  also have "\<dots> = take_bit (8 * Suc k) (drop_bit (8 * j) n)"
    by (rule bit_word_eqI) (auto simp: bit_simps)
  finally show ?case .
qed

lemma host_word_host_bytes [codec_simps]:
  "LENGTH('w) \<le> 8 * k \<Longrightarrow> host_word e k (host_bytes e k n @ rest) = (n :: 'w::len word)"
  using foldr_host_bytes [where j = 0 and k = k and n = n]
  by (cases e) (simp_all add: host_word_def host_bytes_def Let_def take_bit_word_eq_self)

lemma host_word_take: "host_word e k (take k bs) = host_word e k bs"
  by (cases e) (simp_all add: host_word_def Let_def)

section \<open>Generic facts on lists\<close>

lemma upt_numerals: "[0..<2] = [0, 1]" "[0..<4] = [0, 1, 2, 3]" "[0..<8] = [0, 1, 2, 3, 4, 5, 6, 7]"
  by (simp_all add: upt_rec)

lemma All_less_numeral:
  "(\<forall>i<numeral n. P i) \<longleftrightarrow> (\<forall>i<pred_numeral n. P i) \<and> P (pred_numeral n)"
  by (auto simp: numeral_eq_Suc less_Suc_eq)

lemma length_ge_2E:
  assumes "2 \<le> length xs"
  obtains a b ys where "xs = a # b # ys"
  using assms by (auto simp: numeral_eq_Suc Suc_le_length_iff)

lemma length_ge_4E:
  assumes "4 \<le> length xs"
  obtains a b c d ys where "xs = a # b # c # d # ys"
  using assms by (auto simp: numeral_eq_Suc Suc_le_length_iff)

lemma length_ge_8E:
  assumes "8 \<le> length xs"
  obtains a b c d e f g h ys where "xs = a # b # c # d # e # f # g # h # ys"
  using assms by (auto simp: numeral_eq_Suc Suc_le_length_iff)

lemma u32_less: "unat (w :: u32) < 2 ^ 32"
  using unsigned_less [of w] by simp

section \<open>Unordered maps with an iteration order\<close>

text \<open>A \<open>std::unordered_map\<close> whose iteration order matters is an association list in that order.
  Where the table puts a new key is not specified by the language, so it is a parameter: \<open>h\<close> gives
  the position of a new key among the present ones.\<close>

type_synonym 'k placement = "'k list \<Rightarrow> 'k \<Rightarrow> nat"

definition um_upsert :: "'k placement \<Rightarrow> 'k \<Rightarrow> 'v \<Rightarrow> ('k \<times> 'v) list \<Rightarrow> ('k \<times> 'v) list" where
  "um_upsert h k v al =
     (if k \<in> set (map fst al)
      then map (\<lambda>kv. if fst kv = k then (k, v) else kv) al
      else (let i = h (map fst al) k in take i al @ (k, v) # drop i al))"

definition um_erase :: "'k \<Rightarrow> ('k \<times> 'v) list \<Rightarrow> ('k \<times> 'v) list" where
  "um_erase k al = filter (\<lambda>kv. fst kv \<noteq> k) al"

lemma um_upsert_keys:
  "set (map fst (um_upsert h k v al)) = insert k (set (map fst al))"
proof -
  have "set (map fst (take i al)) \<union> set (map fst (drop i al)) = set (map fst al)" for i
    by (metis append_take_drop_id map_append set_append)
  then show ?thesis
    by (auto simp: um_upsert_def Let_def image_Un image_iff split: if_splits)
qed

lemma um_upsert_distinct:
  assumes "distinct (map fst al)"
  shows "distinct (map fst (um_upsert h k v al))"
proof (cases "k \<in> set (map fst al)")
  case True
  have "map fst (map (\<lambda>kv. if fst kv = k then (k, v) else kv) al) = map fst al"
    by simp
  with True assms show ?thesis unfolding um_upsert_def by (simp only: if_True)
next
  case False
  let ?i = "h (map fst al) k"
  have "distinct (map fst (take ?i al @ drop ?i al))" using assms by simp
  moreover have "k \<notin> set (map fst (take ?i al @ drop ?i al))" using False by simp
  ultimately show ?thesis
    using False by (simp add: um_upsert_def Let_def del: append_take_drop_id)
qed

lemma um_upsert_map_of:
  assumes "distinct (map fst al)"
  shows "map_of (um_upsert h k v al) = (map_of al)(k \<mapsto> v)"
proof (cases "k \<in> set (map fst al)")
  case True
  have "map_of (map (\<lambda>kv. if fst kv = k then (k, v) else kv) al) k' =
      (if k' = k then map_option (\<lambda>_. v) (map_of al k) else map_of al k')" for k'
    by (induction al) auto
  moreover obtain w where "map_of al k = Some w"
    using True by (metis map_of_eq_None_iff not_None_eq set_map)
  ultimately show ?thesis using True by (auto simp: um_upsert_def fun_eq_iff)
next
  case False
  let ?i = "h (map fst al) k"
  have "map_of al = map_of (drop ?i al) ++ map_of (take ?i al)"
    by (metis append_take_drop_id map_of_append)
  moreover have "map_of (take ?i al) k = None"
    using False by (auto simp: map_of_eq_None_iff dest: in_set_takeD)
  ultimately show ?thesis
    using False by (auto simp: um_upsert_def Let_def fun_eq_iff map_add_def split: option.split)
qed

lemma um_erase_keys: "set (map fst (um_erase k al)) = set (map fst al) - {k}"
  by (auto simp: um_erase_def)

lemma um_erase_distinct: "distinct (map fst al) \<Longrightarrow> distinct (map fst (um_erase k al))"
  by (simp add: um_erase_def distinct_map_filter)

lemma um_erase_map_of: "map_of (um_erase k al) = (map_of al)(k := None)"
  by (induction al) (auto simp: um_erase_def fun_eq_iff)

lemma um_upsert_set: "set (um_upsert h k v al) \<subseteq> insert (k, v) (set al)"
  by (auto simp: um_upsert_def Let_def dest: in_set_takeD in_set_dropD split: if_splits)

lemma find_SomeD: "find P xs = Some x \<Longrightarrow> x \<in> set xs \<and> P x"
  by (induction xs) (auto split: if_splits)

end
