(* ===== verification/Codec.thy ===== *)
theory Codec
  imports Prelude
begin

text \<open>
  \<open>src/src/common/codec-utils.cc\<close>: the fixed width integer codecs of the wire and log formats.
  \<open>LittleEndianCodecUtils\<close> shifts bytes out of the value, \<open>BigEndianCodecUtils\<close> copies the
  machine's own representation (so its meaning depends on the machine's byte order, the first
  argument here), and \<open>codec-utils.h\<close> selects one of the two as \<open>ByteOrderUtils\<close> by the byte order
  of the build host. The memory from the pointer \<open>buf\<close> on is a byte list; the callers guarantee
  that the bytes written are inside it.
\<close>

section \<open>The codecs\<close>

definition LE_WriteUInt16 :: "bytes \<Rightarrow> u16 \<Rightarrow> bytes" where
  "LE_WriteUInt16 buf n =
     (let buf = buf[1 := ucast n];
          n = drop_bit 8 n
      in buf[0 := ucast n])"

definition LE_WriteUInt32 :: "bytes \<Rightarrow> u32 \<Rightarrow> bytes" where
  "LE_WriteUInt32 buf n =
     (let buf = buf[3 := ucast n]; n = drop_bit 8 n;
          buf = buf[2 := ucast n]; n = drop_bit 8 n;
          buf = buf[1 := ucast n]; n = drop_bit 8 n
      in buf[0 := ucast n])"

definition LE_WriteUInt64 :: "bytes \<Rightarrow> u64 \<Rightarrow> bytes" where
  "LE_WriteUInt64 buf n =
     (let buf = buf[7 := ucast n]; n = drop_bit 8 n;
          buf = buf[6 := ucast n]; n = drop_bit 8 n;
          buf = buf[5 := ucast n]; n = drop_bit 8 n;
          buf = buf[4 := ucast n]; n = drop_bit 8 n;
          buf = buf[3 := ucast n]; n = drop_bit 8 n;
          buf = buf[2 := ucast n]; n = drop_bit 8 n;
          buf = buf[1 := ucast n]; n = drop_bit 8 n
      in buf[0 := ucast n])"

definition LE_ReadUInt16 :: "bytes \<Rightarrow> u16" where
  "LE_ReadUInt16 buf =
     (let n = ucast (buf ! 0);
          n = push_bit 8 n
      in n OR ucast (buf ! 1))"

definition LE_ReadUInt32 :: "bytes \<Rightarrow> u32" where
  "LE_ReadUInt32 buf =
     (let n = ucast (buf ! 0);
          n = push_bit 8 n OR ucast (buf ! 1);
          n = push_bit 8 n OR ucast (buf ! 2)
      in push_bit 8 n OR ucast (buf ! 3))"

definition LE_ReadUInt64 :: "bytes \<Rightarrow> u64" where
  "LE_ReadUInt64 buf =
     (let n = ucast (buf ! 0);
          n = push_bit 8 n OR ucast (buf ! 1);
          n = push_bit 8 n OR ucast (buf ! 2);
          n = push_bit 8 n OR ucast (buf ! 3);
          n = push_bit 8 n OR ucast (buf ! 4);
          n = push_bit 8 n OR ucast (buf ! 5);
          n = push_bit 8 n OR ucast (buf ! 6)
      in push_bit 8 n OR ucast (buf ! 7))"

text \<open>\<open>NTOC(b, n, i)\<close>: \<open>b[i] = ((uchar* )(&n))[i]\<close>.\<close>

definition NTOC :: "endian \<Rightarrow> nat \<Rightarrow> bytes \<Rightarrow> 'w::len word \<Rightarrow> nat \<Rightarrow> bytes" where
  "NTOC e k b n i = b[i := host_bytes e k n ! i]"

definition BE_WriteUInt16 :: "endian \<Rightarrow> bytes \<Rightarrow> u16 \<Rightarrow> bytes" where
  "BE_WriteUInt16 e buf n = NTOC e 2 (NTOC e 2 buf n 0) n 1"

definition BE_WriteUInt32 :: "endian \<Rightarrow> bytes \<Rightarrow> u32 \<Rightarrow> bytes" where
  "BE_WriteUInt32 e buf n =
     (let buf = NTOC e 4 buf n 0; buf = NTOC e 4 buf n 1; buf = NTOC e 4 buf n 2
      in NTOC e 4 buf n 3)"

definition BE_WriteUInt64 :: "endian \<Rightarrow> bytes \<Rightarrow> u64 \<Rightarrow> bytes" where
  "BE_WriteUInt64 e buf n =
     (let buf = NTOC e 8 buf n 0; buf = NTOC e 8 buf n 1;
          buf = NTOC e 8 buf n 2; buf = NTOC e 8 buf n 3;
          buf = NTOC e 8 buf n 4; buf = NTOC e 8 buf n 5;
          buf = NTOC e 8 buf n 6
      in NTOC e 8 buf n 7)"

definition BE_ReadUInt16 :: "endian \<Rightarrow> bytes \<Rightarrow> u16" where
  "BE_ReadUInt16 e buf = host_word e 2 buf"

definition BE_ReadUInt32 :: "endian \<Rightarrow> bytes \<Rightarrow> u32" where
  "BE_ReadUInt32 e buf = host_word e 4 buf"

definition BE_ReadUInt64 :: "endian \<Rightarrow> bytes \<Rightarrow> u64" where
  "BE_ReadUInt64 e buf = host_word e 8 buf"

text \<open>\<open>ByteOrderUtils\<close>: the class that \<open>codec-utils.h\<close> selects for the host.\<close>

definition WriteUInt16 :: "endian \<Rightarrow> bytes \<Rightarrow> u16 \<Rightarrow> bytes" where
  "WriteUInt16 e = (case e of BigEnd \<Rightarrow> BE_WriteUInt16 e | LittleEnd \<Rightarrow> LE_WriteUInt16)"

definition WriteUInt32 :: "endian \<Rightarrow> bytes \<Rightarrow> u32 \<Rightarrow> bytes" where
  "WriteUInt32 e = (case e of BigEnd \<Rightarrow> BE_WriteUInt32 e | LittleEnd \<Rightarrow> LE_WriteUInt32)"

definition WriteUInt64 :: "endian \<Rightarrow> bytes \<Rightarrow> u64 \<Rightarrow> bytes" where
  "WriteUInt64 e = (case e of BigEnd \<Rightarrow> BE_WriteUInt64 e | LittleEnd \<Rightarrow> LE_WriteUInt64)"

definition ReadUInt16 :: "endian \<Rightarrow> bytes \<Rightarrow> u16" where
  "ReadUInt16 e = (case e of BigEnd \<Rightarrow> BE_ReadUInt16 e | LittleEnd \<Rightarrow> LE_ReadUInt16)"

definition ReadUInt32 :: "endian \<Rightarrow> bytes \<Rightarrow> u32" where
  "ReadUInt32 e = (case e of BigEnd \<Rightarrow> BE_ReadUInt32 e | LittleEnd \<Rightarrow> LE_ReadUInt32)"

definition ReadUInt64 :: "endian \<Rightarrow> bytes \<Rightarrow> u64" where
  "ReadUInt64 e = (case e of BigEnd \<Rightarrow> BE_ReadUInt64 e | LittleEnd \<Rightarrow> LE_ReadUInt64)"

section \<open>Both classes write the most significant byte first\<close>

lemma LE_WriteUInt16_eq: "2 \<le> length buf \<Longrightarrow> LE_WriteUInt16 buf n = host_bytes BigEnd 2 n @ drop 2 buf"
  by (erule length_ge_2E) (simp add: LE_WriteUInt16_def host_bytes_def upt_numerals Let_def)

lemma LE_WriteUInt32_eq: "4 \<le> length buf \<Longrightarrow> LE_WriteUInt32 buf n = host_bytes BigEnd 4 n @ drop 4 buf"
  by (erule length_ge_4E) (simp add: LE_WriteUInt32_def host_bytes_def upt_numerals Let_def)

lemma LE_WriteUInt64_eq: "8 \<le> length buf \<Longrightarrow> LE_WriteUInt64 buf n = host_bytes BigEnd 8 n @ drop 8 buf"
  by (erule length_ge_8E) (simp add: LE_WriteUInt64_def host_bytes_def upt_numerals Let_def)

lemma LE_ReadUInt16_eq: "2 \<le> length buf \<Longrightarrow> LE_ReadUInt16 buf = host_word BigEnd 2 buf"
  by (erule length_ge_2E) (simp add: LE_ReadUInt16_def host_word_def Let_def)

lemma LE_ReadUInt32_eq: "4 \<le> length buf \<Longrightarrow> LE_ReadUInt32 buf = host_word BigEnd 4 buf"
  by (erule length_ge_4E) (simp add: LE_ReadUInt32_def host_word_def Let_def)

lemma LE_ReadUInt64_eq: "8 \<le> length buf \<Longrightarrow> LE_ReadUInt64 buf = host_word BigEnd 8 buf"
  by (erule length_ge_8E) (simp add: LE_ReadUInt64_def host_word_def Let_def)

lemmas NTOC_unfold = NTOC_def host_bytes_def upt_numerals Let_def

lemma BE_WriteUInt16_eq: "2 \<le> length buf \<Longrightarrow> BE_WriteUInt16 e buf n = host_bytes e 2 n @ drop 2 buf"
  by (erule length_ge_2E, cases e) (simp_all add: BE_WriteUInt16_def NTOC_unfold)

lemma BE_WriteUInt32_eq: "4 \<le> length buf \<Longrightarrow> BE_WriteUInt32 e buf n = host_bytes e 4 n @ drop 4 buf"
  by (erule length_ge_4E, cases e) (simp_all add: BE_WriteUInt32_def NTOC_unfold)

lemma BE_WriteUInt64_eq: "8 \<le> length buf \<Longrightarrow> BE_WriteUInt64 e buf n = host_bytes e 8 n @ drop 8 buf"
  by (erule length_ge_8E, cases e) (simp_all add: BE_WriteUInt64_def NTOC_unfold)

lemmas write_eqs = LE_WriteUInt16_eq LE_WriteUInt32_eq LE_WriteUInt64_eq
  BE_WriteUInt16_eq BE_WriteUInt32_eq BE_WriteUInt64_eq

lemmas read_eqs = LE_ReadUInt16_eq LE_ReadUInt32_eq LE_ReadUInt64_eq
  BE_ReadUInt16_def BE_ReadUInt32_def BE_ReadUInt64_def

section \<open>The contract of a fixed width codec\<close>

text \<open>What the message, log and RPC formats rely on: writing a value at a pointer replaces exactly
  the \<open>width\<close> bytes there by its encoding, and reading looks at those bytes only and gives the
  value back. The laws at an offset inside a larger buffer follow once for every codec.\<close>

locale byte_codec =
  fixes wr :: "bytes \<Rightarrow> 'v \<Rightarrow> bytes"
    and rd :: "bytes \<Rightarrow> 'v"
    and enc :: "'v \<Rightarrow> bytes"
    and width :: nat
  assumes enc_length: "length (enc v) = width"
    and wr_enc: "width \<le> length buf \<Longrightarrow> wr buf v = enc v @ drop width buf"
    and rd_enc: "rd (enc v @ rest) = v"
    and rd_local: "width \<le> length buf \<Longrightarrow> rd (take width buf) = rd buf"
begin

lemma wr_length: "width \<le> length buf \<Longrightarrow> length (wr buf v) = length buf"
  by (simp add: wr_enc enc_length)

lemma rd_wr: "width \<le> length buf \<Longrightarrow> rd (wr buf v) = v"
  by (simp add: wr_enc rd_enc)

lemma wr_at: "off + width \<le> length mem \<Longrightarrow> at_off off (\<lambda>b. wr b v) mem = put_bytes off (enc v) mem"
  by (simp add: at_off_def put_bytes_def wr_enc enc_length add.commute)

lemma rd_get_bytes: "off + width \<le> length mem \<Longrightarrow> rd (drop off mem) = rd (get_bytes off width mem)"
  by (simp add: get_bytes_def rd_local)

lemma rd_put_same: "off + width \<le> length mem \<Longrightarrow> rd (drop off (put_bytes off (enc v) mem)) = v"
  using rd_enc [of v "drop (off + width) mem"] by (simp add: put_bytes_def enc_length)

lemma rd_put_before:
  "off + width \<le> o2 \<Longrightarrow> o2 + length bs \<le> length mem
     \<Longrightarrow> rd (drop off (put_bytes o2 bs mem)) = rd (drop off mem)"
  by (simp add: rd_get_bytes get_put_bytes_before)

lemma rd_put_after:
  "o2 + length bs \<le> off \<Longrightarrow> off + width \<le> length mem
     \<Longrightarrow> rd (drop off (put_bytes o2 bs mem)) = rd (drop off mem)"
  by (simp add: rd_get_bytes get_put_bytes_after)

lemmas rd_put = rd_put_same rd_put_before rd_put_after

end

interpretation u16c: byte_codec "WriteUInt16 e" "ReadUInt16 e'" "host_bytes BigEnd 2" 2
  by unfold_locales
    (auto simp: WriteUInt16_def ReadUInt16_def write_eqs read_eqs host_word_host_bytes host_word_take
      split: endian.split)

interpretation u32c: byte_codec "WriteUInt32 e" "ReadUInt32 e'" "host_bytes BigEnd 4" 4
  by unfold_locales
    (auto simp: WriteUInt32_def ReadUInt32_def write_eqs read_eqs host_word_host_bytes host_word_take
      split: endian.split)

interpretation u64c: byte_codec "WriteUInt64 e" "ReadUInt64 e'" "host_bytes BigEnd 8" 8
  by unfold_locales
    (auto simp: WriteUInt64_def ReadUInt64_def write_eqs read_eqs host_word_host_bytes host_word_take
      split: endian.split)

section \<open>Properties\<close>

text \<open>C10. The integer codecs round trip between any two hosts: what a host of either byte order
  writes with \<open>ByteOrderUtils\<close>, a host of either byte order reads back unchanged, for all three
  widths; the bytes behind the written field keep their values and the buffer its length.\<close>

theorem codec_roundtrip:
  assumes "8 \<le> length buf"
  shows "ReadUInt16 r (WriteUInt16 w buf a) = a \<and> drop 2 (WriteUInt16 w buf a) = drop 2 buf
       \<and> ReadUInt32 r (WriteUInt32 w buf b) = b \<and> drop 4 (WriteUInt32 w buf b) = drop 4 buf
       \<and> ReadUInt64 r (WriteUInt64 w buf c) = c \<and> drop 8 (WriteUInt64 w buf c) = drop 8 buf
       \<and> length (WriteUInt64 w buf c) = length buf"
  using assms
  by (simp add: u16c.rd_wr u32c.rd_wr u64c.rd_wr) (simp add: u16c.wr_enc u32c.wr_enc u64c.wr_enc)

theorem codec_roundtrip_witness:
  "8 \<le> length (replicate 9 (0 :: u8))
   \<and> ReadUInt32 LittleEnd (WriteUInt32 BigEnd (replicate 9 0) 0xdeadbeef) = 0xdeadbeef
   \<and> drop 4 (WriteUInt32 BigEnd (replicate 9 0) 0xdeadbeef) = replicate 5 0"
  using codec_roundtrip [of "replicate 9 0" LittleEnd BigEnd "0x0102" "0xdeadbeef" 7] by simp

text \<open>C11. The wire format is one and the same on every host: whichever of the two codec classes
  \<open>codec-utils.h\<close> selects, the bytes in the buffer are those of the value from the most
  significant byte down, in place of the first bytes of the buffer.\<close>

theorem codec_wire_format:
  assumes "8 \<le> length buf"
  shows "WriteUInt16 w buf a = [ucast (drop_bit 8 a), ucast a] @ drop 2 buf
       \<and> WriteUInt32 w buf b = map (\<lambda>i. ucast (drop_bit i b)) [24, 16, 8, 0] @ drop 4 buf
       \<and> WriteUInt64 w buf c =
           map (\<lambda>i. ucast (drop_bit i c)) [56, 48, 40, 32, 24, 16, 8, 0] @ drop 8 buf"
  using assms
  by (simp add: u16c.wr_enc u32c.wr_enc u64c.wr_enc) (simp add: host_bytes_def upt_numerals Let_def)

theorem codec_wire_format_witness:
  "8 \<le> length (replicate 8 (0 :: u8))
   \<and> WriteUInt32 BigEnd (replicate 8 0) 0x01020304 = [1, 2, 3, 4] @ replicate 4 0"
  using codec_wire_format [of "replicate 8 0" BigEnd 0 "0x01020304" 0] by simp

end
