(* ===== verification/MemPool.thy ===== *)
theory MemPool
  imports Prelude
begin

text \<open>
  \<open>src/src/ccsys/mem-pool.h\<close> and \<open>mem-pool.cc\<close>: the pooled allocator. The pool cuts pages into
  equal objects and keeps, per size class, the pages it owns and the free objects of each page.
  Sizes are 32 bit words, as in the source, so that their arithmetic wraps; addresses
  (\<open>uintptr_t\<close>) are naturals with the 64 bit wrap written out. A \<open>MemObject\<close> is the value of the
  handle; the list \<open>m_free_mem_objs\<close> holds recycled handles. \<open>PosixMemAlign\<close> is a parameter
  \<open>ma\<close> of the operations (the address it returns for an alignment and a size, 0 when it fails), the
  placement of keys in the hash tables is the parameter \<open>h\<close>, and the addresses passed to
  \<open>free\<close> are collected in \<open>heap_freed\<close>. The operations run under their spin locks and are
  modelled as atomic; dereferencing \<open>end()\<close>, dividing by zero and a failed assertion are errors.
\<close>

unbundle bit_operations_syntax

section \<open>State\<close>

datatype MemObjectType = Tiny | Small | Big | Bulk

record MemObject =
  m_type :: MemObjectType
  m_slot_size :: u32
  m_obj_pv :: nat
  m_obj_page_pv :: nat

type_synonym free_objs = "(nat \<times> nat list) list"

record SlotObjPage =
  objs :: free_objs
  cnt :: u32

record pool =
  m_tiny_obj_pages :: "nat set"
  m_free_tiny_objs :: free_objs
  m_free_tiny_objs_cnt :: u32
  m_small_obj_pages :: "u32 \<rightharpoonup> nat set"
  m_free_small_objs :: "u32 \<rightharpoonup> SlotObjPage"
  m_big_obj_pages :: "u32 \<rightharpoonup> nat set"
  m_free_big_objs :: "u32 \<rightharpoonup> SlotObjPage"
  m_bulk_obj_pages :: "u32 \<rightharpoonup> nat set"
  m_free_hash_bulk_objs :: "u32 \<rightharpoonup> SlotObjPage"
  m_free_bulk_objs :: "u32 list"
  m_free_mem_objs :: "MemObject list"
  m_sys_page_size :: u32
  m_small_obj_slot_footstep_size :: u32
  m_small_obj_slot_footstep_exponent :: nat
  m_big_obj_slot_footstep_exponent :: nat
  m_bulk_obj_slot_footstep_exponent :: nat
  m_one_slot_tiny_obj_resident_cnts :: u32
  m_one_slot_small_obj_resident_cnts :: u32
  m_one_slot_big_obj_resident_cnts :: u32
  m_one_slot_bulk_obj_resident_cnts :: u32
  m_tiny_obj_threshold :: u32
  m_big_obj_threshold :: u32
  m_bulk_obj_threshold :: u32
  m_available_reserve_bulk_obj_max_size :: u32
  m_expand_obj_cnt_factor :: u32
  m_expand_bulk_obj_cnt_factor :: u32
  heap_freed :: "nat list"

text \<open>The \<open>std::map\<close> \<open>m_free_bulk_objs\<close> holds, under each key, a pointer to the entry of
  \<open>m_free_hash_bulk_objs\<close> with that key; it is the ascending list of its keys here, and following a
  pointer is the lookup in the hash table, undefined when the entry has been erased.\<close>

datatype pool_error = Assert_failed | Undefined_behaviour

type_synonym 'a pool_result = "pool_error + 'a"

definition um_at :: "('k \<rightharpoonup> 'v set) \<Rightarrow> 'k \<Rightarrow> 'v set" where
  "um_at m k = (case m k of None \<Rightarrow> {} | Some s \<Rightarrow> s)"

section \<open>Size arithmetic\<close>

definition roundup_to_the_next_highest_multiple_of_exponent2 :: "u32 \<Rightarrow> nat \<Rightarrow> u32" where
  "roundup_to_the_next_highest_multiple_of_exponent2 inp exponent =
     (let low_true = push_bit (32 - exponent) inp XOR 0
      in if low_true = 0 then inp
         else let multiple_base = push_bit (exponent - 1) 2;
                  mask = push_bit exponent (drop_bit exponent 0xFFFFFFFF)
              in (inp AND mask) + multiple_base)"

definition convert_slot_obj_size_to_slot_idx :: "u32 \<Rightarrow> u32 \<Rightarrow> u32" where
  "convert_slot_obj_size_to_slot_idx sz footstep = sz div footstep"

definition gen_expand_slot_page_size :: "u32 \<Rightarrow> u32 \<Rightarrow> u32 \<Rightarrow> u32" where
  "gen_expand_slot_page_size objSize expandObjCntFactor pageSize =
     (let expandCalSize = objSize * expandObjCntFactor;
          pageCnt = expandCalSize div pageSize;
          pageCnt = (if expandCalSize mod pageSize \<noteq> 0 then pageCnt + 1 else pageCnt)
      in pageCnt * pageSize)"

definition split_mem_page :: "u32 \<Rightarrow> nat \<Rightarrow> u32 \<Rightarrow> nat list" where
  "split_mem_page slotSize pagePv pageSize =
     (let n = pageSize div slotSize
      in map (\<lambda>i. (pagePv + unat (slotSize * of_nat i)) mod 2 ^ 64) [0..<unat n])"

text \<open>\<open>(uint32_t)log2(n)\<close>.\<close>

fun log2_trunc :: "nat \<Rightarrow> nat" where
  "log2_trunc n = (if n < 2 then 0 else Suc (log2_trunc (n div 2)))"

declare log2_trunc.simps [simp del]

section \<open>Construction and destruction\<close>

definition slot_range :: "u32 \<Rightarrow> 'v \<Rightarrow> (u32 \<rightharpoonup> 'v)" where
  "slot_range n v = (\<lambda>i. if 1 \<le> i \<and> i \<le> n then Some v else None)"

definition new_MemPool :: "u32 \<Rightarrow> u32 \<Rightarrow> u32 \<Rightarrow> u32 \<Rightarrow> u32 \<Rightarrow> u32 \<Rightarrow> u32 \<Rightarrow> u32 \<Rightarrow> u32 \<Rightarrow> pool" where
  "new_MemPool sys_page nprocs garbage torc sorc borc tpt bipt bupt =
     \<lparr> m_tiny_obj_pages = {}, m_free_tiny_objs = [], m_free_tiny_objs_cnt = garbage,
       m_small_obj_pages = slot_range (bipt div 32) {},
       m_free_small_objs = slot_range (bipt div 32) \<lparr> objs = [], cnt = 0 \<rparr>,
       m_big_obj_pages = slot_range (bupt div sys_page) {},
       m_free_big_objs = slot_range (bupt div sys_page) \<lparr> objs = [], cnt = 0 \<rparr>,
       m_bulk_obj_pages = (\<lambda>_. None), m_free_hash_bulk_objs = (\<lambda>_. None), m_free_bulk_objs = [],
       m_free_mem_objs = [],
       m_sys_page_size = sys_page,
       m_small_obj_slot_footstep_size = 32,
       m_small_obj_slot_footstep_exponent = log2_trunc 32,
       m_big_obj_slot_footstep_exponent = log2_trunc (unat sys_page),
       m_bulk_obj_slot_footstep_exponent = log2_trunc (unat sys_page),
       m_one_slot_tiny_obj_resident_cnts = torc,
       m_one_slot_small_obj_resident_cnts = sorc,
       m_one_slot_big_obj_resident_cnts = borc,
       m_one_slot_bulk_obj_resident_cnts = nprocs,
       m_tiny_obj_threshold = tpt,
       m_big_obj_threshold = bipt,
       m_bulk_obj_threshold = bupt,
       m_available_reserve_bulk_obj_max_size = 1048576,
       m_expand_obj_cnt_factor = 32,
       m_expand_bulk_obj_cnt_factor = 4,
       heap_freed = [] \<rparr>"

definition new_MemPool3 :: "u32 \<Rightarrow> u32 \<Rightarrow> u32 \<Rightarrow> u32 \<Rightarrow> u32 \<Rightarrow> u32 \<Rightarrow> pool" where
  "new_MemPool3 sys_page nprocs garbage torc sorc borc =
     new_MemPool sys_page nprocs garbage torc sorc borc 16 sys_page 131072"

definition new_MemPool0 :: "u32 \<Rightarrow> u32 \<Rightarrow> u32 \<Rightarrow> pool" where
  "new_MemPool0 sys_page nprocs garbage = new_MemPool sys_page nprocs garbage 512 256 128 16 sys_page 131072"

text \<open>The set of addresses the destructor frees.\<close>

definition delete_MemPool :: "pool \<Rightarrow> nat set" where
  "delete_MemPool st =
     m_tiny_obj_pages st \<union> \<Union> (ran (m_small_obj_pages st))
     \<union> \<Union> (ran (m_big_obj_pages st)) \<union> \<Union> (ran (m_bulk_obj_pages st))"

section \<open>Helpers of \<open>Get\<close>\<close>

definition get_mem_object :: "MemObjectType \<Rightarrow> u32 \<Rightarrow> nat \<Rightarrow> nat \<Rightarrow> pool \<Rightarrow> MemObject \<times> pool" where
  "get_mem_object type slotSize objPv slotStartPv st =
     (case m_free_mem_objs st of
        mo # rest \<Rightarrow>
          (mo\<lparr>m_type := type, m_slot_size := slotSize, m_obj_pv := objPv, m_obj_page_pv := slotStartPv\<rparr>,
           st\<lparr>m_free_mem_objs := rest\<rparr>)
      | [] \<Rightarrow>
          (\<lparr>m_type = type, m_slot_size = slotSize, m_obj_pv = objPv, m_obj_page_pv = slotStartPv\<rparr>, st))"

definition alloc_page_objs ::
  "nat placement \<Rightarrow> (u32 \<Rightarrow> u32 \<Rightarrow> nat) \<Rightarrow> u32 \<Rightarrow> u32 \<Rightarrow> u32 \<Rightarrow> nat set \<Rightarrow> free_objs
     \<Rightarrow> (nat set \<times> free_objs) option" where
  "alloc_page_objs h ma sys_page sz slotSize pages freeObjs =
     (let page_pv = ma sys_page sz
      in if page_pv \<noteq> 0
         then Some (insert page_pv pages,
                    um_upsert h page_pv (split_mem_page slotSize page_pv sz) freeObjs)
         else None)"

text \<open>The result is the free list left, the page and the object (0 when there is none).\<close>

definition get_free_obj_from_slot_page :: "free_objs \<Rightarrow> (free_objs \<times> nat \<times> nat) pool_result" where
  "get_free_obj_from_slot_page pages =
     (case pages of
        [] \<Rightarrow> Inr ([], 0, 0)
      | (page, []) # _ \<Rightarrow> Inl Undefined_behaviour
      | (page, obj # os) # rest \<Rightarrow>
          Inr (if os = [] then rest else (page, os) # rest, page, obj))"

text \<open>The first object of the first page of a bulk slot: the slot left (\<open>None\<close> when its last page
  went), the page and the object.\<close>

definition take_first_bulk_obj :: "SlotObjPage \<Rightarrow> (SlotObjPage \<times> bool \<times> nat \<times> nat) pool_result" where
  "take_first_bulk_obj slot =
     (case objs slot of
        (page, obj # os) # rest \<Rightarrow>
          (let left = (if os = [] then rest else (page, os) # rest)
           in Inr (slot\<lparr>objs := left\<rparr>, os = [] \<and> rest = [], page, obj))
      | _ \<Rightarrow> Inl Undefined_behaviour)"

text \<open>\<open>get_suitable_bulk_page\<close> with its default factor 2; slot indices stay below $2^{20}$, so the
  product in \<open>float\<close> is exact. The result is the state, the slot index, the object and the page.
  In the reverse search the key of the emptied slot is read again through the reverse iterator after
  the erase, where it denotes the entry before it; in the other branch the iterator itself is dead.\<close>

definition get_suitable_bulk_page :: "u32 \<Rightarrow> pool \<Rightarrow> (pool \<times> u32 \<times> nat \<times> nat) pool_result" where
  "get_suitable_bulk_page needSlotIdx st =
     (case m_free_hash_bulk_objs st needSlotIdx of
        Some slot \<Rightarrow>
          (case take_first_bulk_obj slot of
             Inl e \<Rightarrow> Inl e
           | Inr (slot', emptied, page, obj) \<Rightarrow>
               Inr (if emptied
                    then st\<lparr>m_free_hash_bulk_objs := (m_free_hash_bulk_objs st)(needSlotIdx := None),
                            m_free_bulk_objs := filter (\<lambda>k. k \<noteq> needSlotIdx) (m_free_bulk_objs st)\<rparr>
                    else st\<lparr>m_free_hash_bulk_objs := (m_free_hash_bulk_objs st)(needSlotIdx \<mapsto> slot')\<rparr>,
                    needSlotIdx, obj, page))
      | None \<Rightarrow>
          (let ks = m_free_bulk_objs st; maxPageSize = needSlotIdx * 2
           in if ks = [] then Inr (st, 0, 0, 0)
              else if last ks < needSlotIdx then Inr (st, 0, 0, 0)
              else if hd ks > needSlotIdx then
                if hd ks > maxPageSize then Inr (st, 0, 0, 0)
                else
                  (case m_free_hash_bulk_objs st (hd ks) of
                     None \<Rightarrow> Inl Undefined_behaviour
                   | Some slot \<Rightarrow>
                       (case take_first_bulk_obj slot of
                          Inl e \<Rightarrow> Inl e
                        | Inr (slot', emptied, page, obj) \<Rightarrow>
                            if emptied then Inl Undefined_behaviour
                            else Inr (st\<lparr>m_free_hash_bulk_objs := (m_free_hash_bulk_objs st)(hd ks \<mapsto> slot')\<rparr>,
                                      hd ks, obj, page)))
              else
                (case find (\<lambda>k. k > needSlotIdx \<and> k \<le> maxPageSize) (rev ks) of
                   None \<Rightarrow> Inr (st, 0, 0, 0)
                 | Some k \<Rightarrow>
                     (case m_free_hash_bulk_objs st k of
                        None \<Rightarrow> Inl Undefined_behaviour
                      | Some slot \<Rightarrow>
                          (case take_first_bulk_obj slot of
                             Inl e \<Rightarrow> Inl e
                           | Inr (slot', emptied, page, obj) \<Rightarrow>
                               let hash' = (m_free_hash_bulk_objs st)(k \<mapsto> slot')
                               in if emptied
                                  then (case filter (\<lambda>k'. k' < k) ks of
                                          [] \<Rightarrow> Inl Undefined_behaviour
                                        | before \<Rightarrow>
                                            Inr (st\<lparr>m_free_hash_bulk_objs := hash'(last before := None),
                                                    m_free_bulk_objs := filter (\<lambda>k'. k' \<noteq> k) ks\<rparr>,
                                                 k, obj, page))
                                  else Inr (st\<lparr>m_free_hash_bulk_objs := hash'\<rparr>, k, obj, page))))))"

section \<open>\<open>Get\<close>\<close>

definition Get_tiny :: "nat placement \<Rightarrow> (u32 \<Rightarrow> u32 \<Rightarrow> nat) \<Rightarrow> pool \<Rightarrow> (MemObject option \<times> pool) pool_result" where
  "Get_tiny h ma st =
     (let st1 = (if m_free_tiny_objs st = [] then
                   (case alloc_page_objs h ma (m_sys_page_size st) (m_sys_page_size st)
                           (m_tiny_obj_threshold st) (m_tiny_obj_pages st) (m_free_tiny_objs st) of
                      Some (pages, free) \<Rightarrow>
                        st\<lparr>m_tiny_obj_pages := pages, m_free_tiny_objs := free,
                           m_free_tiny_objs_cnt := m_sys_page_size st div m_tiny_obj_threshold st\<rparr>
                    | None \<Rightarrow> st)
                 else st)
      in case get_free_obj_from_slot_page (m_free_tiny_objs st1) of
           Inl e \<Rightarrow> Inl e
         | Inr (free, slot_page_pv, tiny_obj_pv) \<Rightarrow>
             let st2 = st1\<lparr>m_free_tiny_objs := free\<rparr>
             in if tiny_obj_pv \<noteq> 0
                then let st3 = st2\<lparr>m_free_tiny_objs_cnt := m_free_tiny_objs_cnt st2 - 1\<rparr>;
                         (mo, st4) = get_mem_object Tiny (m_tiny_obj_threshold st) tiny_obj_pv slot_page_pv st3
                     in Inr (Some mo, st4)
                else Inr (None, st2))"

text \<open>The branch for small and big objects; \<open>take_slot_obj\<close> is its work on the slot's own entry
  of the free table and its page set: the result is the pages, the entry, the page
  and the object.\<close>

definition take_slot_obj ::
  "nat placement \<Rightarrow> (u32 \<Rightarrow> u32 \<Rightarrow> nat) \<Rightarrow> u32 \<Rightarrow> u32 \<Rightarrow> u32 \<Rightarrow> nat set \<Rightarrow> SlotObjPage
     \<Rightarrow> (nat set \<times> SlotObjPage \<times> nat \<times> nat) pool_result" where
  "take_slot_obj h ma sys_page slotSize expandPageSize pages slot =
     (let (pages1, slot1) =
            (if objs slot = [] then
               (case alloc_page_objs h ma sys_page expandPageSize slotSize pages (objs slot) of
                  Some (pages', free) \<Rightarrow> (pages', slot\<lparr>objs := free, cnt := expandPageSize div slotSize\<rparr>)
                | None \<Rightarrow> (pages, slot))
             else (pages, slot))
      in case get_free_obj_from_slot_page (objs slot1) of
           Inl e \<Rightarrow> Inl e
         | Inr (free, slot_page_pv, obj_pv) \<Rightarrow>
             let slot2 = slot1\<lparr>objs := free\<rparr>
             in Inr (pages1, if obj_pv \<noteq> 0 then slot2\<lparr>cnt := cnt slot2 - 1\<rparr> else slot2, slot_page_pv, obj_pv))"

definition Get_slot ::
  "nat placement \<Rightarrow> (u32 \<Rightarrow> u32 \<Rightarrow> nat) \<Rightarrow> u32 \<Rightarrow> pool \<Rightarrow> (MemObject option \<times> pool) pool_result" where
  "Get_slot h ma sz st =
     (let big = m_big_obj_threshold st < sz;
          slotFootstepSize = (if big then m_sys_page_size st else m_small_obj_slot_footstep_size st);
          slotFootstepExponent =
            (if big then m_big_obj_slot_footstep_exponent st else m_small_obj_slot_footstep_exponent st);
          free_objs = (if big then m_free_big_objs st else m_free_small_objs st);
          pages = (if big then m_big_obj_pages st else m_small_obj_pages st);
          slotSize = roundup_to_the_next_highest_multiple_of_exponent2 sz slotFootstepExponent;
          slotIdx = convert_slot_obj_size_to_slot_idx slotSize slotFootstepSize;
          expandPageSize = gen_expand_slot_page_size slotSize (m_expand_obj_cnt_factor st) (m_sys_page_size st)
      in case free_objs slotIdx of
           None \<Rightarrow> Inl Undefined_behaviour
         | Some slot \<Rightarrow>
             (case take_slot_obj h ma (m_sys_page_size st) slotSize expandPageSize (um_at pages slotIdx) slot of
                Inl e \<Rightarrow> Inl e
              | Inr (pages', slot', slot_page_pv, obj_pv) \<Rightarrow>
                  let st1 = (if big
                             then st\<lparr>m_free_big_objs := free_objs(slotIdx \<mapsto> slot'),
                                     m_big_obj_pages := pages(slotIdx \<mapsto> pages')\<rparr>
                             else st\<lparr>m_free_small_objs := free_objs(slotIdx \<mapsto> slot'),
                                     m_small_obj_pages := pages(slotIdx \<mapsto> pages')\<rparr>)
                  in if obj_pv \<noteq> 0
                     then let (mo, st2) = get_mem_object (if big then Big else Small) slotSize obj_pv slot_page_pv st1
                          in Inr (Some mo, st2)
                     else Inr (None, st1)))"

definition Get_bulk ::
  "nat placement \<Rightarrow> (u32 \<Rightarrow> u32 \<Rightarrow> nat) \<Rightarrow> u32 \<Rightarrow> pool \<Rightarrow> (MemObject option \<times> pool) pool_result" where
  "Get_bulk h ma sz st =
     (let needPageSize =
            roundup_to_the_next_highest_multiple_of_exponent2 sz (m_bulk_obj_slot_footstep_exponent st);
          needSlotIdx = convert_slot_obj_size_to_slot_idx needPageSize (m_sys_page_size st)
      in case get_suitable_bulk_page needSlotIdx st of
           Inl e \<Rightarrow> Inl e
         | Inr (st1, idx1, obj1, page1) \<Rightarrow>
             (case (if obj1 \<noteq> 0 then Inr (st1, idx1, obj1, page1)
                    else if needPageSize = 0 \<and> ma (m_sys_page_size st1) 0 \<noteq> 0 then Inl Undefined_behaviour
                    else
                      let expandPageSize =
                            (if needPageSize < m_available_reserve_bulk_obj_max_size st1
                             then gen_expand_slot_page_size needPageSize (m_expand_bulk_obj_cnt_factor st1)
                                    (m_sys_page_size st1)
                             else needPageSize);
                          st2 = (case alloc_page_objs h ma (m_sys_page_size st1) expandPageSize needPageSize {} [] of
                                   Some (pages, free) \<Rightarrow>
                                     st1\<lparr>m_bulk_obj_pages := (m_bulk_obj_pages st1)(needSlotIdx \<mapsto> pages),
                                         m_free_hash_bulk_objs := (m_free_hash_bulk_objs st1)
                                           (needSlotIdx \<mapsto> \<lparr>objs = free, cnt = expandPageSize div needPageSize\<rparr>),
                                         m_free_bulk_objs := sort (remdups (needSlotIdx # m_free_bulk_objs st1))\<rparr>
                                 | None \<Rightarrow>
                                     st1\<lparr>m_bulk_obj_pages := (m_bulk_obj_pages st1)(needSlotIdx \<mapsto> {}),
                                         m_free_hash_bulk_objs := (m_free_hash_bulk_objs st1)(needSlotIdx := None),
                                         m_free_bulk_objs :=
                                           filter (\<lambda>k. k \<noteq> needSlotIdx) (m_free_bulk_objs st1)\<rparr>)
                      in get_suitable_bulk_page needSlotIdx st2) of
                Inl e \<Rightarrow> Inl e
              | Inr (st3, idx, obj, page) \<Rightarrow>
                  if obj \<noteq> 0
                  then let st4 = (case m_free_hash_bulk_objs st3 idx of
                                    Some slot \<Rightarrow>
                                      st3\<lparr>m_free_hash_bulk_objs :=
                                            (m_free_hash_bulk_objs st3)(idx \<mapsto> slot\<lparr>cnt := cnt slot - 1\<rparr>)\<rparr>
                                  | None \<Rightarrow> st3);
                           (mo, st5) = get_mem_object Bulk (idx * m_sys_page_size st3) obj page st4
                       in Inr (Some mo, st5)
                  else Inr (None, st3)))"

definition Get :: "nat placement \<Rightarrow> (u32 \<Rightarrow> u32 \<Rightarrow> nat) \<Rightarrow> u32 \<Rightarrow> pool \<Rightarrow> (MemObject option \<times> pool) pool_result" where
  "Get h ma sz st =
     (if sz = 0 then Inl Assert_failed
      else if m_tiny_obj_threshold st \<ge> sz then Get_tiny h ma st
      else if m_bulk_obj_threshold st \<ge> sz then Get_slot h ma sz st
      else Get_bulk h ma sz st)"

section \<open>\<open>Put\<close>\<close>

text \<open>The steps that the tiny, small and big cases of \<open>put\<close> share: the object goes to the end of its
  page's free list, and once the free objects reach the resident bound plus one page, the first page
  all of whose objects are free is erased and freed. The result is the pages, the free lists, the
  count and the freed page.\<close>

definition give_slot_obj ::
  "nat placement \<Rightarrow> u32 \<Rightarrow> u32 \<Rightarrow> nat \<Rightarrow> nat \<Rightarrow> nat set \<Rightarrow> free_objs \<Rightarrow> u32
     \<Rightarrow> nat set \<times> free_objs \<times> u32 \<times> nat option" where
  "give_slot_obj h resident onePageObjsCnt objPv objPagePv pages free n =
     (let old = (case map_of free objPagePv of None \<Rightarrow> [] | Some os \<Rightarrow> os);
          free1 = um_upsert h objPagePv (old @ [objPv]) free;
          n1 = n + 1
      in if n1 \<ge> resident + onePageObjsCnt
         then (case find (\<lambda>kv. length (snd kv) = unat onePageObjsCnt) free1 of
                 Some (freePtr, _) \<Rightarrow>
                   (pages - {freePtr}, um_erase freePtr free1, n1 - onePageObjsCnt, Some freePtr)
               | None \<Rightarrow> (pages, free1, n1, None))
         else (pages, free1, n1, None))"

definition put_tiny :: "nat placement \<Rightarrow> nat \<Rightarrow> nat \<Rightarrow> pool \<Rightarrow> pool" where
  "put_tiny h objPv objPagePv st =
     (let onePageObjsCnt = m_sys_page_size st div m_tiny_obj_threshold st;
          (pages, free, n, freed) =
            give_slot_obj h (m_one_slot_tiny_obj_resident_cnts st) onePageObjsCnt objPv objPagePv
              (m_tiny_obj_pages st) (m_free_tiny_objs st) (m_free_tiny_objs_cnt st)
      in st\<lparr>m_tiny_obj_pages := pages, m_free_tiny_objs := free, m_free_tiny_objs_cnt := n,
            heap_freed := heap_freed st @ (case freed of None \<Rightarrow> [] | Some p \<Rightarrow> [p])\<rparr>)"

definition put_small :: "nat placement \<Rightarrow> u32 \<Rightarrow> nat \<Rightarrow> nat \<Rightarrow> pool \<Rightarrow> pool pool_result" where
  "put_small h slotSize objPv objPagePv st =
     (let slotIdx = convert_slot_obj_size_to_slot_idx slotSize (m_small_obj_slot_footstep_size st)
      in case m_free_small_objs st slotIdx of
           None \<Rightarrow> Inl Undefined_behaviour
         | Some slot \<Rightarrow>
             let onePageSize = gen_expand_slot_page_size slotSize (m_expand_obj_cnt_factor st) (m_sys_page_size st);
                 (pages, free, n, freed) =
                   give_slot_obj h (m_one_slot_small_obj_resident_cnts st) (onePageSize div slotSize) objPv objPagePv
                     (um_at (m_small_obj_pages st) slotIdx) (objs slot) (cnt slot)
             in Inr (st\<lparr>m_small_obj_pages := (m_small_obj_pages st)(slotIdx \<mapsto> pages),
                        m_free_small_objs := (m_free_small_objs st)(slotIdx \<mapsto> slot\<lparr>objs := free, cnt := n\<rparr>),
                        heap_freed := heap_freed st @ (case freed of None \<Rightarrow> [] | Some p \<Rightarrow> [p])\<rparr>))"

definition put_big :: "nat placement \<Rightarrow> u32 \<Rightarrow> nat \<Rightarrow> nat \<Rightarrow> pool \<Rightarrow> pool pool_result" where
  "put_big h slotSize objPv objPagePv st =
     (let slotIdx = convert_slot_obj_size_to_slot_idx slotSize (m_sys_page_size st)
      in case m_free_big_objs st slotIdx of
           None \<Rightarrow> Inl Undefined_behaviour
         | Some slot \<Rightarrow>
             let onePageSize = gen_expand_slot_page_size slotSize (m_expand_obj_cnt_factor st) (m_sys_page_size st);
                 (pages, free, n, freed) =
                   give_slot_obj h (m_one_slot_big_obj_resident_cnts st) (onePageSize div slotSize) objPv objPagePv
                     (um_at (m_big_obj_pages st) slotIdx) (objs slot) (cnt slot)
             in Inr (st\<lparr>m_big_obj_pages := (m_big_obj_pages st)(slotIdx \<mapsto> pages),
                        m_free_big_objs := (m_free_big_objs st)(slotIdx \<mapsto> slot\<lparr>objs := free, cnt := n\<rparr>),
                        heap_freed := heap_freed st @ (case freed of None \<Rightarrow> [] | Some p \<Rightarrow> [p])\<rparr>))"

definition put_bulk :: "nat placement \<Rightarrow> u32 \<Rightarrow> nat \<Rightarrow> nat \<Rightarrow> pool \<Rightarrow> pool pool_result" where
  "put_bulk h slotSize objPv objPagePv st =
     (let slotIdx = convert_slot_obj_size_to_slot_idx slotSize (m_sys_page_size st)
      in if slotSize > m_available_reserve_bulk_obj_max_size st
         then (case m_bulk_obj_pages st slotIdx of
                 None \<Rightarrow> Inl Undefined_behaviour
               | Some pages \<Rightarrow>
                   let pages' = pages - {objPagePv}
                   in Inr (st\<lparr>m_bulk_obj_pages := (m_bulk_obj_pages st)
                                 (slotIdx := (if pages' = {} then None else Some pages')),
                              heap_freed := heap_freed st @ [objPagePv]\<rparr>))
         else
           let slot = (case m_free_hash_bulk_objs st slotIdx of
                         None \<Rightarrow> \<lparr>objs = [(objPagePv, [])], cnt = 0\<rparr> | Some s \<Rightarrow> s);
               keys = (if m_free_hash_bulk_objs st slotIdx = None
                       then sort (remdups (slotIdx # m_free_bulk_objs st)) else m_free_bulk_objs st);
               onePageSize = gen_expand_slot_page_size slotSize (m_expand_bulk_obj_cnt_factor st) (m_sys_page_size st);
               (pages, free, n, freed) =
                 give_slot_obj h (m_one_slot_bulk_obj_resident_cnts st) (onePageSize div slotSize) objPv objPagePv
                   (um_at (m_bulk_obj_pages st) slotIdx) (objs slot) (cnt slot);
               slot' = slot\<lparr>objs := free, cnt := n\<rparr>
           in Inr (case freed of
                     None \<Rightarrow>
                       st\<lparr>m_free_hash_bulk_objs := (m_free_hash_bulk_objs st)(slotIdx \<mapsto> slot'),
                          m_free_bulk_objs := keys\<rparr>
                   | Some p \<Rightarrow>
                       st\<lparr>m_bulk_obj_pages := (m_bulk_obj_pages st)(slotIdx \<mapsto> pages),
                          m_free_hash_bulk_objs :=
                            (m_free_hash_bulk_objs st)(slotIdx := (if n = 0 then None else Some slot')),
                          m_free_bulk_objs := (if n = 0 then filter (\<lambda>k. k \<noteq> slotIdx) keys else keys),
                          heap_freed := heap_freed st @ [p]\<rparr>))"

definition put :: "nat placement \<Rightarrow> MemObjectType \<Rightarrow> u32 \<Rightarrow> nat \<Rightarrow> nat \<Rightarrow> pool \<Rightarrow> pool pool_result" where
  "put h type slotSize objPv objPagePv st =
     (case type of
        Tiny \<Rightarrow> Inr (put_tiny h objPv objPagePv st)
      | Small \<Rightarrow> put_small h slotSize objPv objPagePv st
      | Big \<Rightarrow> put_big h slotSize objPv objPagePv st
      | Bulk \<Rightarrow> put_bulk h slotSize objPv objPagePv st)"

text \<open>\<open>Put\<close>: \<open>None\<close> is the null pointer.\<close>

definition Put :: "nat placement \<Rightarrow> MemObject option \<Rightarrow> pool \<Rightarrow> pool pool_result" where
  "Put h memObject st =
     (case memObject of
        None \<Rightarrow> Inr st
      | Some mo \<Rightarrow>
          (case put h (m_type mo) (m_slot_size mo) (m_obj_pv mo) (m_obj_page_pv mo) st of
             Inl e \<Rightarrow> Inl e
           | Inr st' \<Rightarrow> Inr (st'\<lparr>m_free_mem_objs := m_free_mem_objs st' @ [mo]\<rparr>)))"

section \<open>Size arithmetic: correctness\<close>

lemma push_bit_eq_0_iff_take_bit:
  fixes w :: u32
  assumes "e \<le> 32"
  shows "push_bit (32 - e) w = 0 \<longleftrightarrow> take_bit e w = 0"
proof -
  have "push_bit (32 - e) w = 0 \<longleftrightarrow> (\<forall>i < e. \<not> bit w i)"
  proof
    assume "push_bit (32 - e) w = 0"
    then have b: "\<not> bit (push_bit (32 - e) w) k" for k by simp
    have "\<not> bit w i" if "i < e" for i
      using b [of "i + (32 - e)"] that assms by (simp add: bit_simps)
    then show "\<forall>i < e. \<not> bit w i" by blast
  qed (auto simp: bit_eq_iff bit_simps)
  also have "\<dots> \<longleftrightarrow> take_bit e w = 0"
  proof
    assume "\<forall>i < e. \<not> bit w i"
    then show "take_bit e w = 0" by (auto simp: bit_eq_iff bit_simps)
  next
    assume "take_bit e w = 0"
    then have "\<not> bit (take_bit e w) i" for i by simp
    then show "\<forall>i < e. \<not> bit w i" by (auto simp: bit_take_bit_iff)
  qed
  finally show ?thesis .
qed

lemma unat_take_bit_word: "unat (take_bit e (w :: 'a::len word)) = unat w mod 2 ^ e"
  by (simp add: unsigned_take_bit_eq flip: take_bit_eq_mod)

lemma low_true_iff: "e \<le> 32 \<Longrightarrow> push_bit (32 - e) (w :: u32) = 0 \<longleftrightarrow> 2 ^ e dvd unat w"
  using unat_eq_0 [of "take_bit e w"]
  by (simp add: push_bit_eq_0_iff_take_bit unat_take_bit_word dvd_eq_mod_eq_0 del: unat_eq_0)

lemma unat_and_high_mask:
  fixes w :: u32
  shows "unat (w AND push_bit e (drop_bit e 0xFFFFFFFF)) = unat w div 2 ^ e * 2 ^ e"
proof -
  have "w AND push_bit e (drop_bit e 0xFFFFFFFF) = push_bit e (drop_bit e w)"
  proof (rule bit_word_eqI)
    fix n assume "n < LENGTH(32)"
    moreover have "(0xFFFFFFFF :: u32) = - 1" by simp
    ultimately show "bit (w AND push_bit e (drop_bit e 0xFFFFFFFF)) n = bit (push_bit e (drop_bit e w)) n"
      by (simp only: bit_simps) auto
  qed
  also have "push_bit e (drop_bit e w) = w - take_bit e w"
    using bits_ident [of e w] by (simp add: algebra_simps)
  also have "unat \<dots> = unat w - unat (take_bit e w)"
    by (rule unat_sub) (simp add: word_le_nat_alt unat_take_bit_word)
  finally show ?thesis by (simp add: unat_take_bit_word minus_mod_eq_div_mult)
qed

lemma unat_roundup:
  assumes "0 < e" "e < 32"
  shows "unat (roundup_to_the_next_highest_multiple_of_exponent2 w e)
       = (unat w + (2 ^ e - 1)) div 2 ^ e * 2 ^ e mod 2 ^ 32"
proof (cases "2 ^ e dvd unat w")
  case True
  then obtain k where k: "unat w = 2 ^ e * k" ..
  have "(2 ^ e * k + (2 ^ e - 1)) div 2 ^ e = k + (2 ^ e - 1) div 2 ^ e" for k :: nat
    by (subst div_mult_self4) simp_all
  then have "(2 ^ e * k + (2 ^ e - 1)) div 2 ^ e = k" by simp
  moreover have "unat w < 2 ^ 32" using unsigned_less [of w] by simp
  ultimately show ?thesis using True assms k
    by (simp add: roundup_to_the_next_highest_multiple_of_exponent2_def low_true_iff mult.commute)
next
  case False
  let ?m = "2 ^ e :: nat"
  have pos: "0 < unat w mod ?m" using False by (simp add: dvd_eq_mod_eq_0)
  have "(unat w + (?m - 1)) div ?m = unat w div ?m + 1"
  proof -
    have "unat w + (?m - 1) = (unat w div ?m + 1) * ?m + (unat w mod ?m - 1)"
      using pos div_mult_mod_eq [of "unat w" ?m] by (cases "unat w") (simp_all add: algebra_simps)
    moreover have "unat w mod ?m - 1 < ?m" by (simp add: less_imp_diff_less)
    moreover have "(a * ?m + b) div ?m = a" if "b < ?m" for a b using that by simp
    ultimately show ?thesis by (simp only:)
  qed
  moreover have "roundup_to_the_next_highest_multiple_of_exponent2 w e
      = (w AND push_bit e (drop_bit e 0xFFFFFFFF)) + 2 ^ e"
  proof -
    have "push_bit (e - 1) (2 :: u32) = 2 ^ e"
      using assms by (cases e) (simp_all add: push_bit_eq_mult)
    then show ?thesis using False assms
      by (simp add: roundup_to_the_next_highest_multiple_of_exponent2_def low_true_iff Let_def)
  qed
  moreover have "unat ((2 :: u32) ^ e) = 2 ^ e"
  proof -
    have "(2 :: nat) ^ e < 2 ^ 32" using assms(2) by (rule power_strict_increasing) simp
    then have "unat (of_nat (2 ^ e) :: u32) = 2 ^ e" by (simp only: unat_of_nat len_num1 len_bit0 mod_less) simp
    then show ?thesis by simp
  qed
  moreover have "unat (a + b) = (unat a + unat b) mod 2 ^ 32" for a b :: u32
    using unat_word_ariths(1) [of a b] by simp
  ultimately show ?thesis by (simp only: unat_and_high_mask add_mult_distrib mult_1 add.commute)
qed

lemma roundup_bounds:
  fixes w B :: u32
  assumes "0 < e" "e < 32" "2 ^ e dvd unat B" "w \<le> B"
  defines "r \<equiv> roundup_to_the_next_highest_multiple_of_exponent2 w e"
  shows "2 ^ e dvd unat r" "w \<le> r" "r \<le> B" "unat r < unat w + 2 ^ e"
proof -
  let ?m = "2 ^ e :: nat"
  obtain k where k: "unat B = ?m * k" using assms(3) ..
  have le: "unat w \<le> unat B" using assms(4) by (simp add: word_le_nat_alt)
  have "(unat w + (?m - 1)) div ?m \<le> (unat B + (?m - 1)) div ?m" using le by (intro div_le_mono) simp
  also have "\<dots> = k"
  proof -
    have "(?m * k + (?m - 1)) div ?m = k + (?m - 1) div ?m" by (subst div_mult_self4) simp_all
    then show ?thesis by (simp add: k)
  qed
  finally have up: "(unat w + (?m - 1)) div ?m * ?m \<le> unat B" by (simp add: k mult.commute)
  have lt: "unat B < 2 ^ 32" using unsigned_less [of B] by simp
  have r: "unat r = (unat w + (?m - 1)) div ?m * ?m"
    using unat_roundup [OF assms(1,2), of w] up lt by (simp add: r_def)
  have lo: "unat w \<le> unat r"
  proof -
    have "unat w + (?m - 1) < (unat w + (?m - 1)) div ?m * ?m + ?m"
      using div_mult_mod_eq [of "unat w + (?m - 1)" ?m]
        mod_less_divisor [of ?m "unat w + (?m - 1)", OF zero_less_power [OF zero_less_numeral]]
      by linarith
    then show ?thesis unfolding r by linarith
  qed
  show "2 ^ e dvd unat r" using r by simp
  show "w \<le> r" using lo by (simp add: word_le_nat_alt)
  show "r \<le> B" using up r by (simp add: word_le_nat_alt)
  have "(unat w + (?m - 1)) div ?m * ?m \<le> unat w + (?m - 1)" by simp
  moreover have "0 < ?m" by simp
  ultimately show "unat r < unat w + 2 ^ e" unfolding r by linarith
qed

lemma gen_expand_ge:
  assumes "0 < pg" "unat s * unat f + unat pg \<le> 2 ^ 32"
  shows "unat s * unat f \<le> unat (gen_expand_slot_page_size s f pg)"
    and "unat pg dvd unat (gen_expand_slot_page_size s f pg)"
proof -
  have pos: "0 < unat pg" using assms(1) by (simp add: word_gt_0 unat_gt_0)
  have sf: "unat (s * f) = unat s * unat f"
    using assms pos by (subst unat_mult_lem [THEN iffD1]) simp_all
  let ?c = "(if (s * f) mod pg \<noteq> 0 then (s * f) div pg + 1 else (s * f) div pg)"
  let ?x = "unat s * unat f"
  have md: "(s * f) mod pg \<noteq> 0 \<longleftrightarrow> ?x mod unat pg \<noteq> 0"
    by (metis sf unat_eq_0 unat_mod)
  have d: "unat ((s * f) div pg) = ?x div unat pg" by (simp add: unat_div sf)
  have dx: "?x div unat pg * unat pg + ?x mod unat pg = ?x" by simp
  have dle: "?x div unat pg \<le> ?x" by simp
  have "?x < 2 ^ 32" using assms pos by linarith
  then have c: "unat ?c = (if ?x mod unat pg \<noteq> 0 then ?x div unat pg + 1 else ?x div unat pg)"
  proof (cases "?x mod unat pg \<noteq> 0")
    case True
    moreover have "?x div unat pg \<le> ?x div unat pg * unat pg" using pos by simp
    ultimately have "?x div unat pg + 1 \<le> ?x" using dx by linarith
    then have "unat ((s * f) div pg + 1) = ?x div unat pg + 1"
      using \<open>?x < 2 ^ 32\<close> d by (subst unat_add_lem [THEN iffD1]) simp_all
    then show ?thesis using True md by simp
  qed (simp add: md d)
  have cx: "?x \<le> unat ?c * unat pg \<and> unat ?c * unat pg < ?x + unat pg"
  proof (cases "?x mod unat pg = 0")
    case True
    then have "unat ?c * unat pg = ?x" using c dx by (simp only: if_False not_True_eq_False simp_thms)
    with pos show ?thesis by linarith
  next
    case False
    then have "unat ?c * unat pg = ?x div unat pg * unat pg + unat pg" using c by (simp only: if_True simp_thms add_mult_distrib mult_1)
    with dx False mod_less_divisor [OF pos, of ?x] show ?thesis by linarith
  qed
  then have "unat ?c * unat pg < 2 ^ 32" using assms(2) by linarith
  then have g: "unat (gen_expand_slot_page_size s f pg) = unat ?c * unat pg"
    by (simp only: gen_expand_slot_page_size_def Let_def) (subst unat_mult_lem [THEN iffD1], simp_all)
  show "?x \<le> unat (gen_expand_slot_page_size s f pg)"
    unfolding g using cx by simp
  show "unat pg dvd unat (gen_expand_slot_page_size s f pg)" unfolding g by simp
qed

section \<open>One slot: pages, free objects and objects in use\<close>

lemma unat_mult_of_nat:
  fixes ss :: u32
  assumes "unat ss * i < 2 ^ 32"
  shows "unat (ss * of_nat i) = unat ss * i"
proof (cases "ss = 0")
  case False
  then have "0 < unat ss" by (simp add: unat_gt_0)
  then have "i \<le> unat ss * i" by simp
  then have "i < 2 ^ 32" using assms by linarith
  then have "unat (of_nat i :: u32) = i" by (simp add: unat_of_nat take_bit_nat_eq_self)
  with assms show ?thesis by (subst unat_mult_lem [THEN iffD1]) simp_all
qed simp

lemma split_mem_page_eq:
  assumes "p + unat esz \<le> 2 ^ 64" and "0 < ss"
  shows "split_mem_page ss p esz = map (\<lambda>i. p + unat ss * i) [0..<unat esz div unat ss]"
proof -
  have pos: "0 < unat ss" using assms(2) by (simp add: word_gt_0 unat_gt_0)
  have "(p + unat (ss * of_nat i)) mod 2 ^ 64 = p + unat ss * i"
    if "i < unat esz div unat ss" for i
  proof -
    have "unat ss * i < unat ss * (unat esz div unat ss)" using that pos by simp
    then have lt: "unat ss * i < unat esz" by (meson le_less_trans less_le_trans div_times_less_eq_dividend mult.commute times_div_less_eq_dividend)
    moreover have "unat esz < 2 ^ 32" using unsigned_less [of esz] by simp
    ultimately have "unat (ss * of_nat i) = unat ss * i" by (intro unat_mult_of_nat) simp
    with lt assms(1) show ?thesis by simp
  qed
  then show ?thesis by (simp add: split_mem_page_def unat_div)
qed


definition free_of :: "free_objs \<Rightarrow> nat \<Rightarrow> nat list" where
  "free_of free p = (case map_of free p of None \<Rightarrow> [] | Some os \<Rightarrow> os)"

definition page_ok :: "u32 \<Rightarrow> u32 \<Rightarrow> free_objs \<Rightarrow> (nat \<times> nat) set \<Rightarrow> nat \<Rightarrow> bool" where
  "page_ok ss esz free live p \<longleftrightarrow>
     p \<noteq> 0 \<and> p + unat esz \<le> 2 ^ 64 \<and> distinct (free_of free p)
     \<and> set (free_of free p) \<inter> live `` {p} = {}
     \<and> set (free_of free p) \<union> live `` {p} = set (split_mem_page ss p esz)"

definition slot_ok :: "u32 \<Rightarrow> u32 \<Rightarrow> nat set \<Rightarrow> free_objs \<Rightarrow> u32 \<Rightarrow> (nat \<times> nat) set \<Rightarrow> bool" where
  "slot_ok ss esz pages free n live \<longleftrightarrow>
     0 < ss \<and> ss \<le> esz
     \<and> distinct (map fst free)
     \<and> (\<forall>kv \<in> set free. fst kv \<in> pages \<and> snd kv \<noteq> [])
     \<and> (\<forall>p \<in> pages. page_ok ss esz free live p)
     \<and> fst ` live \<subseteq> pages
     \<and> (pages = {} \<or> n = of_nat (sum_list (map (length \<circ> snd) free)))"

lemma split_mem_page_length:
  "length (split_mem_page ss p esz) = unat (esz div ss)"
  by (simp add: split_mem_page_def Let_def)

lemma split_mem_page_distinct:
  assumes "p + unat esz \<le> 2 ^ 64" and "0 < ss"
  shows "distinct (split_mem_page ss p esz)"
proof -
  have "0 < unat ss" using assms(2) by (simp add: word_gt_0 unat_gt_0)
  then have "inj_on (\<lambda>i. p + unat ss * i) {0..<unat esz div unat ss}" by (auto intro: inj_onI)
  then show ?thesis using assms by (simp add: split_mem_page_eq distinct_map)
qed

lemma split_mem_page_nonempty:
  assumes "0 < ss" and "ss \<le> esz"
  shows "split_mem_page ss p esz \<noteq> []"
proof -
  have "0 < unat ss" "unat ss \<le> unat esz" using assms by (simp_all add: word_gt_0 unat_gt_0 word_le_nat_alt)
  then have "0 < unat esz div unat ss" by (simp add: div_greater_zero_iff)
  then show ?thesis by (simp add: split_mem_page_def Let_def unat_div)
qed

lemma split_mem_page_ge: 
  assumes "p + unat esz \<le> 2 ^ 64" and "0 < ss" and "q \<in> set (split_mem_page ss p esz)"
  shows "p \<le> q"
  using assms by (auto simp: split_mem_page_eq)

lemma slot_ok_pop:
  assumes ok: "slot_ok ss esz pages free n live" and ne: "free \<noteq> []"
  obtains free' p q where "get_free_obj_from_slot_page free = Inr (free', p, q)"
    and "q \<noteq> 0" "p \<in> pages" "(p, q) \<notin> live"
    and "slot_ok ss esz pages free' (n - 1) (insert (p, q) live)"
proof -
  obtain p os0 rest where free: "free = (p, os0) # rest" using ne by (cases free) auto
  with ok have "os0 \<noteq> []" by (auto simp: slot_ok_def)
  then obtain q os where os0: "os0 = q # os" by (cases os0) auto
  let ?free' = "if os = [] then rest else (p, os) # rest"
  have p: "p \<in> pages" and pok: "page_ok ss esz free live p"
    using ok free by (auto simp: slot_ok_def)
  have prest: "p \<notin> fst ` set rest" using ok free by (auto simp: slot_ok_def)
  then have [simp]: "map_of rest p = None" by (simp add: map_of_eq_None_iff)
  have ge: "p \<le> q" and nl: "(p, q) \<notin> live" and p0: "p \<noteq> 0"
    using pok split_mem_page_ge [of p esz ss q] ok unfolding page_ok_def slot_ok_def
    by (auto simp: free os0 free_of_def)
  have free'_of: "free_of ?free' p' = (if p' = p then os else free_of free p')" for p'
    by (auto simp: free_of_def free os0 split: option.split)
  have free_p: "free_of free p = q # os" by (simp add: free_of_def free os0)
  have "page_ok ss esz ?free' (insert (p, q) live) p'" if "p' \<in> pages" for p'
  proof (cases "p' = p")
    case True
    have "insert (p, q) live `` {p} = insert q (live `` {p})" by auto
    with True pok show ?thesis unfolding page_ok_def free'_of free_p by auto
  next
    case False
    then have "insert (p, q) live `` {p'} = live `` {p'}" by auto
    with False ok that show ?thesis unfolding slot_ok_def page_ok_def free'_of by simp
  qed
  moreover have "n - 1 = of_nat (sum_list (map (length \<circ> snd) ?free'))"
    using ok p by (auto simp: slot_ok_def free os0)
  ultimately have "slot_ok ss esz pages ?free' (n - 1) (insert (p, q) live)"
    using ok p unfolding slot_ok_def by (auto simp: free os0)
  then show ?thesis
    using that [of ?free' p q] ge nl p0 p by (auto simp: get_free_obj_from_slot_page_def free os0)
qed

lemma slot_ok_alloc:
  assumes ok: "slot_ok ss esz pages [] n live"
    and p: "p \<noteq> 0" "p \<notin> pages" "p + unat esz \<le> 2 ^ 64"
  shows "slot_ok ss esz (insert p pages) [(p, split_mem_page ss p esz)] (esz div ss) live"
proof -
  have ss: "0 < ss" "ss \<le> esz" using ok by (simp_all add: slot_ok_def)
  have none: "live `` {p} = {}" using ok p(2) by (auto simp: slot_ok_def)
  have "page_ok ss esz [(p, split_mem_page ss p esz)] live p"
    using p split_mem_page_distinct [OF p(3) ss(1)] none by (auto simp: page_ok_def free_of_def)
  moreover have "page_ok ss esz [(p, split_mem_page ss p esz)] live p'" if "p' \<in> pages" for p'
    using ok that p(2) by (auto simp: slot_ok_def page_ok_def free_of_def)
  ultimately show ?thesis
    using ok split_mem_page_nonempty [OF ss] by (auto simp: slot_ok_def split_mem_page_length)
qed


lemma um_upsert_append_sum:
  assumes "distinct (map fst free)"
  shows "sum_list (map (length \<circ> snd) (um_upsert h p (free_of free p @ [q]) free))
       = Suc (sum_list (map (length \<circ> snd) free))"
proof (cases "p \<in> set (map fst free)")
  case True
  then obtain os where "(p, os) \<in> set free" by auto
  then obtain xs ys where free: "free = xs @ (p, os) # ys" by (auto dest: split_list)
  with assms have *: "p \<notin> fst ` set xs" "p \<notin> fst ` set ys" by auto
  then have "map_of free p = Some os"
    by (simp add: free map_add_Some_iff map_of_eq_None_iff)
  moreover have "map (\<lambda>kv. if fst kv = p then (p, v) else kv) zs = zs" if "p \<notin> fst ` set zs" for zs and v :: "nat list"
    using that by (induction zs) auto
  ultimately show ?thesis using * by (simp add: um_upsert_def free_of_def free)
next
  case False
  let ?i = "h (map fst free) p"
  have "sum_list (map (length \<circ> snd) (take ?i free)) + sum_list (map (length \<circ> snd) (drop ?i free))
      = sum_list (map (length \<circ> snd) free)"
    by (metis append_take_drop_id map_append sum_list_append)
  then show ?thesis
    using False by (simp add: um_upsert_def free_of_def Let_def map_of_eq_None_iff [THEN iffD2])
qed

lemma um_erase_sum:
  "distinct (map fst free) \<Longrightarrow>
   sum_list (map (length \<circ> snd) (um_erase p free)) + length (free_of free p) = sum_list (map (length \<circ> snd) free)"
proof (induction free)
  case (Cons kv free)
  have "um_erase p free = free" if "p \<notin> fst ` set free"
    using that by (auto simp: um_erase_def filter_id_conv)
  with Cons show ?case
    by (auto simp: um_erase_def free_of_def map_of_eq_None_iff [THEN iffD2])
qed (simp add: um_erase_def free_of_def)

lemma slot_ok_give_back:
  assumes ok: "slot_ok ss esz pages free n live" and live: "(p, q) \<in> live"
  shows "slot_ok ss esz pages (um_upsert h p (free_of free p @ [q]) free) (n + 1) (live - {(p, q)})"
proof -
  let ?free = "um_upsert h p (free_of free p @ [q]) free"
  have d: "distinct (map fst free)" and p: "p \<in> pages" using ok live by (force simp: slot_ok_def)+
  have of1: "free_of ?free p' = (if p' = p then free_of free p @ [q] else free_of free p')" for p'
    by (simp add: free_of_def um_upsert_map_of [OF d])
  have "page_ok ss esz ?free (live - {(p, q)}) p'" if "p' \<in> pages" for p'
  proof (cases "p' = p")
    case True
    have "(live - {(p, q)}) `` {p} = live `` {p} - {q}" "q \<in> live `` {p}" using live by auto
    with True that ok show ?thesis unfolding slot_ok_def page_ok_def of1 by auto
  next
    case False
    then have "(live - {(p, q)}) `` {p'} = live `` {p'}" by auto
    with False that ok show ?thesis unfolding slot_ok_def page_ok_def of1 by simp
  qed
  moreover have "fst kv \<in> pages \<and> snd kv \<noteq> []" if "kv \<in> set ?free" for kv
    using that ok p um_upsert_set [of h p "free_of free p @ [q]" free] by (auto simp: slot_ok_def)
  moreover have "n + 1 = of_nat (sum_list (map (length \<circ> snd) ?free))"
    using ok p by (auto simp: slot_ok_def um_upsert_append_sum [OF d])
  ultimately show ?thesis
    using ok by (auto simp: slot_ok_def um_upsert_distinct)
qed

lemma slot_ok_full_page_unused:
  assumes ok: "slot_ok ss esz pages free n live" and p: "p \<in> pages"
    and full: "length (free_of free p) = unat (esz div ss)"
  shows "live `` {p} = {}"
proof -
  have pok: "page_ok ss esz free live p" using ok p by (simp add: slot_ok_def)
  have "card (set (free_of free p)) = card (set (split_mem_page ss p esz))"
    using full pok ok split_mem_page_distinct [of p esz ss]
    by (simp add: page_ok_def slot_ok_def distinct_card split_mem_page_length)
  then have "set (free_of free p) = set (split_mem_page ss p esz)"
    using pok by (intro card_subset_eq) (auto simp: page_ok_def)
  then show ?thesis using pok by (auto simp: page_ok_def)
qed

lemma slot_ok_drop_page:
  assumes ok: "slot_ok ss esz pages free n live" and p: "p \<in> pages"
    and full: "length (free_of free p) = unat (esz div ss)"
  shows "slot_ok ss esz (pages - {p}) (um_erase p free) (n - esz div ss) live"
proof -
  have d: "distinct (map fst free)" using ok by (simp add: slot_ok_def)
  have unused: "live `` {p} = {}" by (rule slot_ok_full_page_unused [OF ok p full])
  have of1: "free_of (um_erase p free) p' = free_of free p'" if "p' \<noteq> p" for p'
    using that by (simp add: free_of_def um_erase_map_of)
  have "page_ok ss esz (um_erase p free) live p'" if "p' \<in> pages - {p}" for p'
    using that ok of1 [of p'] by (simp add: slot_ok_def page_ok_def)
  moreover have "sum_list (map (length \<circ> snd) free)
      = sum_list (map (length \<circ> snd) (um_erase p free)) + unat (esz div ss)"
    using um_erase_sum [OF d, of p] full by simp
  then have "n - esz div ss = of_nat (sum_list (map (length \<circ> snd) (um_erase p free)))"
    using ok p by (auto simp: slot_ok_def)
  ultimately show ?thesis
    using ok unused um_erase_distinct [OF d] by (auto simp: slot_ok_def um_erase_def)
qed

lemma give_slot_obj_ok:
  assumes ok: "slot_ok ss esz pages free n live" and live: "(p, q) \<in> live"
    and give: "give_slot_obj h resident (esz div ss) q p pages free n = (pages', free', n', freed)"
  shows "slot_ok ss esz pages' free' n' (live - {(p, q)})"
    and "pages' = pages - set_option freed"
    and "set_option freed \<subseteq> pages"
proof -
  let ?free = "um_upsert h p (free_of free p @ [q]) free"
  let ?P = "\<lambda>kv. length (snd kv) = unat (esz div ss)"
  have ok1: "slot_ok ss esz pages ?free (n + 1) (live - {(p, q)})"
    by (rule slot_ok_give_back [OF ok live])
  have found: "k \<in> pages \<and> length (free_of ?free k) = unat (esz div ss)" if "find ?P ?free = Some (k, os)" for k os
  proof -
    have "(k, os) \<in> set ?free" "length os = unat (esz div ss)"
      using find_SomeD [OF that] by simp_all
    with ok1 show ?thesis by (auto simp: slot_ok_def free_of_def)
  qed
  show "slot_ok ss esz pages' free' n' (live - {(p, q)})"
    and "pages' = pages - set_option freed"
    and "set_option freed \<subseteq> pages"
    using give ok1 found slot_ok_drop_page [OF ok1]
    by (auto simp: give_slot_obj_def free_of_def [symmetric] Let_def split: if_splits option.splits)
qed

lemma take_slot_obj_ok:
  assumes ok: "slot_ok ss esz pages (objs s) (cnt s) live"
    and fresh: "ma pg esz \<notin> pages" "ma pg esz + unat esz \<le> 2 ^ 64"
  obtains (none) "take_slot_obj h ma pg ss esz pages s = Inr (pages, s, 0, 0)" "ma pg esz = 0"
  | (some) pages' s' p q where "take_slot_obj h ma pg ss esz pages s = Inr (pages', s', p, q)"
      "q \<noteq> 0" "p \<in> pages'" "(p, q) \<notin> live"
      "pages' = pages \<or> ma pg esz \<noteq> 0 \<and> pages' = insert (ma pg esz) pages"
      "slot_ok ss esz pages' (objs s') (cnt s') (insert (p, q) live)"
proof (cases "objs s = []")
  case True
  show ?thesis
  proof (cases "ma pg esz = 0")
    case True
    then have "take_slot_obj h ma pg ss esz pages s = Inr (pages, s, 0, 0)"
      using \<open>objs s = []\<close> by (simp add: take_slot_obj_def alloc_page_objs_def get_free_obj_from_slot_page_def Let_def)
    with True show ?thesis by (rule none [rotated])
  next
    case False
    let ?p = "ma pg esz"
    have ok1: "slot_ok ss esz (insert ?p pages) [(?p, split_mem_page ss ?p esz)] (esz div ss) live"
      using slot_ok_alloc [of ss esz pages "cnt s" live ?p] ok True fresh False by simp
    obtain free' p q where "get_free_obj_from_slot_page [(?p, split_mem_page ss ?p esz)] = Inr (free', p, q)"
      and "q \<noteq> 0" "p \<in> insert ?p pages" "(p, q) \<notin> live"
      and "slot_ok ss esz (insert ?p pages) free' (esz div ss - 1) (insert (p, q) live)"
      by (rule slot_ok_pop [OF ok1]) simp
    then show ?thesis using False True
      by (intro some [of "insert ?p pages" "s\<lparr>objs := free', cnt := esz div ss - 1\<rparr>" p q])
        (simp_all add: take_slot_obj_def alloc_page_objs_def um_upsert_def Let_def)
  qed
next
  case False
  obtain free' p q where "get_free_obj_from_slot_page (objs s) = Inr (free', p, q)"
    and "q \<noteq> 0" "p \<in> pages" "(p, q) \<notin> live"
    and "slot_ok ss esz pages free' (cnt s - 1) (insert (p, q) live)"
    by (rule slot_ok_pop [OF ok False])
  then show ?thesis using False
    by (intro some [of pages "s\<lparr>objs := free', cnt := cnt s - 1\<rparr>" p q])
      (simp_all add: take_slot_obj_def Let_def)
qed

section \<open>The whole pool\<close>

datatype slot_key = KTiny | KSmall u32 | KBig u32

fun key_type :: "slot_key \<Rightarrow> MemObjectType" where
  "key_type KTiny = Tiny" | "key_type (KSmall _) = Small" | "key_type (KBig _) = Big"

fun key_ssz :: "pool \<Rightarrow> slot_key \<Rightarrow> u32" where
  "key_ssz st KTiny = m_tiny_obj_threshold st"
| "key_ssz st (KSmall i) = i * m_small_obj_slot_footstep_size st"
| "key_ssz st (KBig i) = i * m_sys_page_size st"

fun key_esz :: "pool \<Rightarrow> slot_key \<Rightarrow> u32" where
  "key_esz st KTiny = m_sys_page_size st"
| "key_esz st (KSmall i) =
     gen_expand_slot_page_size (i * m_small_obj_slot_footstep_size st) (m_expand_obj_cnt_factor st) (m_sys_page_size st)"
| "key_esz st (KBig i) =
     gen_expand_slot_page_size (i * m_sys_page_size st) (m_expand_obj_cnt_factor st) (m_sys_page_size st)"

fun key_pages :: "pool \<Rightarrow> slot_key \<Rightarrow> nat set" where
  "key_pages st KTiny = m_tiny_obj_pages st"
| "key_pages st (KSmall i) = um_at (m_small_obj_pages st) i"
| "key_pages st (KBig i) = um_at (m_big_obj_pages st) i"

fun key_slot :: "pool \<Rightarrow> slot_key \<Rightarrow> SlotObjPage option" where
  "key_slot st KTiny = Some \<lparr>objs = m_free_tiny_objs st, cnt = m_free_tiny_objs_cnt st\<rparr>"
| "key_slot st (KSmall i) = m_free_small_objs st i"
| "key_slot st (KBig i) = m_free_big_objs st i"

fun key_resident :: "pool \<Rightarrow> slot_key \<Rightarrow> u32" where
  "key_resident st KTiny = m_one_slot_tiny_obj_resident_cnts st"
| "key_resident st (KSmall _) = m_one_slot_small_obj_resident_cnts st"
| "key_resident st (KBig _) = m_one_slot_big_obj_resident_cnts st"

definition set_slot :: "slot_key \<Rightarrow> nat set \<Rightarrow> SlotObjPage \<Rightarrow> pool \<Rightarrow> pool" where
  "set_slot k P s st = (case k of
     KTiny \<Rightarrow> st\<lparr>m_tiny_obj_pages := P, m_free_tiny_objs := objs s, m_free_tiny_objs_cnt := cnt s\<rparr>
   | KSmall i \<Rightarrow> st\<lparr>m_small_obj_pages := (m_small_obj_pages st)(i \<mapsto> P), m_free_small_objs := (m_free_small_objs st)(i \<mapsto> s)\<rparr>
   | KBig i \<Rightarrow> st\<lparr>m_big_obj_pages := (m_big_obj_pages st)(i \<mapsto> P), m_free_big_objs := (m_free_big_objs st)(i \<mapsto> s)\<rparr>)"

definition key_of :: "pool \<Rightarrow> MemObject \<Rightarrow> slot_key" where
  "key_of st mo = (case m_type mo of
     Tiny \<Rightarrow> KTiny
   | Small \<Rightarrow> KSmall (convert_slot_obj_size_to_slot_idx (m_slot_size mo) (m_small_obj_slot_footstep_size st))
   | _ \<Rightarrow> KBig (convert_slot_obj_size_to_slot_idx (m_slot_size mo) (m_sys_page_size st)))"

definition keys :: "pool \<Rightarrow> slot_key set" where
  "keys st = {KTiny}
     \<union> KSmall ` {i. 1 \<le> i \<and> i \<le> m_big_obj_threshold st div m_small_obj_slot_footstep_size st}
     \<union> KBig ` {i. 1 \<le> i \<and> i \<le> m_bulk_obj_threshold st div m_sys_page_size st}"

definition key_for :: "pool \<Rightarrow> u32 \<Rightarrow> slot_key" where
  "key_for st sz =
     (if sz \<le> m_tiny_obj_threshold st then KTiny
      else if m_big_obj_threshold st < sz
      then KBig (convert_slot_obj_size_to_slot_idx
             (roundup_to_the_next_highest_multiple_of_exponent2 sz (m_big_obj_slot_footstep_exponent st))
             (m_sys_page_size st))
      else KSmall (convert_slot_obj_size_to_slot_idx
             (roundup_to_the_next_highest_multiple_of_exponent2 sz (m_small_obj_slot_footstep_exponent st))
             (m_small_obj_slot_footstep_size st)))"

definition live_of :: "pool \<Rightarrow> MemObject set \<Rightarrow> slot_key \<Rightarrow> (nat \<times> nat) set" where
  "live_of st live k = (\<lambda>mo. (m_obj_page_pv mo, m_obj_pv mo)) ` {mo \<in> live. key_of st mo = k}"

definition disj_ranges :: "nat \<Rightarrow> nat \<Rightarrow> nat \<Rightarrow> nat \<Rightarrow> bool" where
  "disj_ranges a n b m \<longleftrightarrow> a + n \<le> b \<or> b + m \<le> a"

definition cfg_ok :: "pool \<Rightarrow> bool" where
  "cfg_ok st \<longleftrightarrow>
     m_small_obj_slot_footstep_size st = 32 \<and> m_small_obj_slot_footstep_exponent st = 5
     \<and> 0 < m_big_obj_slot_footstep_exponent st \<and> m_big_obj_slot_footstep_exponent st < 32
     \<and> unat (m_sys_page_size st) = 2 ^ m_big_obj_slot_footstep_exponent st
     \<and> m_expand_obj_cnt_factor st = 32
     \<and> 0 < m_tiny_obj_threshold st \<and> m_tiny_obj_threshold st \<le> m_sys_page_size st
     \<and> m_tiny_obj_threshold st \<le> m_big_obj_threshold st \<and> m_big_obj_threshold st \<le> m_bulk_obj_threshold st
     \<and> 32 dvd unat (m_big_obj_threshold st)
     \<and> unat (m_sys_page_size st) dvd unat (m_bulk_obj_threshold st)
     \<and> unat (m_bulk_obj_threshold st) * 32 + unat (m_sys_page_size st) \<le> 2 ^ 32"

definition slots_ok :: "pool \<Rightarrow> MemObject set \<Rightarrow> bool" where
  "slots_ok st live \<longleftrightarrow> (\<forall>k \<in> keys st. \<exists>s. key_slot st k = Some s
     \<and> slot_ok (key_ssz st k) (key_esz st k) (key_pages st k) (objs s) (cnt s) (live_of st live k))"

definition live_ok :: "pool \<Rightarrow> MemObject set \<Rightarrow> bool" where
  "live_ok st live \<longleftrightarrow> (\<forall>mo \<in> live. m_type mo \<noteq> Bulk \<and> key_of st mo \<in> keys st
     \<and> m_slot_size mo = key_ssz st (key_of st mo))"

definition pages_disjoint :: "pool \<Rightarrow> bool" where
  "pages_disjoint st \<longleftrightarrow> (\<forall>k1 \<in> keys st. \<forall>k2 \<in> keys st. \<forall>p1 \<in> key_pages st k1. \<forall>p2 \<in> key_pages st k2.
     (k1, p1) \<noteq> (k2, p2) \<longrightarrow> disj_ranges p1 (unat (key_esz st k1)) p2 (unat (key_esz st k2)))"

definition pool_inv :: "pool \<Rightarrow> MemObject set \<Rightarrow> bool" where
  "pool_inv st live \<longleftrightarrow> cfg_ok st \<and> slots_ok st live \<and> live_ok st live \<and> pages_disjoint st"

definition fresh_pages :: "pool \<Rightarrow> (u32 \<Rightarrow> u32 \<Rightarrow> nat) \<Rightarrow> bool" where
  "fresh_pages st ma \<longleftrightarrow> (\<forall>sz. let p = ma (m_sys_page_size st) sz in
     p = 0 \<or> p + unat sz \<le> 2 ^ 64
       \<and> (\<forall>k \<in> keys st. \<forall>p' \<in> key_pages st k. disj_ranges p (unat sz) p' (unat (key_esz st k))))"

lemma set_slot_fields [simp]:
  "m_sys_page_size (set_slot k P s st) = m_sys_page_size st"
  "m_small_obj_slot_footstep_size (set_slot k P s st) = m_small_obj_slot_footstep_size st"
  "m_small_obj_slot_footstep_exponent (set_slot k P s st) = m_small_obj_slot_footstep_exponent st"
  "m_big_obj_slot_footstep_exponent (set_slot k P s st) = m_big_obj_slot_footstep_exponent st"
  "m_one_slot_tiny_obj_resident_cnts (set_slot k P s st) = m_one_slot_tiny_obj_resident_cnts st"
  "m_one_slot_small_obj_resident_cnts (set_slot k P s st) = m_one_slot_small_obj_resident_cnts st"
  "m_one_slot_big_obj_resident_cnts (set_slot k P s st) = m_one_slot_big_obj_resident_cnts st"
  "m_tiny_obj_threshold (set_slot k P s st) = m_tiny_obj_threshold st"
  "m_big_obj_threshold (set_slot k P s st) = m_big_obj_threshold st"
  "m_bulk_obj_threshold (set_slot k P s st) = m_bulk_obj_threshold st"
  "m_expand_obj_cnt_factor (set_slot k P s st) = m_expand_obj_cnt_factor st"
  "m_free_mem_objs (set_slot k P s st) = m_free_mem_objs st"
  by (simp_all add: set_slot_def split: slot_key.split)

lemma set_slot_lookup [simp]:
  "key_pages (set_slot k P s st) k' = (if k' = k then P else key_pages st k')"
  "key_slot (set_slot k P s st) k' = (if k' = k then Some s else key_slot st k')"
  by (cases k; cases k'; simp add: set_slot_def um_at_def)+

text \<open>Two states with the same configuration cut sizes the same way.\<close>

definition same_cfg :: "pool \<Rightarrow> pool \<Rightarrow> bool" where
  "same_cfg st st' \<longleftrightarrow>
     m_sys_page_size st' = m_sys_page_size st
     \<and> m_small_obj_slot_footstep_size st' = m_small_obj_slot_footstep_size st
     \<and> m_small_obj_slot_footstep_exponent st' = m_small_obj_slot_footstep_exponent st
     \<and> m_big_obj_slot_footstep_exponent st' = m_big_obj_slot_footstep_exponent st
     \<and> m_tiny_obj_threshold st' = m_tiny_obj_threshold st
     \<and> m_big_obj_threshold st' = m_big_obj_threshold st
     \<and> m_bulk_obj_threshold st' = m_bulk_obj_threshold st
     \<and> m_expand_obj_cnt_factor st' = m_expand_obj_cnt_factor st"

lemma same_cfgD:
  assumes "same_cfg st st'"
  shows "key_ssz st' k = key_ssz st k" "key_esz st' k = key_esz st k" "keys st' = keys st"
    "key_of st' mo = key_of st mo" "cfg_ok st' = cfg_ok st" "live_of st' live k = live_of st live k"
proof -
  note eqs = assms [unfolded same_cfg_def]
  show "key_ssz st' k = key_ssz st k" "key_esz st' k = key_esz st k"
    using eqs by (cases k; simp only: key_ssz.simps key_esz.simps)+
  show "keys st' = keys st" unfolding keys_def using eqs by (simp only:)
  show of: "key_of st' mo = key_of st mo" for mo unfolding key_of_def using eqs by (simp only:)
  show "cfg_ok st' = cfg_ok st" unfolding cfg_ok_def using eqs by (simp only:)
  show "live_of st' live k = live_of st live k" unfolding live_of_def of ..
qed

lemma same_cfg_set_slot [simp]: "same_cfg st (set_slot k P s st)"
  by (simp add: same_cfg_def)

lemmas set_slot_frame [simp] = same_cfgD [OF same_cfg_set_slot]

lemma same_cfg_irrelevant [simp]:
  "same_cfg st (st\<lparr>m_free_mem_objs := ms\<rparr>)" "same_cfg st (st\<lparr>heap_freed := fs\<rparr>)"
  by (simp_all add: same_cfg_def)

lemma slots_irrelevant [simp]:
  "key_pages (st\<lparr>m_free_mem_objs := ms\<rparr>) k = key_pages st k"
  "key_slot (st\<lparr>m_free_mem_objs := ms\<rparr>) k = key_slot st k"
  "key_pages (st\<lparr>heap_freed := fs\<rparr>) k = key_pages st k"
  "key_slot (st\<lparr>heap_freed := fs\<rparr>) k = key_slot st k"
  by (cases k; simp)+

lemma pool_inv_cong:
  assumes "same_cfg st st'" "\<And>k. key_pages st' k = key_pages st k" "\<And>k. key_slot st' k = key_slot st k"
  shows "pool_inv st' live = pool_inv st live"
  using assms(2,3)
  by (simp add: pool_inv_def slots_ok_def live_ok_def pages_disjoint_def same_cfgD [OF assms(1)])

lemma pool_inv_irrelevant [simp]:
  "pool_inv (st\<lparr>m_free_mem_objs := ms\<rparr>) live = pool_inv st live"
  "pool_inv (st\<lparr>heap_freed := fs\<rparr>) live = pool_inv st live"
  by (rule pool_inv_cong; simp)+


lemma cfg_okD:
  assumes "cfg_ok st"
  shows "m_small_obj_slot_footstep_size st = 32" "m_small_obj_slot_footstep_exponent st = 5"
    "0 < m_big_obj_slot_footstep_exponent st" "m_big_obj_slot_footstep_exponent st < 32"
    "unat (m_sys_page_size st) = 2 ^ m_big_obj_slot_footstep_exponent st"
    "m_expand_obj_cnt_factor st = 32"
    "0 < m_tiny_obj_threshold st" "m_tiny_obj_threshold st \<le> m_sys_page_size st"
    "m_tiny_obj_threshold st \<le> m_big_obj_threshold st" "m_big_obj_threshold st \<le> m_bulk_obj_threshold st"
    "32 dvd unat (m_big_obj_threshold st)"
    "unat (m_sys_page_size st) dvd unat (m_bulk_obj_threshold st)"
    "unat (m_bulk_obj_threshold st) * 32 + unat (m_sys_page_size st) \<le> 2 ^ 32"
    "0 < m_sys_page_size st"
proof -
  note c = assms [unfolded cfg_ok_def]
  show "0 < m_sys_page_size st" using c by (metis word_gt_0 unat_0 power_not_zero zero_neq_numeral)
qed (use assms in \<open>unfold cfg_ok_def, blast+\<close>)

lemma word_div_mult_self:
  fixes w d :: u32
  assumes "unat d dvd unat w"
  shows "w div d * d = w"
proof -
  have "unat (w mod d) = 0" using assms by (simp only: unat_mod dvd_eq_mod_eq_0)
  then have "w mod d = 0" by (simp only: unat_eq_0)
  with word_mod_div_equality [of w d] show ?thesis by simp
qed

lemma word_div_ge_1:
  fixes w d :: u32
  assumes "0 < d" "d \<le> w"
  shows "1 \<le> w div d"
proof -
  have "0 < unat d" "unat d \<le> unat w" using assms by (simp_all add: word_gt_0 unat_gt_0 word_le_nat_alt)
  then have "0 < unat (w div d)" by (simp add: unat_div div_greater_zero_iff)
  then show ?thesis by (simp add: word_le_nat_alt)
qed

lemma word_div_le_mono: "(v :: u32) \<le> w \<Longrightarrow> v div d \<le> w div d"
  by (simp add: word_le_nat_alt unat_div div_le_mono)

lemma multiple_ge:
  fixes w :: u32
  assumes "m dvd unat w" "0 < w" shows "m \<le> unat w"
  using assms by (intro dvd_imp_le) (simp_all add: word_gt_0 unat_gt_0)

lemma key_for_cases:
  assumes cfg: "cfg_ok st" and sz: "0 < sz" "sz \<le> m_bulk_obj_threshold st"
  shows "key_for st sz \<in> keys st" "sz \<le> key_ssz st (key_for st sz)"
    and "sz > m_tiny_obj_threshold st \<Longrightarrow> key_ssz st (key_for st sz) =
      roundup_to_the_next_highest_multiple_of_exponent2 sz
        (if m_big_obj_threshold st < sz then m_big_obj_slot_footstep_exponent st
         else m_small_obj_slot_footstep_exponent st)"
proof -
  let ?e = "m_big_obj_slot_footstep_exponent st" and ?pg = "m_sys_page_size st"
  let ?rb = "roundup_to_the_next_highest_multiple_of_exponent2 sz ?e"
  let ?rs = "roundup_to_the_next_highest_multiple_of_exponent2 sz 5"
  note [simp] = convert_slot_obj_size_to_slot_idx_def
  have pg: "unat ?pg = 2 ^ ?e" "0 < ?pg" by (rule cfg_okD [OF cfg])+
  have c: "0 < ?e" "?e < 32" "2 ^ ?e dvd unat (m_bulk_obj_threshold st)"
    using cfg_okD(12) [OF cfg] by (simp_all only: cfg_okD(3,4) [OF cfg] pg(1))
  have rb: "2 ^ ?e dvd unat ?rb" "sz \<le> ?rb" "?rb \<le> m_bulk_obj_threshold st"
    by (rule roundup_bounds [OF c sz(2)])+
  have kb: "?rb div ?pg * ?pg = ?rb" using rb(1) pg(1) by (intro word_div_mult_self) simp
  have "0 < ?rb" using sz(1) rb(2) by (rule less_le_trans)
  then have "?pg \<le> ?rb" using multiple_ge [OF rb(1)] pg by (simp add: word_le_nat_alt)
  then have "1 \<le> ?rb div ?pg" "?rb div ?pg \<le> m_bulk_obj_threshold st div ?pg"
    using pg rb by (auto intro: word_div_ge_1 word_div_le_mono)
  then have kb_in: "KBig (?rb div ?pg) \<in> keys st" by (auto simp: keys_def)
  have foot: "m_small_obj_slot_footstep_size st = 32" "m_small_obj_slot_footstep_exponent st = 5"
    by (rule cfg_okD [OF cfg])+
  have small: "KSmall (?rs div 32) \<in> keys st" "sz \<le> ?rs" "?rs div 32 * 32 = ?rs"
    if "\<not> m_big_obj_threshold st < sz"
  proof -
    have rs: "2 ^ 5 dvd unat ?rs" "sz \<le> ?rs" "?rs \<le> m_big_obj_threshold st"
      using roundup_bounds [of 5 "m_big_obj_threshold st" sz] cfg_okD(11) [OF cfg] that by auto
    have "0 < ?rs" using sz(1) rs(2) by (rule less_le_trans)
    then have "32 \<le> ?rs" using multiple_ge [OF rs(1)] by (simp add: word_le_nat_alt)
    then have "1 \<le> ?rs div 32" "?rs div 32 \<le> m_big_obj_threshold st div 32"
      using rs by (auto intro: word_div_ge_1 word_div_le_mono)
    then show "KSmall (?rs div 32) \<in> keys st" by (auto simp: keys_def foot)
    show "sz \<le> ?rs" by fact
    show "?rs div 32 * 32 = ?rs" using rs(1) by (intro word_div_mult_self) simp
  qed
  show "key_for st sz \<in> keys st" using kb_in small by (auto simp: key_for_def foot keys_def)
  show "sz \<le> key_ssz st (key_for st sz)" using kb rb small by (auto simp: key_for_def foot)
  show "key_ssz st (key_for st sz) =
      roundup_to_the_next_highest_multiple_of_exponent2 sz
        (if m_big_obj_threshold st < sz then ?e else m_small_obj_slot_footstep_exponent st)"
    if "sz > m_tiny_obj_threshold st"
    using that kb small by (auto simp: key_for_def foot)
qed

lemma get_mem_object_eq:
  "get_mem_object type ss q p st =
     (\<lparr>m_type = type, m_slot_size = ss, m_obj_pv = q, m_obj_page_pv = p\<rparr>,
      st\<lparr>m_free_mem_objs := tl (m_free_mem_objs st)\<rparr>)"
  by (simp add: get_mem_object_def split: list.split)


definition mk_obj :: "slot_key \<Rightarrow> u32 \<Rightarrow> nat \<Rightarrow> nat \<Rightarrow> MemObject" where
  "mk_obj k ss p q = \<lparr>m_type = key_type k, m_slot_size = ss, m_obj_pv = q, m_obj_page_pv = p\<rparr>"

lemma mk_obj_simps [simp]:
  "m_type (mk_obj k ss p q) = key_type k" "m_slot_size (mk_obj k ss p q) = ss"
  "m_obj_pv (mk_obj k ss p q) = q" "m_obj_page_pv (mk_obj k ss p q) = p"
  by (simp_all add: mk_obj_def)

lemma Get_tiny_take:
  "Get_tiny h ma st =
     (case take_slot_obj h ma (m_sys_page_size st) (m_tiny_obj_threshold st) (m_sys_page_size st)
             (m_tiny_obj_pages st) \<lparr>objs = m_free_tiny_objs st, cnt = m_free_tiny_objs_cnt st\<rparr> of
        Inl e \<Rightarrow> Inl e
      | Inr (P, s, p, q) \<Rightarrow> Inr
          (if q = 0 then (None, set_slot KTiny P s st)
           else (Some (mk_obj KTiny (m_tiny_obj_threshold st) p q),
                 (set_slot KTiny P s st)\<lparr>m_free_mem_objs := tl (m_free_mem_objs st)\<rparr>)))"
proof (cases "m_free_tiny_objs st = [] \<and> ma (m_sys_page_size st) (m_sys_page_size st) \<noteq> 0")
  case True
  then show ?thesis
    by (simp add: Get_tiny_def take_slot_obj_def alloc_page_objs_def um_upsert_def get_mem_object_eq
        set_slot_def mk_obj_def Let_def split: sum.split)
next
  case False
  then show ?thesis
    by (auto simp add: Get_tiny_def take_slot_obj_def alloc_page_objs_def get_mem_object_eq set_slot_def
        mk_obj_def Let_def split: sum.split)
qed

lemma key_esz_eq:
  "k \<noteq> KTiny \<Longrightarrow>
   key_esz st k = gen_expand_slot_page_size (key_ssz st k) (m_expand_obj_cnt_factor st) (m_sys_page_size st)"
  by (cases k) simp_all

lemma Get_eq:
  assumes cfg: "cfg_ok st" and sz: "0 < sz" "sz \<le> m_bulk_obj_threshold st"
    and k: "k = key_for st sz" and s: "key_slot st k = Some s"
    and take: "take_slot_obj h ma (m_sys_page_size st) (key_ssz st k) (key_esz st k) (key_pages st k) s = Inr (P, s', p, q)"
  shows "Get h ma sz st = Inr
     (if q = 0 then (None, set_slot k P s' st)
      else (Some (mk_obj k (key_ssz st k) p q),
            (set_slot k P s' st)\<lparr>m_free_mem_objs := tl (m_free_mem_objs st)\<rparr>))"
proof (cases "sz \<le> m_tiny_obj_threshold st")
  case True
  then have kt: "k = KTiny" by (simp add: k key_for_def)
  have "Get h ma sz st = Get_tiny h ma st" using sz(1) True by (simp add: Get_def word_gt_0)
  then show ?thesis using take s by (simp add: kt Get_tiny_take)
next
  case False
  note ssz = key_for_cases(3) [OF cfg sz, folded k]
  have get: "Get h ma sz st = Get_slot h ma sz st" using sz False by (simp add: Get_def word_gt_0)
  have nt: "m_tiny_obj_threshold st < sz" using False by simp
  show ?thesis
  proof (cases "m_big_obj_threshold st < sz")
    case True
    define r where "r = roundup_to_the_next_highest_multiple_of_exponent2 sz (m_big_obj_slot_footstep_exponent st)"
    define i where "i = convert_slot_obj_size_to_slot_idx r (m_sys_page_size st)"
    have ki: "k = KBig i" using True nt by (simp add: k key_for_def i_def r_def)
    have ri: "key_ssz st k = r" using ssz True nt by (simp add: r_def)
    have ei: "key_esz st k = gen_expand_slot_page_size r (m_expand_obj_cnt_factor st) (m_sys_page_size st)"
      using ki ri key_esz_eq [of k st] by simp
    show ?thesis using take s True unfolding get ri ei
      by (simp add: Get_slot_def Let_def get_mem_object_eq set_slot_def mk_obj_def ki
          flip: r_def i_def)
  next
    case False
    define r where "r = roundup_to_the_next_highest_multiple_of_exponent2 sz (m_small_obj_slot_footstep_exponent st)"
    define i where "i = convert_slot_obj_size_to_slot_idx r (m_small_obj_slot_footstep_size st)"
    have ki: "k = KSmall i" using False nt by (simp add: k key_for_def i_def r_def)
    have ri: "key_ssz st k = r" using ssz False nt by (simp add: r_def)
    have ei: "key_esz st k = gen_expand_slot_page_size r (m_expand_obj_cnt_factor st) (m_sys_page_size st)"
      using ki ri key_esz_eq [of k st] by simp
    show ?thesis using take s False unfolding get ri ei
      by (simp add: Get_slot_def Let_def get_mem_object_eq set_slot_def mk_obj_def ki
          flip: r_def i_def)
  qed
qed

lemma SlotObjPage_update [simp]: "(s :: SlotObjPage)\<lparr>objs := f, cnt := n\<rparr> = \<lparr>objs = f, cnt = n\<rparr>"
  by (cases s) simp

lemma Put_eq:
  assumes "m_type mo \<noteq> Bulk" and k: "k = key_of st mo" and ss: "m_slot_size mo = key_ssz st k"
    and s: "key_slot st k = Some s"
    and give: "give_slot_obj h (key_resident st k) (key_esz st k div key_ssz st k) (m_obj_pv mo) (m_obj_page_pv mo)
        (key_pages st k) (objs s) (cnt s) = (P, f, n, freed)"
  shows "Put h (Some mo) st = Inr ((set_slot k P \<lparr>objs = f, cnt = n\<rparr> st)
     \<lparr>heap_freed := heap_freed st @ (case freed of None \<Rightarrow> [] | Some x \<Rightarrow> [x]),
      m_free_mem_objs := m_free_mem_objs st @ [mo]\<rparr>)"
proof (cases "m_type mo")
  case Tiny
  then show ?thesis using k s give ss
    by (auto simp: Put_def put_def put_tiny_def key_of_def set_slot_def Let_def)
next
  case Small
  define i where "i = convert_slot_obj_size_to_slot_idx (m_slot_size mo) (m_small_obj_slot_footstep_size st)"
  have "k = KSmall i" using Small by (simp add: k key_of_def i_def)
  then show ?thesis using Small s give ss i_def [symmetric]
    by (simp add: Put_def put_def put_small_def set_slot_def)
next
  case Big
  define i where "i = convert_slot_obj_size_to_slot_idx (m_slot_size mo) (m_sys_page_size st)"
  have "k = KBig i" using Big by (simp add: k key_of_def i_def)
  then show ?thesis using Big s give ss i_def [symmetric]
    by (simp add: Put_def put_def put_big_def set_slot_def)
qed (use assms(1) in simp)


lemma disj_ranges_sym: "disj_ranges a n b m = disj_ranges b m a n"
  by (auto simp: disj_ranges_def)

lemma pool_inv_set_slot:
  assumes inv: "pool_inv st live" and k: "k \<in> keys st"
    and slot: "slot_ok (key_ssz st k) (key_esz st k) P (objs s) (cnt s) (live_of st live' k)"
    and other: "\<And>k'. k' \<noteq> k \<Longrightarrow> live_of st live' k' = live_of st live k'"
    and live': "live_ok st live'"
    and P: "P \<subseteq> insert p (key_pages st k)"
    and fresh: "\<And>k' p'. p \<in> P \<Longrightarrow> p \<notin> key_pages st k \<Longrightarrow> k' \<in> keys st \<Longrightarrow> p' \<in> key_pages st k' \<Longrightarrow>
       disj_ranges p (unat (key_esz st k)) p' (unat (key_esz st k'))"
  shows "pool_inv (set_slot k P s st) live'"
proof -
  have "slots_ok (set_slot k P s st) live'"
    using inv slot other by (auto simp: pool_inv_def slots_ok_def)
  moreover have "live_ok (set_slot k P s st) live'" using live' by (simp add: live_ok_def)
  moreover have "pages_disjoint (set_slot k P s st)"
    unfolding pages_disjoint_def
  proof (intro ballI impI)
    fix k1 k2 p1 p2
    let ?st = "set_slot k P s st"
    assume *: "k1 \<in> keys ?st" "k2 \<in> keys ?st" "p1 \<in> key_pages ?st k1" "p2 \<in> key_pages ?st k2" "(k1, p1) \<noteq> (k2, p2)"
    have old: "disj_ranges p1 (unat (key_esz st k1)) p2 (unat (key_esz st k2))"
      if "p1 \<in> key_pages st k1" "p2 \<in> key_pages st k2"
      using inv * that by (simp add: pool_inv_def pages_disjoint_def)
    have new1: "disj_ranges p1 (unat (key_esz st k1)) p2 (unat (key_esz st k2))"
      if "p1 \<notin> key_pages st k1" "p2 \<in> key_pages st k2"
      using * that P fresh [of k2 p2] by (auto split: if_splits)
    have new2: "disj_ranges p1 (unat (key_esz st k1)) p2 (unat (key_esz st k2))"
      if "p1 \<in> key_pages st k1" "p2 \<notin> key_pages st k2"
      using * that P fresh [of k1 p1] by (auto split: if_splits simp: disj_ranges_sym [of p1])
    have "p1 \<in> key_pages st k1 \<or> p2 \<in> key_pages st k2"
      using * P by (auto split: if_splits)
    with old new1 new2 show "disj_ranges p1 (unat (key_esz ?st k1)) p2 (unat (key_esz ?st k2))" by auto
  qed
  ultimately show ?thesis using inv by (simp add: pool_inv_def)
qed

lemma key_of_mk_obj:
  assumes "cfg_ok st" "0 < sz" "sz \<le> m_bulk_obj_threshold st" "k = key_for st sz"
  shows "key_of st (mk_obj k (key_ssz st k) p q) = k"
proof -
  note ssz = key_for_cases(3) [OF assms(1-3), folded assms(4)]
  show ?thesis
  proof (cases "sz \<le> m_tiny_obj_threshold st")
    case True
    then show ?thesis by (simp add: assms(4) key_for_def key_of_def)
  next
    case False
    then show ?thesis using ssz by (auto simp: assms(4) key_for_def key_of_def)
  qed
qed

lemma live_of_insert:
  "live_of st (insert mo live) k =
     (if key_of st mo = k then insert (m_obj_page_pv mo, m_obj_pv mo) (live_of st live k) else live_of st live k)"
  by (auto simp: live_of_def)

lemma live_inj:
  assumes "live_ok st live" "a \<in> live" "b \<in> live" "key_of st a = key_of st b"
    "m_obj_page_pv a = m_obj_page_pv b" "m_obj_pv a = m_obj_pv b"
  shows "a = b"
proof -
  have "m_type a = m_type b"
    using assms by (auto simp: live_ok_def key_of_def split: MemObjectType.splits)
  moreover have "m_slot_size a = m_slot_size b" using assms by (auto simp: live_ok_def)
  ultimately show ?thesis using assms(5,6) by (intro MemObject.equality) simp_all
qed

lemma live_of_remove:
  assumes "live_ok st live" "mo \<in> live"
  shows "live_of st (live - {mo}) k =
     (if key_of st mo = k then live_of st live k - {(m_obj_page_pv mo, m_obj_pv mo)} else live_of st live k)"
  using live_inj [OF assms(1) _ assms(2)] by (auto simp: live_of_def)

lemma pool_invD:
  assumes "pool_inv st live"
  shows "cfg_ok st" "slots_ok st live" "live_ok st live" "pages_disjoint st"
  using assms by (simp_all add: pool_inv_def)

lemma pool_inv_slot:
  assumes "pool_inv st live" "k \<in> keys st"
  obtains s where "key_slot st k = Some s"
    "slot_ok (key_ssz st k) (key_esz st k) (key_pages st k) (objs s) (cnt s) (live_of st live k)"
  using assms by (auto simp: pool_inv_def slots_ok_def)

lemma fresh_pages_at:
  assumes "pool_inv st live" "fresh_pages st ma" "k \<in> keys st"
  shows "ma (m_sys_page_size st) (key_esz st k) \<notin> key_pages st k"
    and "ma (m_sys_page_size st) (key_esz st k) + unat (key_esz st k) \<le> 2 ^ 64"
    and "ma (m_sys_page_size st) (key_esz st k) \<noteq> 0 \<Longrightarrow> k' \<in> keys st \<Longrightarrow> p' \<in> key_pages st k' \<Longrightarrow>
       disj_ranges (ma (m_sys_page_size st) (key_esz st k)) (unat (key_esz st k)) p' (unat (key_esz st k'))"
proof -
  let ?p = "ma (m_sys_page_size st) (key_esz st k)"
  have f: "?p = 0 \<or> ?p + unat (key_esz st k) \<le> 2 ^ 64
      \<and> (\<forall>k' \<in> keys st. \<forall>p' \<in> key_pages st k'. disj_ranges ?p (unat (key_esz st k)) p' (unat (key_esz st k')))"
    using spec [OF assms(2) [unfolded fresh_pages_def Let_def], of "key_esz st k"] .
  obtain s where "key_slot st k = Some s"
    and ok: "slot_ok (key_ssz st k) (key_esz st k) (key_pages st k) (objs s) (cnt s) (live_of st live k)"
    by (rule pool_inv_slot [OF assms(1,3)])
  from ok have "0 < key_esz st k" unfolding slot_ok_def by (blast intro: less_le_trans)
  then have pos: "0 < unat (key_esz st k)" by (simp add: word_less_nat_alt)
  have nz: "0 \<notin> key_pages st k" using ok by (auto simp: slot_ok_def page_ok_def)
  show "?p \<notin> key_pages st k"
  proof
    assume p: "?p \<in> key_pages st k"
    with nz have "?p \<noteq> 0" by metis
    with f p assms(3) have "disj_ranges ?p (unat (key_esz st k)) ?p (unat (key_esz st k))" by blast
    with pos show False by (simp add: disj_ranges_def)
  qed
  have "unat (key_esz st k) < 2 ^ 32" using unsigned_less [of "key_esz st k"] by simp
  then have "0 + unat (key_esz st k) \<le> 2 ^ 64" by simp
  then show "?p + unat (key_esz st k) \<le> 2 ^ 64" using f by metis
  show "disj_ranges ?p (unat (key_esz st k)) p' (unat (key_esz st k'))"
    if "?p \<noteq> 0" "k' \<in> keys st" "p' \<in> key_pages st k'" using f that by blast
qed

lemma pool_inv_Get:
  assumes inv: "pool_inv st live" and sz: "0 < sz" "sz \<le> m_bulk_obj_threshold st"
    and fresh: "fresh_pages st ma"
  obtains (fail) st' where "Get h ma sz st = Inr (None, st')" "pool_inv st' live" "same_cfg st st'"
      "ma (m_sys_page_size st) (key_esz st (key_for st sz)) = 0"
  | (ok) mo st' where "Get h ma sz st = Inr (Some mo, st')" "mo \<notin> live" "sz \<le> m_slot_size mo"
      "pool_inv st' (insert mo live)" "same_cfg st st'"
proof -
  let ?k = "key_for st sz" and ?pg = "m_sys_page_size st"
  note cfg = pool_invD(1) [OF inv]
  note k = key_for_cases(1) [OF cfg sz]
  note fr = fresh_pages_at [OF inv fresh k]
  obtain s where s: "key_slot st ?k = Some s"
    and sok: "slot_ok (key_ssz st ?k) (key_esz st ?k) (key_pages st ?k) (objs s) (cnt s) (live_of st live ?k)"
    by (rule pool_inv_slot [OF inv k])
  show thesis
  proof (rule take_slot_obj_ok [OF sok, of ma ?pg h, OF fr(1,2)], goal_cases none some)
    case none
    have "pool_inv (set_slot ?k (key_pages st ?k) s st) live"
      using sok by (intro pool_inv_set_slot [OF inv k, of _ _ _ 0]) (auto simp: pool_invD [OF inv])
    then show ?thesis
      using Get_eq [OF cfg sz refl s none(1)] none(2)
      by (intro fail [of "set_slot ?k (key_pages st ?k) s st"]) simp_all
  next
    case (some pages' s' p q)
    let ?mo = "mk_obj ?k (key_ssz st ?k) p q"
    have key: "key_of st ?mo = ?k" by (rule key_of_mk_obj [OF cfg sz refl])
    have notin: "?mo \<notin> live" using some(4) key by (force simp: live_of_def)
    have "live_ok st (insert ?mo live)"
      using pool_invD(3) [OF inv] k key by (cases ?k) (auto simp: live_ok_def)
    then have "pool_inv (set_slot ?k pages' s' st) (insert ?mo live)"
      using some fr(3) key
      by (intro pool_inv_set_slot [OF inv k, of _ _ _ "ma ?pg (key_esz st ?k)"]) (auto simp: live_of_insert)
    then show ?thesis
      using Get_eq [OF cfg sz refl s some(1)] some(2) notin key_for_cases(2) [OF cfg sz]
      by (intro ok [of ?mo "(set_slot ?k pages' s' st)\<lparr>m_free_mem_objs := tl (m_free_mem_objs st)\<rparr>"])
        (simp_all add: same_cfg_def)
  qed
qed

lemma pool_inv_Put:
  assumes inv: "pool_inv st live" and mo: "mo \<in> live"
  obtains st' where "Put h (Some mo) st = Inr st'" "pool_inv st' (live - {mo})" "same_cfg st st'"
    "\<exists>fs. heap_freed st' = heap_freed st @ fs"
proof -
  let ?k = "key_of st mo"
  have m: "m_type mo \<noteq> Bulk" "?k \<in> keys st" "m_slot_size mo = key_ssz st ?k"
    using pool_invD(3) [OF inv] mo by (auto simp: live_ok_def)
  obtain s where s: "key_slot st ?k = Some s"
    and sok: "slot_ok (key_ssz st ?k) (key_esz st ?k) (key_pages st ?k) (objs s) (cnt s) (live_of st live ?k)"
    by (rule pool_inv_slot [OF inv m(2)])
  obtain P f n freed where give: "give_slot_obj h (key_resident st ?k) (key_esz st ?k div key_ssz st ?k)
      (m_obj_pv mo) (m_obj_page_pv mo) (key_pages st ?k) (objs s) (cnt s) = (P, f, n, freed)"
    by (cases rule: prod_cases4)
  have in_live: "(m_obj_page_pv mo, m_obj_pv mo) \<in> live_of st live ?k"
    using mo by (auto simp: live_of_def)
  note g = give_slot_obj_ok [OF sok in_live give]
  have "live_ok st (live - {mo})" using pool_invD(3) [OF inv] by (auto simp: live_ok_def)
  then have "pool_inv (set_slot ?k P \<lparr>objs = f, cnt = n\<rparr> st) (live - {mo})"
    using g live_of_remove [OF pool_invD(3) [OF inv] mo]
    by (intro pool_inv_set_slot [OF inv m(2), of _ _ _ 0]) auto
  then show ?thesis
    by (intro that [OF Put_eq [OF m(1) refl m(3) s give]]) (simp_all add: same_cfg_def)
qed

lemma key_sizes:
  assumes cfg: "cfg_ok st" and k: "k \<in> keys st"
  shows "0 < key_ssz st k" "key_ssz st k \<le> key_esz st k"
proof -
  let ?pg = "m_sys_page_size st" and ?f = "m_expand_obj_cnt_factor st"
  have mult: "unat (i * d) = unat i * unat d \<and> i * d \<le> B \<and> 0 < i * d"
    if "1 \<le> i" "i \<le> B div d" "0 < d" for i d B :: u32
  proof -
    have i: "0 < unat i" "unat i \<le> unat B div unat d"
      using that by (simp_all add: word_le_nat_alt unat_div)
    have d: "0 < unat d" using that(3) by (simp add: word_less_nat_alt)
    have le: "unat i * unat d \<le> unat B"
      using i(2) by (meson div_times_less_eq_dividend le_trans mult_le_mono1)
    then have "unat i * unat d < 2 ^ 32" using u32_less [of B] by (rule le_less_trans)
    then have m: "unat (i * d) = unat i * unat d" by (subst unat_mult_lem [THEN iffD1]) simp_all
    with le i d show ?thesis by (simp add: word_le_nat_alt word_less_nat_alt)
  qed
  have big: "0 < ss \<and> ss \<le> gen_expand_slot_page_size ss ?f ?pg"
    if "ss \<le> m_bulk_obj_threshold st" "0 < ss" for ss
  proof -
    have "unat ss * unat ?f + unat ?pg \<le> 2 ^ 32"
      using that cfg_okD(13) [OF cfg] by (simp add: cfg_okD(6) [OF cfg] word_le_nat_alt)
    from gen_expand_ge(1) [OF cfg_okD(14) [OF cfg] this] that show ?thesis
      by (simp add: cfg_okD(6) [OF cfg] word_le_nat_alt)
  qed
  have "0 < key_ssz st k \<and> key_ssz st k \<le> key_esz st k"
    using k
  proof (cases k)
    case KTiny
    then show ?thesis using cfg_okD(7,8) [OF cfg] by simp
  next
    case (KSmall i)
    then have "1 \<le> i" "i \<le> m_big_obj_threshold st div 32" using k by (auto simp: keys_def cfg_okD(1) [OF cfg])
    from mult [OF this] have "i * 32 \<le> m_bulk_obj_threshold st" "0 < i * 32"
      using cfg_okD(10) [OF cfg] by auto
    from big [OF this] show ?thesis by (simp add: KSmall cfg_okD(1) [OF cfg])
  next
    case (KBig i)
    then have "1 \<le> i" "i \<le> m_bulk_obj_threshold st div ?pg" using k by (auto simp: keys_def)
    from mult [OF this cfg_okD(14) [OF cfg]] big show ?thesis by (simp add: KBig)
  qed
  then show "0 < key_ssz st k" "key_ssz st k \<le> key_esz st k" by simp_all
qed

lemma key_new_MemPool:
  assumes "k \<in> keys (new_MemPool pg np g torc sorc borc tpt bipt bupt)"
  shows "key_pages (new_MemPool pg np g torc sorc borc tpt bipt bupt) k = {}"
    and "\<exists>n. key_slot (new_MemPool pg np g torc sorc borc tpt bipt bupt) k = Some \<lparr>objs = [], cnt = n\<rparr>"
  using assms by (auto simp: keys_def new_MemPool_def slot_range_def um_at_def)

lemma pool_inv_new_MemPool:
  assumes "cfg_ok (new_MemPool pg np g torc sorc borc tpt bipt bupt)"
  shows "pool_inv (new_MemPool pg np g torc sorc borc tpt bipt bupt) {}"
proof -
  let ?st = "new_MemPool pg np g torc sorc borc tpt bipt bupt"
  have "slot_ok (key_ssz ?st k) (key_esz ?st k) (key_pages ?st k) [] n {}" if "k \<in> keys ?st" for k n
    using that key_sizes [OF assms that] by (simp add: slot_ok_def key_new_MemPool(1))
  note empty = this
  have "slots_ok ?st {}"
    unfolding slots_ok_def
  proof
    fix k assume k: "k \<in> keys ?st"
    obtain n where n: "key_slot ?st k = Some \<lparr>objs = [], cnt = n\<rparr>" using key_new_MemPool(2) [OF k] by (rule exE)
    have "live_of ?st {} k = {}" by (simp add: live_of_def)
    with n empty [OF k, of n] show "\<exists>s. key_slot ?st k = Some s
       \<and> slot_ok (key_ssz ?st k) (key_esz ?st k) (key_pages ?st k) (objs s) (cnt s) (live_of ?st {} k)"
      by simp
  qed
  then show ?thesis using assms by (simp add: pool_inv_def live_ok_def pages_disjoint_def key_new_MemPool)
qed

text \<open>What a client can do with a pool that started as \<open>st0\<close>: ask for objects up to the bulk
  threshold, with an allocator that returns null or memory outside every page the pool owns, and give
  back an object it holds. The set is the objects it holds.\<close>

inductive pool_reach :: "nat placement \<Rightarrow> pool \<Rightarrow> pool \<Rightarrow> MemObject set \<Rightarrow> bool" for h st0 where
  start: "pool_reach h st0 st0 {}"
| get_some: "pool_reach h st0 st live \<Longrightarrow> 0 < sz \<Longrightarrow> sz \<le> m_bulk_obj_threshold st \<Longrightarrow> fresh_pages st ma
    \<Longrightarrow> Get h ma sz st = Inr (Some mo, st') \<Longrightarrow> pool_reach h st0 st' (insert mo live)"
| get_none: "pool_reach h st0 st live \<Longrightarrow> 0 < sz \<Longrightarrow> sz \<le> m_bulk_obj_threshold st \<Longrightarrow> fresh_pages st ma
    \<Longrightarrow> Get h ma sz st = Inr (None, st') \<Longrightarrow> pool_reach h st0 st' live"
| give: "pool_reach h st0 st live \<Longrightarrow> mo \<in> live \<Longrightarrow> Put h (Some mo) st = Inr st'
    \<Longrightarrow> pool_reach h st0 st' (live - {mo})"

lemma pool_reach_inv:
  assumes "pool_reach h st0 st live" "pool_inv st0 {}"
  shows "pool_inv st live"
  using assms
proof (induction rule: pool_reach.induct)
  case (get_some st live sz ma mo st')
  from get_some.IH [OF get_some.prems] get_some(2-4) show ?case
    by (rule pool_inv_Get [of st live sz ma h]) (use get_some(5) in auto)
next
  case (get_none st live sz ma st')
  from get_none.IH [OF get_none.prems] get_none(2-4) show ?case
    by (rule pool_inv_Get [of st live sz ma h]) (use get_none(5) in auto)
next
  case (give st live mo st')
  from give.IH [OF give.prems] give(2) show ?case
    by (rule pool_inv_Put [of st live mo h]) (use give(3) in auto)
qed

lemma live_in_page:
  assumes inv: "pool_inv st live" and mo: "mo \<in> live"
  defines "k \<equiv> key_of st mo"
  shows "k \<in> keys st" "m_obj_page_pv mo \<in> key_pages st k"
    and "\<exists>i. m_obj_pv mo = m_obj_page_pv mo + unat (m_slot_size mo) * i"
    and "m_obj_page_pv mo \<le> m_obj_pv mo"
    and "m_obj_pv mo + unat (m_slot_size mo) \<le> m_obj_page_pv mo + unat (key_esz st k)"
proof -
  show k: "k \<in> keys st" using pool_invD(3) [OF inv] mo by (simp add: live_ok_def k_def)
  have ss: "m_slot_size mo = key_ssz st k" using pool_invD(3) [OF inv] mo by (simp add: live_ok_def k_def)
  obtain s where "key_slot st k = Some s"
    and ok: "slot_ok (key_ssz st k) (key_esz st k) (key_pages st k) (objs s) (cnt s) (live_of st live k)"
    by (rule pool_inv_slot [OF inv k])
  have lv: "(m_obj_page_pv mo, m_obj_pv mo) \<in> live_of st live k" using mo by (auto simp: live_of_def k_def)
  with ok show p: "m_obj_page_pv mo \<in> key_pages st k" by (force simp: slot_ok_def)
  have pok: "page_ok (key_ssz st k) (key_esz st k) (objs s) (live_of st live k) (m_obj_page_pv mo)"
    using ok p by (simp add: slot_ok_def)
  have pos: "0 < key_ssz st k" using ok by (simp add: slot_ok_def)
  have "m_obj_pv mo \<in> set (split_mem_page (key_ssz st k) (m_obj_page_pv mo) (key_esz st k))"
    using pok lv by (auto simp: page_ok_def)
  also have "split_mem_page (key_ssz st k) (m_obj_page_pv mo) (key_esz st k)
      = map (\<lambda>i. m_obj_page_pv mo + unat (key_ssz st k) * i) [0..<unat (key_esz st k) div unat (key_ssz st k)]"
    using pok pos by (intro split_mem_page_eq) (simp_all add: page_ok_def)
  finally have "m_obj_pv mo \<in> (\<lambda>i. m_obj_page_pv mo + unat (key_ssz st k) * i)
      ` {0..<unat (key_esz st k) div unat (key_ssz st k)}" by simp
  then obtain i where i: "m_obj_pv mo = m_obj_page_pv mo + unat (key_ssz st k) * i"
    "i \<in> {0..<unat (key_esz st k) div unat (key_ssz st k)}" by (rule imageE)
  show "\<exists>i. m_obj_pv mo = m_obj_page_pv mo + unat (m_slot_size mo) * i" using i(1) ss by auto
  show "m_obj_page_pv mo \<le> m_obj_pv mo" using i(1) by simp
  have "unat (key_ssz st k) * (i + 1) \<le> unat (key_ssz st k) * (unat (key_esz st k) div unat (key_ssz st k))"
    using i(2) by (intro mult_le_mono2) simp
  also have "\<dots> \<le> unat (key_esz st k)" by simp
  finally show "m_obj_pv mo + unat (m_slot_size mo) \<le> m_obj_page_pv mo + unat (key_esz st k)"
    using i(1) ss by simp
qed

lemma live_pos:
  assumes inv: "pool_inv st live" and mo: "mo \<in> live"
  shows "0 < m_obj_pv mo"
proof -
  note page = live_in_page [OF inv mo]
  obtain s where "key_slot st (key_of st mo) = Some s"
    and ok: "slot_ok (key_ssz st (key_of st mo)) (key_esz st (key_of st mo)) (key_pages st (key_of st mo))
      (objs s) (cnt s) (live_of st live (key_of st mo))"
    by (rule pool_inv_slot [OF inv page(1)])
  from ok page(2) have "m_obj_page_pv mo \<noteq> 0" by (auto simp: slot_ok_def page_ok_def)
  with page(4) show ?thesis by linarith
qed

lemma live_disjoint:
  assumes inv: "pool_inv st live" and "a \<in> live" "b \<in> live" "a \<noteq> b"
  shows "disj_ranges (m_obj_pv a) (unat (m_slot_size a)) (m_obj_pv b) (unat (m_slot_size b))"
proof (cases "(key_of st a, m_obj_page_pv a) = (key_of st b, m_obj_page_pv b)")
  case True
  note pa = live_in_page [OF inv assms(2)] and pb = live_in_page [OF inv assms(3)]
  have ss: "m_slot_size a = m_slot_size b"
    using True pool_invD(3) [OF inv] assms by (auto simp: live_ok_def)
  obtain i j where ij: "m_obj_pv a = m_obj_page_pv a + unat (m_slot_size a) * i"
    "m_obj_pv b = m_obj_page_pv b + unat (m_slot_size b) * j"
    using pa(3) pb(3) by blast
  have "m_obj_pv a \<noteq> m_obj_pv b" using live_inj [OF pool_invD(3) [OF inv] assms(2,3)] True assms(4) by auto
  then have "i \<noteq> j" using ij True ss by auto
  then consider "i + 1 \<le> j" | "j + 1 \<le> i" by linarith
  then have "unat (m_slot_size a) * (i + 1) \<le> unat (m_slot_size a) * j
     \<or> unat (m_slot_size a) * (j + 1) \<le> unat (m_slot_size a) * i"
    by (metis mult_le_mono2)
  with ij True ss show ?thesis by (auto simp: disj_ranges_def)
next
  case False
  note pa = live_in_page [OF inv assms(2)] and pb = live_in_page [OF inv assms(3)]
  have "disj_ranges (m_obj_page_pv a) (unat (key_esz st (key_of st a))) (m_obj_page_pv b) (unat (key_esz st (key_of st b)))"
    using pool_invD(4) [OF inv] pa(1,2) pb(1,2) False by (simp add: pages_disjoint_def)
  with pa(4,5) pb(4,5) show ?thesis unfolding disj_ranges_def by linarith
qed

lemma key_pages_owned: "key_pages st k \<subseteq> delete_MemPool st"
  by (cases k) (auto simp: delete_MemPool_def um_at_def ran_def split: option.splits)

section \<open>The contract of an object pool\<close>

text \<open>What the users of a pool (buffers, messages, the log) rely on: under the invariant an
  acquisition returns, hands out an object at least as large as asked for that overlaps none of the
  objects held, and a held object can be given back.\<close>

locale object_pool =
  fixes inv :: "'s \<Rightarrow> 'o set \<Rightarrow> bool"
    and env :: "'e \<Rightarrow> u32 \<Rightarrow> 's \<Rightarrow> bool"
    and acquire :: "'e \<Rightarrow> u32 \<Rightarrow> 's \<Rightarrow> 'x + 'o option \<times> 's"
    and release :: "'o \<Rightarrow> 's \<Rightarrow> 'x + 's"
    and pos :: "'o \<Rightarrow> nat"
    and capacity :: "'o \<Rightarrow> u32"
  assumes acquire_ok: "inv st live \<Longrightarrow> env e n st \<Longrightarrow>
      \<exists>r st'. acquire e n st = Inr (r, st') \<and> inv st' (live \<union> set_option r)
        \<and> (\<forall>x \<in> set_option r. x \<notin> live \<and> n \<le> capacity x)"
    and release_ok: "inv st live \<Longrightarrow> x \<in> live \<Longrightarrow> \<exists>st'. release x st = Inr st' \<and> inv st' (live - {x})"
    and apart: "inv st live \<Longrightarrow> x \<in> live \<Longrightarrow> y \<in> live \<Longrightarrow> x \<noteq> y
      \<Longrightarrow> disj_ranges (pos x) (unat (capacity x)) (pos y) (unat (capacity y))"
begin

lemma acquire_apart:
  assumes "inv st live" "env e n st" "acquire e n st = Inr (Some x, st')"
  shows "inv st' (insert x live)" "n \<le> capacity x"
    and "y \<in> live \<Longrightarrow> disj_ranges (pos x) (unat (capacity x)) (pos y) (unat (capacity y))"
proof -
  show i: "inv st' (insert x live)" and c: "n \<le> capacity x"
    using acquire_ok [OF assms(1,2)] assms(3) by auto
  have "x \<notin> live" using acquire_ok [OF assms(1,2)] assms(3) by auto
  then show "disj_ranges (pos x) (unat (capacity x)) (pos y) (unat (capacity y))" if "y \<in> live"
    using apart [OF i, of x y] that by auto
qed

end

interpretation mem_pool: object_pool pool_inv
  "\<lambda>ma sz st. 0 < sz \<and> sz \<le> m_bulk_obj_threshold st \<and> fresh_pages st ma"
  "\<lambda>ma sz st. Get h ma sz st" "\<lambda>mo st. Put h (Some mo) st" m_obj_pv m_slot_size
proof (unfold_locales, goal_cases)
  case (1 st live ma sz)
  then have "0 < sz" "sz \<le> m_bulk_obj_threshold st" "fresh_pages st ma" by simp_all
  with 1(1) show ?case by (rule pool_inv_Get [of st live sz ma h]) auto
next
  case (2 st live mo)
  then show ?case by (rule pool_inv_Put [of st live mo h]) auto
next
  case (3 st live a b)
  then show ?case by (rule live_disjoint)
qed

section \<open>Concrete pools\<close>

text \<open>A pool with 64 byte pages and 32 byte tiny objects, after one and after two requests.\<close>

abbreviation pool64 :: pool where
  "pool64 \<equiv> new_MemPool 64 4 0 8 8 8 32 64 64"

lemma cfg_pool64: "cfg_ok pool64"
  by (simp add: cfg_ok_def new_MemPool_def log2_trunc.simps)

definition front :: "nat placement" where "front ks k = 0"

abbreviation pool64_1 :: pool where
  "pool64_1 \<equiv> pool64\<lparr>m_tiny_obj_pages := {64}, m_free_tiny_objs := [(64, [96])], m_free_tiny_objs_cnt := 1\<rparr>"
abbreviation pool64_2 :: pool where
  "pool64_2 \<equiv> pool64\<lparr>m_tiny_obj_pages := {64}, m_free_tiny_objs := [], m_free_tiny_objs_cnt := 0\<rparr>"
abbreviation tiny_at :: "nat \<Rightarrow> nat \<Rightarrow> MemObject" where
  "tiny_at p q \<equiv> \<lparr>m_type = Tiny, m_slot_size = 32, m_obj_pv = q, m_obj_page_pv = p\<rparr>"

lemma pool64_get_1: "Get front (\<lambda>_ _. 64) 10 pool64 = Inr (Some (tiny_at 64 64), pool64_1)"
  by (simp add: new_MemPool_def Get_def Get_tiny_def alloc_page_objs_def um_upsert_def split_mem_page_def
      get_free_obj_from_slot_page_def get_mem_object_def Let_def upt_numerals)

lemma pool64_get_2: "Get front (\<lambda>_ _. 0) 30 pool64_1 = Inr (Some (tiny_at 64 96), pool64_2)"
  by (simp add: new_MemPool_def Get_def Get_tiny_def get_free_obj_from_slot_page_def get_mem_object_def)

lemma pool64_fresh: "fresh_pages pool64 (\<lambda>_ _. 64)"
proof -
  have "64 + unat (sz :: u32) \<le> 2 ^ 64" for sz using u32_less [of sz] by simp
  then show ?thesis by (simp add: fresh_pages_def key_new_MemPool)
qed

lemma pool64_reach: "pool_reach front pool64 pool64_2 {tiny_at 64 64, tiny_at 64 96}"
proof -
  have "pool_reach front pool64 pool64_1 {tiny_at 64 64}"
    by (rule pool_reach.get_some [OF pool_reach.start _ _ pool64_fresh pool64_get_1])
      (simp_all add: new_MemPool_def)
  then have "pool_reach front pool64 pool64_2 (insert (tiny_at 64 96) {tiny_at 64 64})"
    by (rule pool_reach.get_some [OF _ _ _ _ pool64_get_2])
      (simp_all add: new_MemPool_def fresh_pages_def)
  then show ?thesis by (simp add: insert_commute)
qed


lemma cfg_new_MemPool0: "cfg_ok (new_MemPool0 4096 np g)"
  by (simp add: cfg_ok_def new_MemPool0_def new_MemPool_def log2_trunc.simps)

lemma ceil_mult_ge:
  assumes "0 < m"
  shows "(w :: nat) \<le> m * ((w + (m - 1)) div m)"
  using div_mult_mod_eq [of "w + (m - 1)" m] mod_less_divisor [OF assms, of "w + (m - 1)"]
  unfolding mult.commute [of m] by linarith

lemma ceil_least: 
  assumes "0 < m" "(w :: nat) \<le> m * k"
  shows "(w + (m - 1)) div m \<le> k"
proof -
  have "(w + (m - 1)) div m \<le> (m * k + (m - 1)) div m" using assms(2) by (intro div_le_mono) simp
  also have "\<dots> = k + (m - 1) div m" using assms(1) by (subst div_mult_self4) simp_all
  also have "\<dots> = k" using assms(1) by simp
  finally show ?thesis .
qed

section \<open>Properties\<close>

text \<open>C3. Memory safety of the pool: in every state a client can reach from a well configured pool
  with requests up to the bulk threshold, two different objects it holds never share a byte, whatever
  order the hash tables iterate in and whatever pages the system allocator returns.\<close>

theorem pool_objects_disjoint:
  assumes "cfg_ok (new_MemPool pg np g torc sorc borc tpt bipt bupt)"
    and "pool_reach h (new_MemPool pg np g torc sorc borc tpt bipt bupt) st live"
    and "a \<in> live" "b \<in> live" "a \<noteq> b"
  shows "disj_ranges (m_obj_pv a) (unat (m_slot_size a)) (m_obj_pv b) (unat (m_slot_size b))"
  using mem_pool.apart [OF pool_reach_inv [OF assms(2) pool_inv_new_MemPool [OF assms(1)]] assms(3-5)] .

theorem pool_objects_disjoint_witness:
  "disj_ranges 64 32 96 32 \<and> pool_reach front pool64 pool64_2 {tiny_at 64 64, tiny_at 64 96}"
  using pool_objects_disjoint [OF cfg_pool64 pool64_reach, of "tiny_at 64 64" "tiny_at 64 96"] pool64_reach
  by simp

text \<open>C7. No use after free: every object a client holds lies, as a whole, inside a page that the pool
  still owns, so the release of idle pages in \<open>put\<close> never frees memory in use.\<close>

theorem pool_live_in_owned_page:
  assumes "cfg_ok (new_MemPool pg np g torc sorc borc tpt bipt bupt)"
    and "pool_reach h (new_MemPool pg np g torc sorc borc tpt bipt bupt) st live"
    and "a \<in> live"
  shows "m_obj_page_pv a \<in> delete_MemPool st \<and> m_obj_page_pv a \<le> m_obj_pv a
    \<and> m_obj_pv a + unat (m_slot_size a) \<le> m_obj_page_pv a + unat (key_esz st (key_of st a))"
  using live_in_page [OF pool_reach_inv [OF assms(2) pool_inv_new_MemPool [OF assms(1)]] assms(3)]
    key_pages_owned by blast

theorem pool_live_in_owned_page_witness:
  "pool_reach front pool64 pool64_2 {tiny_at 64 64, tiny_at 64 96} \<and> 64 \<in> delete_MemPool pool64_2"
  using pool_live_in_owned_page [OF cfg_pool64 pool64_reach, of "tiny_at 64 96"] pool64_reach by simp

text \<open>C4. \<open>Get\<close> always returns in a reachable state: for a size from 1 to the bulk threshold it
  either hands out a new object that is at least as large as asked for, or, only when the system
  allocator returned null, no object.\<close>

theorem pool_get_total:
  assumes "cfg_ok (new_MemPool pg np g torc sorc borc tpt bipt bupt)"
    and "pool_reach h (new_MemPool pg np g torc sorc borc tpt bipt bupt) st live"
    and "0 < sz" "sz \<le> m_bulk_obj_threshold st" "fresh_pages st ma"
  shows "(\<exists>mo st'. Get h ma sz st = Inr (Some mo, st') \<and> mo \<notin> live \<and> sz \<le> m_slot_size mo)
    \<or> (\<exists>st'. Get h ma sz st = Inr (None, st') \<and> ma (m_sys_page_size st) (key_esz st (key_for st sz)) = 0)"
  by (rule pool_inv_Get [OF pool_reach_inv [OF assms(2) pool_inv_new_MemPool [OF assms(1)]] assms(3-5), of h])
    auto

theorem pool_get_total_witness:
  "\<exists>mo st'. Get front (\<lambda>_ _. 64) 10 pool64 = Inr (Some mo, st') \<and> 10 \<le> m_slot_size mo"
  using pool_get_total [OF cfg_pool64 pool_reach.start _ _ pool64_fresh, of 10 front]
  by (simp add: pool64_get_1)

text \<open>C8. \<open>Put\<close> of an object the client holds always returns, and the pool keeps the memory safety
  invariant for the objects that remain: in the new state they still never overlap.\<close>

theorem pool_put_total:
  assumes "cfg_ok (new_MemPool pg np g torc sorc borc tpt bipt bupt)"
    and "pool_reach h (new_MemPool pg np g torc sorc borc tpt bipt bupt) st live"
    and "mo \<in> live"
  shows "\<exists>st'. Put h (Some mo) st = Inr st'
    \<and> pool_reach h (new_MemPool pg np g torc sorc borc tpt bipt bupt) st' (live - {mo})
    \<and> pool_inv st' (live - {mo})"
  using mem_pool.release_ok [OF pool_reach_inv [OF assms(2) pool_inv_new_MemPool [OF assms(1)]] assms(3), of h]
    pool_reach.give [OF assms(2,3)] by blast

theorem pool_put_total_witness:
  "\<exists>st'. Put front (Some (tiny_at 64 96)) pool64_2 = Inr st' \<and> pool_inv st' {tiny_at 64 64}"
  using pool_put_total [OF cfg_pool64 pool64_reach, of "tiny_at 64 96"]
  by (auto simp: insert_Diff_if)

text \<open>The size rounding of the slots: for an exponent from 1 to 31 the result is the least multiple of
  the power of two that is not below the input, and when that multiple does not fit in 32 bits the
  result wraps to 0.\<close>

theorem roundup_least_multiple:
  assumes "0 < e" "e < 32"
  shows "unat (roundup_to_the_next_highest_multiple_of_exponent2 w e) =
    (if \<exists>k. unat w \<le> 2 ^ e * k \<and> 2 ^ e * k < 2 ^ 32 then LEAST m. 2 ^ e dvd m \<and> unat w \<le> m else 0)"
proof -
  let ?m = "2 ^ e :: nat" and ?c = "(unat w + (2 ^ e - 1)) div 2 ^ e"
  have up: "unat w \<le> ?m * ?c" by (rule ceil_mult_ge) simp
  have least: "?c \<le> k" if "unat w \<le> ?m * k" for k by (rule ceil_least [OF _ that]) simp
  have r: "unat (roundup_to_the_next_highest_multiple_of_exponent2 w e) = ?m * ?c mod 2 ^ 32"
    using unat_roundup [OF assms, of w] by (simp add: mult.commute)
  have L: "(LEAST m. ?m dvd m \<and> unat w \<le> m) = ?m * ?c"
    by (rule Least_equality) (use up least in \<open>auto elim!: dvdE\<close>)
  show ?thesis
  proof (cases "?m * ?c < 2 ^ 32")
    case True
    then show ?thesis using r L up by auto
  next
    case False
    have "?m * 2 ^ (32 - e) = (2 :: nat) ^ 32" using assms by (simp flip: power_add)
    moreover have "unat w \<le> ?m * 2 ^ (32 - e)" using u32_less [of w] calculation by linarith
    ultimately have "?m * ?c \<le> 2 ^ 32" using least [of "2 ^ (32 - e)"] by (metis mult_le_mono2)
    with False have "?m * ?c = 2 ^ 32" by linarith
    then have "?m * ?c mod 2 ^ 32 = 0" by (metis mod_self)
    moreover have "\<not> (\<exists>k. unat w \<le> ?m * k \<and> ?m * k < 2 ^ 32)"
      using least False by (meson le_less_trans mult_le_mono2)
    ultimately show ?thesis using r by (simp only: if_False)
  qed
qed

theorem roundup_least_multiple_witness:
  "unat (roundup_to_the_next_highest_multiple_of_exponent2 5000 12) = 8192
   \<and> unat (roundup_to_the_next_highest_multiple_of_exponent2 0xFFFFF001 12) = 0"
proof -
  have "(LEAST m. (2 :: nat) ^ 12 dvd m \<and> 5000 \<le> m) = 8192"
    by (rule Least_equality) (auto elim!: dvdE)
  moreover have "\<exists>k. unat (5000 :: u32) \<le> 2 ^ 12 * k \<and> 2 ^ 12 * k < (2 :: nat) ^ 32"
    by (rule exI [of _ 2]) simp
  moreover have none: "\<not> (\<exists>k. unat (0xFFFFF001 :: u32) \<le> 2 ^ 12 * k \<and> 2 ^ 12 * k < (2 :: nat) ^ 32)"
    by auto
  moreover have "(0 :: nat) < 12" "(12 :: nat) < 32" by simp_all
  note roundup_least_multiple [OF this, of "0xFFFFF001", unfolded if_not_P [OF none]]
  ultimately show ?thesis using roundup_least_multiple [of 12 5000] by simp
qed


text \<open>An error of the best fit search for bulk pages: when it takes the last free object of the slot
  found from the large end, it removes the hash table entry of the slot before that one instead, so
  the free objects of that smaller slot are lost, the emptied slot stays, and the next request of
  exactly its size reads the first page of an empty table, which is undefined.\<close>

theorem bulk_search_drops_neighbour:
  assumes "m_free_hash_bulk_objs st need = None" "m_free_bulk_objs st = [a, k]"
    and "a < need" "need < k" "k \<le> need * 2"
    and "m_free_hash_bulk_objs st k = Some \<lparr>objs = [(p, [q])], cnt = 1\<rparr>"
  shows "\<exists>st'. get_suitable_bulk_page need st = Inr (st', k, q, p)
    \<and> m_free_hash_bulk_objs st' a = None
    \<and> m_free_hash_bulk_objs st' k = Some \<lparr>objs = [], cnt = 1\<rparr>
    \<and> get_suitable_bulk_page k st' = Inl Undefined_behaviour"
proof -
  let ?st = "st\<lparr>m_free_hash_bulk_objs := (m_free_hash_bulk_objs st)(k \<mapsto> \<lparr>objs = [], cnt = 1\<rparr>, a := None),
    m_free_bulk_objs := [a]\<rparr>"
  have "a < k" "k \<noteq> a" "\<not> need < a" "\<not> k < need" using assms(3,4) by auto
  with assms show ?thesis
    by (intro exI [of _ ?st]) (simp add: get_suitable_bulk_page_def take_first_bulk_obj_def Let_def)
qed

theorem bulk_search_drops_neighbour_witness:
  "\<exists>st'. get_suitable_bulk_page 45
     (pool64\<lparr>m_free_hash_bulk_objs := [40 \<mapsto> \<lparr>objs = [(4096, [4096])], cnt = 1\<rparr>, 50 \<mapsto> \<lparr>objs = [(8192, [8192])], cnt = 1\<rparr>],
             m_free_bulk_objs := [40, 50]\<rparr>) = Inr (st', 50, 8192, 8192)
    \<and> m_free_hash_bulk_objs st' 40 = None"
  using bulk_search_drops_neighbour
    [of "pool64\<lparr>m_free_hash_bulk_objs := [40 \<mapsto> \<lparr>objs = [(4096, [4096])], cnt = 1\<rparr>, 50 \<mapsto> \<lparr>objs = [(8192, [8192])], cnt = 1\<rparr>],
             m_free_bulk_objs := [40, 50]\<rparr>" 45 40 50 8192 8192]
  by auto

text \<open>An error in the tracking of bulk pages: a request above the resident limit makes the page set
  of its slot anew although objects of the slot may be in use; giving the new object back then removes
  the slot, and giving back any older object of that slot dereferences the end iterator.\<close>

theorem bulk_oversize_put_undefined:
  fixes sz :: u32
  defines "r st \<equiv> roundup_to_the_next_highest_multiple_of_exponent2 sz (m_bulk_obj_slot_footstep_exponent st)"
  assumes "m_free_hash_bulk_objs st = Map.empty" "m_free_bulk_objs st = []"
    and sz: "m_tiny_obj_threshold st < sz" "m_bulk_obj_threshold st < sz" "0 < sz"
    and big: "m_available_reserve_bulk_obj_max_size st < r st"
    and mult: "r st div m_sys_page_size st * m_sys_page_size st = r st"
    and p: "ma (m_sys_page_size st) (r st) = p" "p \<noteq> 0" "p < 2 ^ 64"
  shows "\<exists>mo st1 st2. Get h ma sz st = Inr (Some mo, st1) \<and> Put h (Some mo) st1 = Inr st2
    \<and> (\<forall>old. m_type old = Bulk \<longrightarrow> m_slot_size old = r st \<longrightarrow> Put h (Some old) st2 = Inl Undefined_behaviour)"
proof -
  have pos: "0 < r st" using big by (rule order.strict_trans1 [OF word_zero_le])
  have one: "r st div r st = 1"
  proof -
    have "0 < unat (r st)" using pos by (simp add: word_less_nat_alt)
    then have "unat (r st div r st) = unat (1 :: u32)" by (simp add: unat_div)
    then show ?thesis by (simp only: word_unat_eq_iff)
  qed
  have nz: "r st \<noteq> 0" using pos by (simp add: word_gt_0)
  have nlt: "\<not> r st < m_available_reserve_bulk_obj_max_size st" using big by simp
  have split: "split_mem_page (r st) p (r st) = [p]" using p(3) by (simp add: split_mem_page_def one)
  have g0: "get_suitable_bulk_page n st = Inr (st, 0, 0, 0)" for n
    using assms by (simp add: get_suitable_bulk_page_def)
  define i where "i = r st div m_sys_page_size st"
  let ?mo = "\<lparr>m_type = Bulk, m_slot_size = r st, m_obj_pv = p, m_obj_page_pv = p\<rparr>"
  have "\<exists>st1. Get_bulk h ma sz st = Inr (Some ?mo, st1) \<and> m_bulk_obj_pages st1 i = Some {p}
      \<and> m_sys_page_size st1 = m_sys_page_size st
      \<and> m_available_reserve_bulk_obj_max_size st1 = m_available_reserve_bulk_obj_max_size st"
    using assms(2,3) p(1,2) nz nlt mult unfolding r_def [symmetric]
    by (simp add: Get_bulk_def Let_def g0 convert_slot_obj_size_to_slot_idx_def alloc_page_objs_def um_upsert_def
        split one get_suitable_bulk_page_def [of _ "_\<lparr>m_free_bulk_objs := _\<rparr>"] take_first_bulk_obj_def get_mem_object_eq
        flip: r_def i_def)
  moreover have "Get h ma sz st = Get_bulk h ma sz st"
    using sz by (simp add: Get_def word_gt_0 not_le [symmetric])
  ultimately obtain st1 where st1: "Get h ma sz st = Inr (Some ?mo, st1)" "m_bulk_obj_pages st1 i = Some {p}"
      "m_sys_page_size st1 = m_sys_page_size st"
      "m_available_reserve_bulk_obj_max_size st1 = m_available_reserve_bulk_obj_max_size st"
    by auto
  then show ?thesis
    using big by (auto simp: Put_def put_def put_bulk_def convert_slot_obj_size_to_slot_idx_def Let_def simp flip: i_def)
qed

theorem bulk_oversize_put_undefined_witness:
  "\<exists>mo st1 st2. Get front (\<lambda>_ _. 4096) 0x200000 (new_MemPool0 4096 4 0) = Inr (Some mo, st1)
    \<and> Put front (Some mo) st1 = Inr st2
    \<and> Put front (Some \<lparr>m_type = Bulk, m_slot_size = 0x200000, m_obj_pv = 8192, m_obj_page_pv = 8192\<rparr>) st2
        = Inl Undefined_behaviour"
proof -
  have r: "roundup_to_the_next_highest_multiple_of_exponent2 0x200000
      (m_bulk_obj_slot_footstep_exponent (new_MemPool0 4096 4 0)) = 0x200000"
    by (simp add: new_MemPool0_def new_MemPool_def log2_trunc.simps
        roundup_to_the_next_highest_multiple_of_exponent2_def)
  show ?thesis
    using bulk_oversize_put_undefined [of "new_MemPool0 4096 4 0" "0x200000" "\<lambda>_ _. 4096" 4096 front, unfolded r]
    by (force simp: new_MemPool0_def new_MemPool_def)
qed

end
