(* ===== verification/Buffers.thy ===== *)
theory Buffers
  imports MemPool Codec
begin

text \<open>
  \<open>src/src/common/buffer.h\<close> and \<open>buffer.cc\<close>, and the buffer helpers of \<open>common-utils.cc\<close> and
  \<open>src/src/net/message.cc\<close>. A buffer is four pointers into one memory block, the pool object it owns
  and a flag. Pointers are naturals, null is 0. What \<open>Refresh\<close> gives back (the pool object, or the
  array it deletes) is a value that the owner applies to the pool.
\<close>

section \<open>The buffer\<close>

record Buffer =
  m_pPos :: nat
  m_pLast :: nat
  m_pStart :: nat
  m_pEnd :: nat
  m_pMpObject :: "MemObject option"
  m_bAvailable :: bool

datatype released = Nothing_released | Object_put MemObject | Array_deleted nat

definition new_Buffer0 :: Buffer where
  "new_Buffer0 = \<lparr>m_pPos = 0, m_pLast = 0, m_pStart = 0, m_pEnd = 0, m_pMpObject = None, m_bAvailable = False\<rparr>"

definition check_available :: "Buffer \<Rightarrow> Buffer" where
  "check_available b =
     (if m_pStart b = 0 \<or> m_pEnd b = 0 \<or> m_pPos b = 0 \<or> m_pLast b = 0
      then b\<lparr>m_bAvailable := False\<rparr>
      else b\<lparr>m_bAvailable := m_pPos b \<le> m_pLast b\<rparr>)"

definition new_Buffer :: "nat \<Rightarrow> nat \<Rightarrow> nat \<Rightarrow> nat \<Rightarrow> MemObject option \<Rightarrow> Buffer" where
  "new_Buffer pos lst start endp mpo =
     check_available \<lparr>m_pPos = pos, m_pLast = lst, m_pStart = start, m_pEnd = endp,
       m_pMpObject = mpo, m_bAvailable = False\<rparr>"

definition Refresh :: "nat \<Rightarrow> nat \<Rightarrow> nat \<Rightarrow> nat \<Rightarrow> MemObject option \<Rightarrow> Buffer \<Rightarrow> Buffer \<times> released" where
  "Refresh pos lst start endp mpo b =
     (let rel = (case m_pMpObject b of
                   Some mo \<Rightarrow> Object_put mo
                 | None \<Rightarrow> if m_pStart b \<noteq> 0 then Array_deleted (m_pStart b) else Nothing_released);
          b = b\<lparr>m_pMpObject := mpo, m_pPos := pos, m_pLast := lst, m_pStart := start, m_pEnd := endp\<rparr>
      in (check_available b, rel))"

definition Buffer_Put :: "Buffer \<Rightarrow> Buffer \<times> released" where
  "Buffer_Put b = Refresh 0 0 0 0 None b"

definition Buffer_Reset :: "Buffer \<Rightarrow> Buffer \<times> released" where
  "Buffer_Reset b = Refresh 0 0 0 0 None b"

definition Valid :: "Buffer \<Rightarrow> bool" where
  "Valid b = m_bAvailable b"

text \<open>\<open>BZero\<close> on the buffer; the bytes of the block from \<open>Start\<close> to \<open>End\<close> become zero.\<close>

definition BZero :: "Buffer \<Rightarrow> Buffer" where
  "BZero b = b\<lparr>m_pPos := 0, m_pLast := 0, m_bAvailable := False\<rparr>"

definition BZero_mem :: "Buffer \<Rightarrow> bytes \<Rightarrow> bytes" where
  "BZero_mem b mem = (let n = m_pEnd b - m_pStart b + 1 in replicate n 0 @ drop n mem)"

text \<open>The comparison in \<open>MoveHeadBack\<close> is between the signed pointer difference and the unsigned
  32 bit number \<open>n - 1\<close>, which wraps for \<open>n = 0\<close>.\<close>

definition MoveHeadBack :: "u32 \<Rightarrow> Buffer \<Rightarrow> Buffer" where
  "MoveHeadBack n b =
     (if m_pPos b = 0 \<or> m_pLast b = 0 then b\<lparr>m_bAvailable := False\<rparr>
      else b\<lparr>m_bAvailable := int (m_pLast b) - int (m_pPos b) > uint (n - 1),
             m_pPos := m_pPos b + unat n\<rparr>)"

definition MoveTailBack :: "u32 \<Rightarrow> Buffer \<Rightarrow> Buffer" where
  "MoveTailBack n b =
     (if m_pLast b \<noteq> 0 then b\<lparr>m_pLast := m_pLast b + unat n\<rparr>
      else check_available (b\<lparr>m_pLast := m_pStart b + unat n - 1\<rparr>))"

text \<open>\<open>(int32_t)(q - p)\<close>.\<close>

definition ptr_diff32 :: "nat \<Rightarrow> nat \<Rightarrow> int" where
  "ptr_diff32 q p = signed_take_bit 31 (int q - int p)"

definition TotalLength :: "Buffer \<Rightarrow> int" where
  "TotalLength b = (if m_pStart b = 0 \<or> m_pEnd b = 0 then 0 else ptr_diff32 (m_pEnd b) (m_pStart b) + 1)"

definition AvailableLength :: "Buffer \<Rightarrow> int" where
  "AvailableLength b =
     (if \<not> m_bAvailable b then 0
      else if m_pLast b = 0 \<or> m_pPos b = 0 then 0
      else ptr_diff32 (m_pLast b) (m_pPos b) + 1)"

definition UnusedSize :: "Buffer \<Rightarrow> nat" where
  "UnusedSize b =
     (if \<not> m_bAvailable b then 0
      else if m_pLast b \<noteq> 0 then nat ((int (m_pEnd b) - int (m_pLast b)) mod 2 ^ 64)
      else nat ((int (m_pEnd b) - int (m_pStart b)) mod 2 ^ 64) + 1)"

definition SetPos :: "nat \<Rightarrow> Buffer \<Rightarrow> Buffer" where
  "SetPos p b = check_available (b\<lparr>m_pPos := p\<rparr>)"

definition SetLast :: "nat \<Rightarrow> Buffer \<Rightarrow> Buffer" where
  "SetLast l b = check_available (b\<lparr>m_pLast := l\<rparr>)"

definition SetStart :: "nat \<Rightarrow> Buffer \<Rightarrow> Buffer" where
  "SetStart s b = b\<lparr>m_pStart := s\<rparr>"

definition SetEnd :: "nat \<Rightarrow> Buffer \<Rightarrow> Buffer" where
  "SetEnd e b = b\<lparr>m_pEnd := e\<rparr>"

text \<open>\<open>CommonUtils::GetNewBuffer\<close>.\<close>

definition CommonUtils_GetNewBuffer :: "MemObject \<Rightarrow> u32 \<Rightarrow> Buffer" where
  "CommonUtils_GetNewBuffer mpo totalBufferSize =
     (let bufferStart = m_obj_pv mpo; bufferEnd = bufferStart + unat totalBufferSize - 1
      in new_Buffer 0 0 bufferStart bufferEnd (Some mpo))"

section \<open>The free list of buffers of \<open>Message\<close>\<close>

type_synonym free_buffers = "Buffer list"

definition GetNewBuffer0 :: "free_buffers \<Rightarrow> Buffer \<times> free_buffers" where
  "GetNewBuffer0 s_freeBuffers =
     (case s_freeBuffers of [] \<Rightarrow> (new_Buffer0, []) | buf # rest \<Rightarrow> (buf, rest))"

definition GetNewBuffer5 ::
  "nat \<Rightarrow> nat \<Rightarrow> nat \<Rightarrow> nat \<Rightarrow> MemObject option \<Rightarrow> free_buffers \<Rightarrow> Buffer \<times> released \<times> free_buffers" where
  "GetNewBuffer5 pos lst start endp mpo s =
     (let (buf, s) = GetNewBuffer0 s; (buf, rel) = Refresh pos lst start endp mpo buf in (buf, rel, s))"

definition GetNewBuffer2 :: "MemObject \<Rightarrow> u32 \<Rightarrow> free_buffers \<Rightarrow> Buffer \<times> released \<times> free_buffers" where
  "GetNewBuffer2 mpo totalBufferSize s =
     (let bufferStart = m_obj_pv mpo; bufferEnd = bufferStart + unat totalBufferSize - 1
      in GetNewBuffer5 0 0 bufferStart bufferEnd (Some mpo) s)"

definition GetNewAvailableBuffer :: "MemObject \<Rightarrow> u32 \<Rightarrow> free_buffers \<Rightarrow> Buffer \<times> released \<times> free_buffers" where
  "GetNewAvailableBuffer mpo totalBufferSize s =
     (let bufferStart = m_obj_pv mpo; bufferEnd = bufferStart + unat totalBufferSize - 1
      in GetNewBuffer5 bufferStart bufferEnd bufferStart bufferEnd (Some mpo) s)"

definition PutBuffer :: "Buffer \<Rightarrow> free_buffers \<Rightarrow> released \<times> free_buffers" where
  "PutBuffer buffer s = (let (buffer, rel) = Buffer_Put buffer in (rel, s @ [buffer]))"

section \<open>Well formed buffers\<close>

text \<open>All four pointers are set, lie in order inside one block shorter than 2 GiB, and the flag says
  whether the closed interval from \<open>Pos\<close> to \<open>Last\<close> holds at least one byte.\<close>

definition buffer_wf :: "Buffer \<Rightarrow> bool" where
  "buffer_wf b \<longleftrightarrow> 0 < m_pStart b \<and> m_pStart b \<le> m_pPos b \<and> m_pPos b \<le> m_pLast b + 1
     \<and> 0 < m_pLast b \<and> m_pLast b \<le> m_pEnd b \<and> m_pStart b \<le> m_pEnd b
     \<and> m_pEnd b < m_pStart b + 2 ^ 31 - 1 \<and> (m_bAvailable b \<longleftrightarrow> m_pPos b \<le> m_pLast b)"

lemma check_available_simps [simp]:
  "m_pPos (check_available b) = m_pPos b" "m_pLast (check_available b) = m_pLast b"
  "m_pStart (check_available b) = m_pStart b" "m_pEnd (check_available b) = m_pEnd b"
  "m_pMpObject (check_available b) = m_pMpObject b"
  "m_bAvailable (check_available b) \<longleftrightarrow>
     m_pStart b \<noteq> 0 \<and> m_pEnd b \<noteq> 0 \<and> m_pPos b \<noteq> 0 \<and> m_pLast b \<noteq> 0 \<and> m_pPos b \<le> m_pLast b"
  by (auto simp: check_available_def)

lemma ptr_diff32_small:
  assumes "p \<le> q" "q < p + 2 ^ 31"
  shows "ptr_diff32 q p = int (q - p)"
proof -
  have "signed_take_bit 31 (int (q - p)) = int (q - p)"
    using assms by (intro signed_take_bit_int_eq_self) auto
  with assms show ?thesis by (simp add: ptr_diff32_def of_nat_diff)
qed

lemma buffer_wf_lengths:
  assumes "buffer_wf b"
  shows "AvailableLength b = int (m_pLast b + 1 - m_pPos b)"
    and "TotalLength b = int (m_pEnd b - m_pStart b + 1)"
    and "m_bAvailable b \<Longrightarrow> UnusedSize b = m_pEnd b - m_pLast b"
proof -
  show "AvailableLength b = int (m_pLast b + 1 - m_pPos b)"
    using assms by (auto simp: AvailableLength_def buffer_wf_def ptr_diff32_small)
  show "TotalLength b = int (m_pEnd b - m_pStart b + 1)"
    using assms by (auto simp: TotalLength_def buffer_wf_def ptr_diff32_small)
  have "(int (m_pEnd b) - int (m_pLast b)) mod 2 ^ 64 = int (m_pEnd b) - int (m_pLast b)"
    using assms by (intro mod_pos_pos_trivial) (auto simp: buffer_wf_def)
  then show "UnusedSize b = m_pEnd b - m_pLast b" if "m_bAvailable b"
    using assms that by (auto simp: UnusedSize_def buffer_wf_def nat_diff_distrib)
qed

lemma uint_minus_1:
  assumes "0 < (n :: u32)"
  shows "uint (n - 1) = uint n - 1"
proof -
  have "n \<noteq> 0" using assms by (simp add: word_gt_0)
  moreover have "0 < unat n" using assms by (simp add: word_less_nat_alt)
  ultimately have "int (unat (n - 1)) = int (unat n) - 1" using unat_minus_one [of n] by linarith
  then show ?thesis by simp
qed

lemma MoveHeadBack_wf [inv_intros]:
  assumes "buffer_wf b" "0 < n" "uint n \<le> AvailableLength b"
  shows "buffer_wf (MoveHeadBack n b)" and "AvailableLength (MoveHeadBack n b) = AvailableLength b - uint n"
proof -
  have "int (unat n) \<le> int (m_pLast b + 1 - m_pPos b)"
    using assms(3) by (simp add: buffer_wf_lengths(1) [OF assms(1)])
  then have n: "unat n \<le> m_pLast b + 1 - m_pPos b" "0 < unat n"
    using assms(2) by (simp_all only: of_nat_le_iff word_less_nat_alt unat_0)
  have avail: "int (m_pLast b) - int (m_pPos b) > uint (n - 1) \<longleftrightarrow> m_pPos b + unat n \<le> m_pLast b"
    unfolding uint_minus_1 [OF assms(2)] using n of_nat_unat [of n, where ?'a = int] by linarith
  have b: "MoveHeadBack n b = b\<lparr>m_bAvailable := m_pPos b + unat n \<le> m_pLast b, m_pPos := m_pPos b + unat n\<rparr>"
    using assms(1) by (auto simp: MoveHeadBack_def buffer_wf_def avail)
  show wf: "buffer_wf (MoveHeadBack n b)"
    unfolding b using assms(1) n by (auto simp: buffer_wf_def)
  show "AvailableLength (MoveHeadBack n b) = AvailableLength b - uint n"
    unfolding buffer_wf_lengths(1) [OF wf] buffer_wf_lengths(1) [OF assms(1)] using n by (auto simp: b)
qed

lemma MoveTailBack_wf [inv_intros]:
  assumes "buffer_wf b" "m_bAvailable b" "unat n \<le> UnusedSize b"
  shows "buffer_wf (MoveTailBack n b)" and "AvailableLength (MoveTailBack n b) = AvailableLength b + uint n"
    and "UnusedSize (MoveTailBack n b) = UnusedSize b - unat n"
proof -
  have n: "unat n \<le> m_pEnd b - m_pLast b" using assms by (simp add: buffer_wf_lengths(3))
  have b: "MoveTailBack n b = b\<lparr>m_pLast := m_pLast b + unat n\<rparr>"
    using assms(1) by (auto simp: MoveTailBack_def buffer_wf_def)
  show wf: "buffer_wf (MoveTailBack n b)" unfolding b using assms(1,2) n by (auto simp: buffer_wf_def)
  show "AvailableLength (MoveTailBack n b) = AvailableLength b + uint n"
    unfolding buffer_wf_lengths(1) [OF wf] buffer_wf_lengths(1) [OF assms(1)]
    using assms(1,2) by (auto simp: b buffer_wf_def)
  have "m_bAvailable (MoveTailBack n b)" using assms(2) by (simp add: b)
  then show "UnusedSize (MoveTailBack n b) = UnusedSize b - unat n"
    using buffer_wf_lengths(3) [OF wf] buffer_wf_lengths(3) [OF assms(1,2)] by (simp add: b)
qed

section \<open>Recycled buffers\<close>

definition all_clean :: "free_buffers \<Rightarrow> bool" where
  "all_clean s \<longleftrightarrow> (\<forall>b \<in> set s. b = new_Buffer0)"

lemma Buffer_Put_clean: "fst (Buffer_Put b) = new_Buffer0"
  by (simp add: Buffer_Put_def Refresh_def check_available_def new_Buffer0_def Let_def)

lemma Buffer_Put_object: "m_pMpObject b = Some mo \<Longrightarrow> snd (Buffer_Put b) = Object_put mo"
  by (simp add: Buffer_Put_def Refresh_def Let_def)

lemma PutBuffer_eq:
  "PutBuffer b s = (snd (Buffer_Put b), s @ [new_Buffer0])"
  using Buffer_Put_clean [of b] by (simp add: PutBuffer_def case_prod_beta)

lemma GetNewBuffer5_clean:
  assumes "all_clean s"
  shows "GetNewBuffer5 pos lst start endp mpo s = (new_Buffer pos lst start endp mpo, Nothing_released, tl s)"
  using assms
  by (cases s) (auto simp: GetNewBuffer5_def GetNewBuffer0_def Refresh_def new_Buffer_def new_Buffer0_def
      check_available_def all_clean_def)

text \<open>What a released buffer does to the pool it came from.\<close>

definition apply_release :: "nat placement \<Rightarrow> released \<Rightarrow> pool \<Rightarrow> pool pool_result" where
  "apply_release h rel st = (case rel of Object_put mo \<Rightarrow> Put h (Some mo) st | _ \<Rightarrow> Inr st)"

lemma GetNewAvailableBuffer_wf:
  assumes "all_clean s" "0 < m_obj_pv mo" "0 < n" "unat n < 2 ^ 31"
    and b: "GetNewAvailableBuffer mo n s = (b, rel, s')"
  shows "buffer_wf b" "m_bAvailable b" "m_pMpObject b = Some mo" "m_pStart b = m_obj_pv mo"
    "m_pPos b = m_obj_pv mo" "m_pEnd b = m_obj_pv mo + unat n - 1" "m_pLast b = m_pEnd b"
    "AvailableLength b = uint n" "rel = Nothing_released" "s' = tl s"
proof -
  have n: "0 < unat n" using assms(3) by (simp add: word_less_nat_alt)
  have b: "b = new_Buffer (m_obj_pv mo) (m_obj_pv mo + unat n - 1) (m_obj_pv mo) (m_obj_pv mo + unat n - 1) (Some mo)"
    "rel = Nothing_released" "s' = tl s"
    using b by (simp_all add: GetNewAvailableBuffer_def GetNewBuffer5_clean [OF assms(1)] Let_def)
  show p: "m_pMpObject b = Some mo" "m_pStart b = m_obj_pv mo" "m_pPos b = m_obj_pv mo"
    "m_pEnd b = m_obj_pv mo + unat n - 1" "m_pLast b = m_pEnd b" "rel = Nothing_released" "s' = tl s"
    unfolding b by (simp_all add: new_Buffer_def)
  show a: "m_bAvailable b" unfolding b using n assms(2) by (simp add: new_Buffer_def)
  show wf: "buffer_wf b" using a p n assms by (auto simp: buffer_wf_def)
  have "AvailableLength b = int (unat n)" using buffer_wf_lengths(1) [OF wf] p n by simp
  then show "AvailableLength b = uint n" by simp
qed

section \<open>Properties\<close>

text \<open>The cursor of a well formed buffer: moving the head back by one to all of the available bytes
  consumes exactly that many, moving the tail back into unused space makes exactly that many
  available, and both keep the pointers in order inside the block and the flag exact.\<close>

theorem buffer_cursor:
  assumes "buffer_wf b"
  shows "(0 < n \<and> uint n \<le> AvailableLength b \<longrightarrow>
      buffer_wf (MoveHeadBack n b) \<and> AvailableLength (MoveHeadBack n b) = AvailableLength b - uint n)
    \<and> (m_bAvailable b \<and> unat k \<le> UnusedSize b \<longrightarrow>
      buffer_wf (MoveTailBack k b) \<and> AvailableLength (MoveTailBack k b) = AvailableLength b + uint k
      \<and> UnusedSize (MoveTailBack k b) = UnusedSize b - unat k)"
  using MoveHeadBack_wf [OF assms] MoveTailBack_wf [OF assms] by blast

theorem buffer_cursor_witness:
  "AvailableLength (MoveHeadBack 4 (new_Buffer 100 115 100 131 None)) = 12
   \<and> AvailableLength (MoveTailBack 16 (new_Buffer 100 115 100 131 None)) = 32"
proof -
  let ?b = "new_Buffer 100 115 100 131 None"
  have wf: "buffer_wf ?b" "m_bAvailable ?b" by (simp_all add: buffer_wf_def new_Buffer_def)
  have "AvailableLength ?b = 16" "UnusedSize ?b = 16"
    using buffer_wf_lengths [OF wf(1)] wf(2) by (simp_all add: new_Buffer_def)
  with buffer_cursor [OF wf(1), of 4 16] wf(2) show ?thesis by simp
qed

text \<open>Moving the head of a buffer back by 0 bytes is not the identity: the bound wraps to the largest
  32 bit number, so every well formed buffer becomes unavailable although no byte was consumed.\<close>

theorem buffer_move_zero:
  assumes "buffer_wf b"
  shows "\<not> m_bAvailable (MoveHeadBack 0 b) \<and> m_pPos (MoveHeadBack 0 b) = m_pPos b
    \<and> AvailableLength (MoveHeadBack 0 b) = 0"
proof -
  have "(0 - 1 :: u32) = 4294967295" by simp
  then have "uint (0 - 1 :: u32) = 4294967295" by (simp only:) simp
  then show ?thesis using assms
    by (auto simp: MoveHeadBack_def AvailableLength_def buffer_wf_def)
qed

theorem buffer_move_zero_witness:
  "m_bAvailable (new_Buffer 100 115 100 131 None)
   \<and> \<not> m_bAvailable (MoveHeadBack 0 (new_Buffer 100 115 100 131 None))"
proof -
  let ?b = "new_Buffer 100 115 100 131 None"
  have wf: "buffer_wf ?b" "m_bAvailable ?b" by (simp_all add: buffer_wf_def new_Buffer_def)
  with buffer_move_zero [OF wf(1)] show ?thesis by simp
qed

text \<open>C13. The life cycle of a message buffer: a buffer made over a pool object from the list of recycled
  buffers releases nothing it should not, gives the object back to the pool exactly once when it is put,
  and leaves the recycled list clean, so that the pool is back to the objects held before.\<close>

theorem buffer_lifecycle:
  assumes "pool_inv st live" "0 < n" "n \<le> m_bulk_obj_threshold st" "fresh_pages st ma"
    and "Get h ma n st = Inr (Some mo, st1)"
    and "all_clean s" "GetNewAvailableBuffer mo n s = (b, rel, s1)"
    and "m_pMpObject b' = m_pMpObject b" "PutBuffer b' s1 = (rel', s2)"
  shows "rel = Nothing_released \<and> rel' = Object_put mo \<and> all_clean s2
    \<and> (\<exists>st2. apply_release h rel' st1 = Inr st2 \<and> pool_inv st2 live)"
proof -
  have b: "b = new_Buffer (m_obj_pv mo) (m_obj_pv mo + unat n - 1) (m_obj_pv mo) (m_obj_pv mo + unat n - 1) (Some mo)"
    "rel = Nothing_released" "s1 = tl s"
    using assms(7) by (simp_all add: GetNewAvailableBuffer_def GetNewBuffer5_clean [OF assms(6)] Let_def)
  then have "m_pMpObject b' = Some mo" using assms(8) by (simp add: new_Buffer_def)
  then have r: "rel' = Object_put mo" "s2 = s1 @ [new_Buffer0]"
    using assms(9) by (simp_all add: PutBuffer_eq Buffer_Put_object)
  have "all_clean s2" using assms(6) by (cases s) (auto simp: r b all_clean_def)
  moreover have env: "0 < n \<and> n \<le> m_bulk_obj_threshold st \<and> fresh_pages st ma" using assms(2-4) by simp
  obtain r' st' where g: "Get h ma n st = Inr (r', st')" "pool_inv st' (live \<union> set_option r')"
    "\<forall>x\<in>set_option r'. x \<notin> live \<and> n \<le> m_slot_size x"
    using mem_pool.acquire_ok [OF assms(1) env] by blast
  then have i: "pool_inv st1 (insert mo live)" "mo \<notin> live" using assms(5) by auto
  then obtain st2 where "Put h (Some mo) st1 = Inr st2" "pool_inv st2 (insert mo live - {mo})"
    using mem_pool.release_ok [OF i(1), of mo h] by blast
  with i(2) have "\<exists>st2. apply_release h rel' st1 = Inr st2 \<and> pool_inv st2 live"
    by (simp add: apply_release_def r)
  ultimately show ?thesis using r b by simp
qed

theorem buffer_lifecycle_witness:
  "\<exists>st2. apply_release front (Object_put (tiny_at 64 64)) pool64_1 = Inr st2 \<and> pool_inv st2 {}"
proof -
  have "0 < (10 :: u32)" "10 \<le> m_bulk_obj_threshold pool64" by (simp_all add: new_MemPool_def)
  then show ?thesis
    using buffer_lifecycle [OF pool_inv_new_MemPool [OF cfg_pool64] _ _ pool64_fresh pool64_get_1,
        of "[]" "new_Buffer 64 73 64 73 (Some (tiny_at 64 64))" Nothing_released "[]"
        "new_Buffer 64 73 64 73 (Some (tiny_at 64 64))" "Object_put (tiny_at 64 64)" "[new_Buffer0]"]
    by (simp add: all_clean_def GetNewAvailableBuffer_def GetNewBuffer5_def GetNewBuffer0_def Refresh_def
        new_Buffer_def new_Buffer0_def check_available_def PutBuffer_def Buffer_Put_def)
qed

end
