(* ===== verification/Messages.thy ===== *)
theory Messages
  imports Buffers
begin

text \<open>
  \<open>src/src/net/message.h\<close>, \<open>snd-message.cc\<close> and \<open>rcv-message.cc\<close>, in the configuration of
  \<open>message.h\<close> (\<open>WITH_MSG_ID\<close> and \<open>BIG_MSG_ID\<close>): the frame of a message is a 16 byte header, the
  magic number, a 64 bit id and the payload length, followed by the payload. The memory of a buffer
  is the byte list that starts at its \<open>Start\<close> pointer. The virtual functions
  \<open>getDerivePayloadLength\<close> and \<open>encodeDerive\<close> of the concrete messages are arguments.
\<close>

section \<open>Definitions\<close>

abbreviation MESSAGE_MAGIC_NO :: u32 where "MESSAGE_MAGIC_NO \<equiv> 0xdeadbeef"
abbreviation MAX_MSG_PAYLOAD_SIZE :: u32 where "MAX_MSG_PAYLOAD_SIZE \<equiv> 0x4000000"
abbreviation MSG_HEADER_SIZE :: u32 where "MSG_HEADER_SIZE \<equiv> 16"
abbreviation INVALID_MSG_ID :: u64 where "INVALID_MSG_ID \<equiv> 0"

record Header =
  magic :: u32
  msg_id :: u64
  len :: u32

datatype message_error = Payload_empty | Payload_too_large | Pool_error pool_error | Null_object

text \<open>A write of \<open>ByteOrderUtils\<close> at \<open>b->GetPos()\<close> and a read at \<open>b->GetPos() + offset\<close>.\<close>

definition write_pos :: "(bytes \<Rightarrow> bytes) \<Rightarrow> Buffer \<Rightarrow> bytes \<Rightarrow> bytes" where
  "write_pos f b mem = at_off (m_pPos b - m_pStart b) f mem"

definition pos_mem :: "Buffer \<Rightarrow> nat \<Rightarrow> bytes \<Rightarrow> bytes" where
  "pos_mem b offset mem = drop (m_pPos b - m_pStart b + offset) mem"

definition encode_header :: "endian \<Rightarrow> Header \<Rightarrow> Buffer \<times> bytes \<Rightarrow> Buffer \<times> bytes" where
  "encode_header e h bm =
     (let (b, mem) = bm;
          mem = write_pos (\<lambda>p. WriteUInt32 e p (magic h)) b mem;
          b = MoveHeadBack 4 b;
          mem = write_pos (\<lambda>p. WriteUInt64 e p (msg_id h)) b mem;
          b = MoveHeadBack 8 b;
          mem = write_pos (\<lambda>p. WriteUInt32 e p (len h)) b mem;
          b = MoveHeadBack 4 b
      in (b, mem))"

text \<open>\<open>SndMessage::Encode\<close>: \<open>mem_of mo\<close> is the content of the object the pool hands out. The result
  is the buffer, its memory, the header, the pool and the recycled buffers.\<close>

definition Encode ::
  "endian \<Rightarrow> nat placement \<Rightarrow> (u32 \<Rightarrow> u32 \<Rightarrow> nat) \<Rightarrow> (MemObject \<Rightarrow> bytes) \<Rightarrow> u32
     \<Rightarrow> (Buffer \<times> bytes \<Rightarrow> Buffer \<times> bytes) \<Rightarrow> Header \<Rightarrow> pool \<Rightarrow> free_buffers
     \<Rightarrow> message_error + (Buffer \<times> bytes) \<times> Header \<times> pool \<times> free_buffers" where
  "Encode e h ma mem_of deriveBufferSize encodeDerive hdr st s =
     (if deriveBufferSize \<le> 0 then Inl Payload_empty
      else if deriveBufferSize > MAX_MSG_PAYLOAD_SIZE then Inl Payload_too_large
      else
        let totalBufferSize = MSG_HEADER_SIZE + deriveBufferSize;
            hdr = hdr\<lparr>magic := MESSAGE_MAGIC_NO, len := deriveBufferSize\<rparr>
        in case Get h ma totalBufferSize st of
             Inl err \<Rightarrow> Inl (Pool_error err)
           | Inr (None, st) \<Rightarrow> Inl Null_object
           | Inr (Some memPoolObject, st) \<Rightarrow>
               let (buf, rel, s) = GetNewAvailableBuffer memPoolObject totalBufferSize s
               in case apply_release h rel st of
                    Inl err \<Rightarrow> Inl (Pool_error err)
                  | Inr st \<Rightarrow>
                      let (buf, mem) = encode_header e hdr (buf, mem_of memPoolObject);
                          (buf, mem) = encodeDerive (buf, mem);
                          buf = SetPos (m_pStart buf) buf
                      in Inr ((buf, mem), hdr, st, s))"

text \<open>\<open>RcvMessage::DecodeMsgHeader\<close>; the header is an out parameter and keeps the fields read before
  a failure.\<close>

definition DecodeMsgHeader :: "endian \<Rightarrow> Buffer \<Rightarrow> bytes \<Rightarrow> Header \<Rightarrow> bool \<times> Header" where
  "DecodeMsgHeader e buffer mem header =
     (if (of_int (AvailableLength buffer) :: u32) < MSG_HEADER_SIZE then (False, header)
      else
        let offset = 0;
            header = header\<lparr>magic := ReadUInt32 e (pos_mem buffer offset mem)\<rparr>
        in if magic header \<noteq> MESSAGE_MAGIC_NO then (False, header)
           else
             let offset = offset + 4;
                 header = header\<lparr>msg_id := ReadUInt64 e (pos_mem buffer offset mem)\<rparr>;
                 offset = offset + 8;
                 header = header\<lparr>len := ReadUInt32 e (pos_mem buffer offset mem)\<rparr>;
                 rc = len header \<le> MAX_MSG_PAYLOAD_SIZE
             in (rc, header))"

text \<open>\<open>SndMessage::GetNewId\<close> on \<open>s_lastId\<close>.\<close>

definition GetNewId :: "u64 \<Rightarrow> u64 \<times> u64" where
  "GetNewId s_lastId =
     (let s_lastId = s_lastId + 1;
          s_lastId = (if s_lastId = 0xFFFFFFFFFFFFFFFF then 1 else s_lastId)
      in (s_lastId, s_lastId))"

text \<open>The constructors of \<open>SndMessage\<close>: with a new id, or with the id of the request answered.\<close>

definition new_SndMessage :: "u64 \<Rightarrow> Header \<times> u64" where
  "new_SndMessage s_lastId =
     (let (i, s_lastId) = GetNewId s_lastId in (\<lparr>magic = 0, msg_id = i, len = 0\<rparr>, s_lastId))"

definition new_SndMessage_id :: "u64 \<Rightarrow> Header" where
  "new_SndMessage_id i = \<lparr>magic = 0, msg_id = i, len = 0\<rparr>"

section \<open>The header in memory\<close>

definition header_bytes :: "Header \<Rightarrow> bytes" where
  "header_bytes h = host_bytes BigEnd 4 (magic h) @ host_bytes BigEnd 8 (msg_id h) @ host_bytes BigEnd 4 (len h)"

lemma length_header_bytes [simp]: "length (header_bytes h) = 16"
  by (simp add: header_bytes_def)

lemma put_bytes_append:
  assumes "length xs = i" "k + i + length ys \<le> length mem"
  shows "put_bytes (k + i) ys (put_bytes k xs mem) = put_bytes k (xs @ ys) mem"
  using assms by (simp add: put_bytes_def ac_simps)

lemma MoveHeadBack_simps [simp]:
  "m_pStart (MoveHeadBack n b) = m_pStart b" "m_pLast (MoveHeadBack n b) = m_pLast b"
  "m_pEnd (MoveHeadBack n b) = m_pEnd b" "m_pMpObject (MoveHeadBack n b) = m_pMpObject b"
  "m_pPos b \<noteq> 0 \<Longrightarrow> m_pLast b \<noteq> 0 \<Longrightarrow> m_pPos (MoveHeadBack n b) = m_pPos b + unat n"
  by (simp_all add: MoveHeadBack_def)

lemma encode_header_mem:
  assumes pos: "m_pPos b = m_pStart b + k" "m_pPos b \<noteq> 0" "m_pLast b \<noteq> 0" and k: "k + 16 \<le> length mem"
  shows "encode_header e h (b, mem) =
    (MoveHeadBack 4 (MoveHeadBack 8 (MoveHeadBack 4 b)), put_bytes k (header_bytes h) mem)"
proof -
  let ?m1 = "put_bytes k (host_bytes BigEnd 4 (magic h)) mem"
  let ?m2 = "put_bytes (k + 4) (host_bytes BigEnd 8 (msg_id h)) ?m1"
  have w1: "write_pos (\<lambda>p. WriteUInt32 e p (magic h)) b mem = ?m1"
    using k pos by (simp add: write_pos_def u32c.wr_at)
  have w2: "write_pos (\<lambda>p. WriteUInt64 e p (msg_id h)) (MoveHeadBack 4 b) ?m1 = ?m2"
    using k pos by (simp add: write_pos_def u64c.wr_at)
  have p3: "m_pPos (MoveHeadBack 8 (MoveHeadBack 4 b)) - m_pStart b = k + 12" using pos by simp
  have w3: "write_pos (\<lambda>p. WriteUInt32 e p (len h)) (MoveHeadBack 8 (MoveHeadBack 4 b)) ?m2 =
      put_bytes (k + 12) (host_bytes BigEnd 4 (len h)) ?m2"
    using k by (simp add: write_pos_def p3 u32c.wr_at)
  have "?m2 = put_bytes k (host_bytes BigEnd 4 (magic h) @ host_bytes BigEnd 8 (msg_id h)) mem"
    using k by (intro put_bytes_append) simp_all
  then have "put_bytes (k + 12) (host_bytes BigEnd 4 (len h)) ?m2 = put_bytes k (header_bytes h) mem"
    using k put_bytes_append [of "host_bytes BigEnd 4 (magic h) @ host_bytes BigEnd 8 (msg_id h)" 12 k] 
    by (simp add: header_bytes_def)
  then show ?thesis by (simp add: encode_header_def Let_def w1 w2 w3)
qed

text \<open>Reading back a header from any buffer whose next 16 bytes are those of the header.\<close>

lemma read_header_bytes:
  assumes "get_bytes k 16 mem = header_bytes h"
  shows "ReadUInt32 e (drop k mem) = magic h" "ReadUInt64 e (drop (k + 4) mem) = msg_id h"
    "ReadUInt32 e (drop (k + 12) mem) = len h"
proof -
  have "length (get_bytes k 16 mem) = 16" by (simp add: assms)
  then have "k + 16 \<le> length mem" by (simp add: get_bytes_def min_def split: if_splits)
  then have d: "drop k mem = header_bytes h @ drop (k + 16) mem"
    using assms append_take_drop_id [of 16 "drop k mem"] by (simp add: get_bytes_def add.commute)
  show "ReadUInt32 e (drop k mem) = magic h"
    unfolding d header_bytes_def append_assoc by (rule u32c.rd_enc)
  have "drop (k + 4) mem = host_bytes BigEnd 8 (msg_id h) @ host_bytes BigEnd 4 (len h) @ drop (k + 16) mem"
    using arg_cong [OF d, of "drop 4"] by (simp add: header_bytes_def add.commute)
  then show "ReadUInt64 e (drop (k + 4) mem) = msg_id h" by (simp add: u64c.rd_enc)
  have "drop (k + 12) mem = host_bytes BigEnd 4 (len h) @ drop (k + 16) mem"
    using arg_cong [OF d, of "drop 12"] by (simp add: header_bytes_def add.commute)
  then show "ReadUInt32 e (drop (k + 12) mem) = len h" by (simp add: u32c.rd_enc)
qed

lemma DecodeMsgHeader_eq:
  assumes "16 \<le> AvailableLength b" "AvailableLength b < 2 ^ 31"
    and "get_bytes (m_pPos b - m_pStart b) 16 mem = header_bytes h"
  shows "DecodeMsgHeader e b mem h0 =
    (if magic h = MESSAGE_MAGIC_NO then (len h \<le> MAX_MSG_PAYLOAD_SIZE, h) else (False, h0\<lparr>magic := magic h\<rparr>))"
proof -
  have "uint (of_int (AvailableLength b) :: u32) = AvailableLength b"
    using assms(1,2) by (simp add: unsigned_of_int take_bit_int_eq_self_iff)
  then have n: "\<not> (of_int (AvailableLength b) :: u32) < 16"
    using assms(1) by (simp add: word_less_def)
  show ?thesis
    using n read_header_bytes [OF assms(3)]
    by (cases h0; cases h) (simp add: DecodeMsgHeader_def pos_mem_def Let_def ac_simps)
qed

section \<open>The contract of a concrete message\<close>

text \<open>What \<open>Encode\<close> relies on from \<open>encodeDerive\<close>: it writes the payload of the announced length at
  the position it is given and nothing else, and does not move the block.\<close>

locale payload_encoder =
  fixes encodeDerive :: "Buffer \<times> bytes \<Rightarrow> Buffer \<times> bytes"
    and payload :: bytes
  assumes writes_payload:
    "m_pStart b \<le> m_pPos b \<Longrightarrow> m_pPos b \<noteq> 0 \<Longrightarrow> m_pLast b \<noteq> 0
       \<Longrightarrow> m_pPos b - m_pStart b + length payload \<le> length mem
       \<Longrightarrow> snd (encodeDerive (b, mem)) = put_bytes (m_pPos b - m_pStart b) payload mem"
    and keeps_block:
    "m_pStart (fst (encodeDerive (b, mem))) = m_pStart b"
    "m_pEnd (fst (encodeDerive (b, mem))) = m_pEnd b"
    "m_pLast (fst (encodeDerive (b, mem))) = m_pLast b"
    "m_pMpObject (fst (encodeDerive (b, mem))) = m_pMpObject b"
begin

lemma Encode_frame:
  assumes enc: "Encode e h ma mem_of n encodeDerive hdr st s = Inr ((buf, mem), hdr', st', s')"
    and inv: "pool_inv st live" and fresh: "fresh_pages st ma" and size: "16 + n \<le> m_bulk_obj_threshold st"
    and n: "unat n = length payload" and clean: "all_clean s"
    and mem_of: "\<And>mo. length (mem_of mo) = unat (m_slot_size mo)"
  shows "hdr' = hdr\<lparr>magic := MESSAGE_MAGIC_NO, len := n\<rparr> \<and> n \<le> MAX_MSG_PAYLOAD_SIZE \<and> 0 < n
    \<and> take (16 + length payload) mem = header_bytes hdr' @ payload
    \<and> buffer_wf buf \<and> m_pPos buf = m_pStart buf \<and> AvailableLength buf = 16 + uint n
    \<and> (\<exists>mo. Get h ma (16 + n) st = Inr (Some mo, st') \<and> m_pMpObject buf = Some mo
          \<and> pool_inv st' (insert mo live)) \<and> all_clean s'"
proof -
  have n0: "0 < n" "n \<le> 0x4000000" using enc by (auto simp: Encode_def word_gt_0 not_less split: if_splits)
  define t where "t = 16 + n"
  have t_unat: "unat t = 16 + unat n"
  proof -
    have "unat n \<le> 0x4000000" using n0(2) by (simp add: word_le_nat_alt)
    then show ?thesis unfolding t_def by (subst unat_add_lem [THEN iffD1]) simp_all
  qed
  then have t0: "0 < t" by (simp add: word_less_nat_alt)
  obtain mo st1 where g: "Get h ma t st = Inr (Some mo, st1)"
    using enc n0 by (auto simp: Encode_def t_def Let_def split: if_splits sum.splits option.splits prod.splits)
  have env: "0 < t \<and> t \<le> m_bulk_obj_threshold st \<and> fresh_pages st ma" using t0 size fresh by (simp add: t_def)
  note ac = mem_pool.acquire_apart [OF inv env g]
  have pos: "0 < m_obj_pv mo" by (rule live_pos [OF ac(1)]) simp
  obtain b rel s1 where b: "GetNewAvailableBuffer mo t s = (b, rel, s1)" by (cases rule: prod_cases3)
  have small: "unat t < 2 ^ 31" using t_unat n0(2) by (simp add: word_le_nat_alt)
  note bw = GetNewAvailableBuffer_wf [OF clean pos t0 small b]
  let ?h = "hdr\<lparr>magic := MESSAGE_MAGIC_NO, len := n\<rparr>" and ?m0 = "mem_of mo"
  have room: "16 + length payload \<le> length ?m0"
    using ac(2) t_unat n by (simp add: mem_of word_le_nat_alt)
  have eh: "encode_header e ?h (b, ?m0) =
      (MoveHeadBack 4 (MoveHeadBack 8 (MoveHeadBack 4 b)), put_bytes 0 (header_bytes ?h) ?m0)"
    using encode_header_mem [of b 0 ?m0 e ?h] bw pos room by (simp add: buffer_wf_def)
  let ?b1 = "MoveHeadBack 4 (MoveHeadBack 8 (MoveHeadBack 4 b))"
  have p1: "m_pPos ?b1 = m_pStart b + 16" "m_pLast b \<noteq> 0" using bw pos by (simp_all add: buffer_wf_def)
  obtain b2 m2 where d: "encodeDerive (?b1, put_bytes 0 (header_bytes ?h) ?m0) = (b2, m2)"
    by (cases rule: prod.exhaust)
  have m2: "m2 = put_bytes 0 (header_bytes ?h @ payload) ?m0"
    using writes_payload [of ?b1 "put_bytes 0 (header_bytes ?h) ?m0"] d p1 room
      put_bytes_append [of "header_bytes ?h" 16 0 payload ?m0] by simp
  have k: "m_pStart b2 = m_pStart b" "m_pEnd b2 = m_pEnd b" "m_pLast b2 = m_pLast b" "m_pMpObject b2 = m_pMpObject b"
    using keeps_block [of ?b1 "put_bytes 0 (header_bytes ?h) ?m0"] d by simp_all
  have nz: "n \<noteq> 0" "\<not> 0x4000000 < n" using n0 by (auto simp: word_gt_0)
  have res: "buf = SetPos (m_pStart b2) b2" "mem = m2" "hdr' = ?h" "st' = st1" "s' = s1"
    using enc nz g b eh d by (simp_all add: Encode_def t_def [symmetric] Let_def bw(9) apply_release_def)
  have wf: "buffer_wf buf" using bw k by (auto simp: res(1) SetPos_def buffer_wf_def)
  have "AvailableLength buf = AvailableLength b"
    unfolding buffer_wf_lengths(1) [OF wf] buffer_wf_lengths(1) [OF bw(1)] using bw k by (simp add: res(1) SetPos_def)
  also have "\<dots> = 16 + uint n"
    using bw(8) t_unat of_nat_unat [of t, where ?'a = int] of_nat_unat [of n, where ?'a = int] by simp
  finally have al: "AvailableLength buf = 16 + uint n" .
  have "take (16 + length payload) mem = header_bytes hdr' @ payload"
    by (simp add: res m2 put_bytes_def)
  moreover have "all_clean s'" using clean by (cases s) (auto simp: res bw(10) all_clean_def)
  ultimately show ?thesis
    using n0 res wf al g ac(1) bw k by (simp add: SetPos_def t_def)
qed

end

section \<open>Message ids\<close>

text \<open>The id given out by the \<open>n\<close>-th call (from 1) after the start value.\<close>

fun nth_id :: "nat \<Rightarrow> u64 \<Rightarrow> u64" where
  "nth_id 0 s = s"
| "nth_id (Suc n) s = nth_id n (snd (GetNewId s))"

lemma nth_id_Suc: "nth_id (Suc n) s = fst (GetNewId (nth_id n s))"
proof (induction n arbitrary: s)
  case 0
  then show ?case by (simp add: GetNewId_def Let_def)
next
  case (Suc n)
  have "nth_id (Suc (Suc n)) s = nth_id (Suc n) (snd (GetNewId s))" by simp
  also have "\<dots> = fst (GetNewId (nth_id n (snd (GetNewId s))))" by (rule Suc.IH)
  finally show ?case by simp
qed

lemma GetNewId_unat:
  assumes "unat s < 2 ^ 64 - 1"
  shows "unat (fst (GetNewId s)) = (if unat s = 2 ^ 64 - 2 then 1 else unat s + 1)"
proof -
  have s1: "unat (s + 1) = unat s + 1" using assms by (subst unat_add_lem [THEN iffD1]) simp_all
  have "s + 1 = 0xFFFFFFFFFFFFFFFF \<longleftrightarrow> unat (s + 1) = unat (0xFFFFFFFFFFFFFFFF :: u64)"
    by (simp only: word_unat_eq_iff)
  then have "s + 1 = 0xFFFFFFFFFFFFFFFF \<longleftrightarrow> unat s = 2 ^ 64 - 2" unfolding s1 by simp
  then show ?thesis using s1 by (simp add: GetNewId_def Let_def)
qed

lemma nth_id_unat: "unat (nth_id (Suc n) 0) = n mod (2 ^ 64 - 2) + 1"
proof (induction n)
  case 0
  then show ?case using GetNewId_unat [of 0] by (simp only: nth_id_Suc nth_id.simps(1)) simp
next
  case (Suc n)
  let ?m = "2 ^ 64 - 2 :: nat"
  have lt: "n mod ?m < ?m" by (rule mod_less_divisor) simp
  then have "unat (nth_id (Suc n) 0) < 2 ^ 64 - 1" unfolding Suc.IH by simp
  note step = GetNewId_unat [OF this, unfolded Suc.IH, folded nth_id_Suc]
  have "Suc n mod ?m = (if Suc (n mod ?m) = ?m then 0 else Suc (n mod ?m))" by (rule mod_Suc)
  with step show ?case by (auto simp: algebra_simps split: if_splits)
qed

lemma nth_id_distinct:
  assumes "i < j" "j < i + (2 ^ 64 - 2)"
  shows "nth_id (Suc i) 0 \<noteq> nth_id (Suc j) 0"
proof
  let ?m = "2 ^ 64 - 2 :: nat"
  assume "nth_id (Suc i) 0 = nth_id (Suc j) 0"
  then have "i mod ?m = j mod ?m" using nth_id_unat [of i] nth_id_unat [of j] by simp
  then have "?m dvd j - i" using assms(1) by (metis mod_eq_dvd_iff_nat less_imp_le)
  moreover have "0 < j - i" "j - i < ?m" using assms by linarith+
  ultimately show False using nat_dvd_not_less by blast
qed

section \<open>Properties\<close>

text \<open>C12. Message ids: the ids given out since the start are never the invalid id 0 and never the
  largest 64 bit number, and no two of the next \<open>2^64 - 2\<close> ids are equal; the sequence is 1, 2, ... and
  starts over at 1.\<close>

theorem message_ids:
  assumes "i < j" "j < i + (2 ^ 64 - 2)"
  shows "nth_id (Suc i) 0 \<noteq> INVALID_MSG_ID \<and> nth_id (Suc i) 0 \<noteq> 0xFFFFFFFFFFFFFFFF
    \<and> nth_id (Suc i) 0 \<noteq> nth_id (Suc j) 0 \<and> unat (nth_id (Suc i) 0) = i mod (2 ^ 64 - 2) + 1"
proof -
  have u: "unat (nth_id (Suc i) 0) = i mod (2 ^ 64 - 2) + 1" by (rule nth_id_unat)
  have "i mod (2 ^ 64 - 2) < 2 ^ 64 - 2" by (rule mod_less_divisor) simp
  then have "unat (nth_id (Suc i) 0) \<noteq> unat (0 :: u64)" "unat (nth_id (Suc i) 0) \<noteq> unat (0xFFFFFFFFFFFFFFFF :: u64)"
    unfolding u by simp_all
  then have "nth_id (Suc i) 0 \<noteq> INVALID_MSG_ID" "nth_id (Suc i) 0 \<noteq> 0xFFFFFFFFFFFFFFFF" by metis+
  with u nth_id_distinct [OF assms] show ?thesis by blast
qed

theorem message_ids_witness:
  "nth_id (Suc 0) 0 \<noteq> nth_id (Suc 4) 0 \<and> unat (nth_id (Suc 0) 0) = 1"
  using message_ids [of 0 4] by (simp del: nth_id.simps)

text \<open>What the header decoder accepts: with at least 16 readable bytes, decoding succeeds exactly for
  the right magic number and a length of at most 64 MiB, and then the header returned is the one in the
  buffer; with fewer bytes it fails and leaves the header alone.\<close>

theorem decode_header_accepts:
  assumes "0 \<le> AvailableLength b" "AvailableLength b < 2 ^ 31"
    and "16 \<le> AvailableLength b \<Longrightarrow> get_bytes (m_pPos b - m_pStart b) 16 mem = header_bytes h"
  shows "DecodeMsgHeader e b mem h0 =
    (if AvailableLength b < 16 then (False, h0)
     else if magic h \<noteq> 0xdeadbeef then (False, h0\<lparr>magic := magic h\<rparr>)
     else (unat (len h) \<le> 67108864, h))"
proof (cases "16 \<le> AvailableLength b")
  case True
  then show ?thesis using DecodeMsgHeader_eq [OF True assms(2) assms(3) [OF True]] by (simp add: word_le_nat_alt)
next
  case False
  have "uint (of_int (AvailableLength b) :: u32) = AvailableLength b"
    using assms(1,2) by (simp add: unsigned_of_int take_bit_int_eq_self_iff)
  then have "(of_int (AvailableLength b) :: u32) < 16" using False by (simp add: word_less_def)
  with False show ?thesis by (simp add: DecodeMsgHeader_def)
qed

theorem decode_header_accepts_witness:
  "DecodeMsgHeader LittleEnd (new_Buffer 100 115 100 115 None)
     (header_bytes \<lparr>magic = 0xdeadbeef, msg_id = 7, len = 3\<rparr>) \<lparr>magic = 0, msg_id = 0, len = 0\<rparr>
   = (True, \<lparr>magic = 0xdeadbeef, msg_id = 7, len = 3\<rparr>)"
proof -
  let ?b = "new_Buffer 100 115 100 115 None"
  have "buffer_wf ?b" by (simp add: buffer_wf_def new_Buffer_def)
  then have "AvailableLength ?b = 16" by (simp add: buffer_wf_lengths) (simp add: new_Buffer_def)
  moreover have "get_bytes (m_pPos ?b - m_pStart ?b) 16 (header_bytes h) = header_bytes h" for h
    by (simp add: get_bytes_def new_Buffer_def)
  ultimately show ?thesis
    using decode_header_accepts [of ?b "header_bytes \<lparr>magic = 0xdeadbeef, msg_id = 7, len = 3\<rparr>"
        "\<lparr>magic = 0xdeadbeef, msg_id = 7, len = 3\<rparr>" LittleEnd] by simp
qed

end
