(* ===== verification/WireMessages.thy ===== *)
theory WireMessages
  imports Messages
begin

text \<open>
  The concrete messages of the system: the RPC request and responses of \<open>src/src/rpc/request.cc\<close> and
  \<open>response.cc\<close>, the two handshake messages under \<open>connect-messages/\<close>, and the protobuf helpers of
  \<open>src/src/common/protobuf-utils.cc\<close>. A protobuf message is the byte string it serialises to, which
  is what \<open>ByteSize\<close> and \<open>SerializeToArray\<close> of the protobuf library see; parsing is the parameter of
  \<open>Deserialize\<close>.
\<close>

section \<open>Protobuf helpers\<close>

text \<open>\<open>memcpy\<close> to \<open>b->GetPos()\<close>.\<close>

definition memcpy_pos :: "bytes \<Rightarrow> Buffer \<Rightarrow> bytes \<Rightarrow> bytes" where
  "memcpy_pos bs b mem = write_pos (\<lambda>p. bs @ drop (length bs) p) b mem"

definition Serialize :: "bytes \<Rightarrow> Buffer \<times> bytes \<Rightarrow> Buffer \<times> bytes" where
  "Serialize from bm = (let (b, mem) = bm in (b, memcpy_pos from b mem))"

text \<open>\<open>Serialize\<close> into a new pool object that the buffer then owns; the bytes of the object are the
  memory of the buffer.\<close>

definition Serialize_new ::
  "nat placement \<Rightarrow> (u32 \<Rightarrow> u32 \<Rightarrow> nat) \<Rightarrow> (MemObject \<Rightarrow> bytes) \<Rightarrow> bytes \<Rightarrow> Buffer \<Rightarrow> pool
     \<Rightarrow> message_error + (Buffer \<times> bytes) \<times> pool" where
  "Serialize_new h ma mem_of from b st =
     (let n = of_nat (length from) :: u32
      in case Get h ma n st of
           Inl err \<Rightarrow> Inl (Pool_error err)
         | Inr (None, st) \<Rightarrow> Inl Null_object
         | Inr (Some mo, st) \<Rightarrow>
             let start = m_obj_pv mo;
                 mem = from @ drop (length from) (mem_of mo);
                 (b, rel) = Refresh start (start + unat n - 1) start (start + unat (m_slot_size mo) - 1) (Some mo) b
             in (case apply_release h rel st of Inl err \<Rightarrow> Inl (Pool_error err) | Inr st \<Rightarrow> Inr ((b, mem), st)))"

definition Deserialize :: "(bytes \<Rightarrow> 'm option) \<Rightarrow> Buffer \<times> bytes \<Rightarrow> 'm option" where
  "Deserialize parse bm =
     (let (b, mem) = bm in parse (take (nat (AvailableLength b)) (pos_mem b 0 mem)))"

section \<open>RPC messages\<close>

datatype RpcCode = OK | ErrorNoHandler | ErrorMsg | ErrorInternal | ErrorNoRegisteredRpc | ErrorUnknown

definition rpc_code_no :: "RpcCode \<Rightarrow> u16" where
  "rpc_code_no c = (case c of OK \<Rightarrow> 0 | ErrorNoHandler \<Rightarrow> 1 | ErrorMsg \<Rightarrow> 2 | ErrorInternal \<Rightarrow> 3
     | ErrorNoRegisteredRpc \<Rightarrow> 4 | ErrorUnknown \<Rightarrow> 5)"

definition RpcRequest_len :: "bytes option \<Rightarrow> u32" where
  "RpcRequest_len msg = (case msg of Some pb \<Rightarrow> 2 + of_nat (length pb) | None \<Rightarrow> 2)"

definition RpcRequest_encode :: "endian \<Rightarrow> u16 \<Rightarrow> bytes option \<Rightarrow> Buffer \<times> bytes \<Rightarrow> Buffer \<times> bytes" where
  "RpcRequest_encode e handlerId msg bm =
     (let (b, mem) = bm;
          mem = write_pos (\<lambda>p. WriteUInt16 e p handlerId) b mem;
          b = MoveHeadBack 2 b
      in case msg of Some pb \<Rightarrow> Serialize pb (b, mem) | None \<Rightarrow> (b, mem))"

definition RpcResponseBase_len :: u32 where
  "RpcResponseBase_len = 2 + 2"

definition RpcResponseBase_encode :: "endian \<Rightarrow> RpcCode \<Rightarrow> u16 \<Rightarrow> Buffer \<times> bytes \<Rightarrow> Buffer \<times> bytes" where
  "RpcResponseBase_encode e code ht bm =
     (let (b, mem) = bm;
          mem = write_pos (\<lambda>p. WriteUInt16 e p (rpc_code_no code)) b mem;
          b = MoveHeadBack 2 b;
          mem = write_pos (\<lambda>p. WriteUInt16 e p ht) b mem
      in (b, mem))"

definition RpcResponse_len :: "bytes option \<Rightarrow> u32" where
  "RpcResponse_len msg =
     (let baseSize = RpcResponseBase_len
      in case msg of Some pb \<Rightarrow> baseSize + of_nat (length pb) | None \<Rightarrow> baseSize)"

definition RpcResponse_encode :: "endian \<Rightarrow> u16 \<Rightarrow> bytes option \<Rightarrow> Buffer \<times> bytes \<Rightarrow> Buffer \<times> bytes" where
  "RpcResponse_encode e ht msg bm =
     (let (b, mem) = bm;
          mem = write_pos (\<lambda>p. WriteUInt16 e p (rpc_code_no OK)) b mem;
          b = MoveHeadBack 2 b;
          mem = write_pos (\<lambda>p. WriteUInt16 e p ht) b mem;
          b = MoveHeadBack 2 b
      in case msg of Some pb \<Rightarrow> Serialize pb (b, mem) | None \<Rightarrow> (b, mem))"

section \<open>Handshake messages\<close>

definition ConnectRequest_len :: u32 where
  "ConnectRequest_len = 2"

definition ConnectRequest_encode :: "endian \<Rightarrow> u16 \<Rightarrow> Buffer \<times> bytes \<Rightarrow> Buffer \<times> bytes" where
  "ConnectRequest_encode e logicPort bm =
     (let (b, mem) = bm in (b, write_pos (\<lambda>p. WriteUInt16 e p logicPort) b mem))"

datatype ConnectStatus = Status_OK | Status_ERROR

definition status_no :: "ConnectStatus \<Rightarrow> u16" where
  "status_no s = (case s of Status_OK \<Rightarrow> 0 | Status_ERROR \<Rightarrow> 1)"

definition ConnectResponse_len :: "bytes \<Rightarrow> u32" where
  "ConnectResponse_len what = 2 + of_nat (length what)"

definition ConnectResponse_encode :: "endian \<Rightarrow> ConnectStatus \<Rightarrow> bytes \<Rightarrow> Buffer \<times> bytes \<Rightarrow> Buffer \<times> bytes" where
  "ConnectResponse_encode e stat what bm =
     (let (b, mem) = bm;
          mem = write_pos (\<lambda>p. WriteUInt16 e p (status_no stat)) b mem;
          b = MoveHeadBack 2 b
      in (b, memcpy_pos what b mem))"

section \<open>The payloads\<close>

lemma memcpy_pos_eq: "memcpy_pos bs b mem = put_bytes (m_pPos b - m_pStart b) bs mem"
  by (simp add: memcpy_pos_def write_pos_def at_off_def put_bytes_def add.commute)

lemma write_pos_u16:
  "m_pPos b - m_pStart b + 2 \<le> length mem \<Longrightarrow>
   write_pos (\<lambda>p. WriteUInt16 e p n) b mem = put_bytes (m_pPos b - m_pStart b) (host_bytes BigEnd 2 n) mem"
  by (simp add: write_pos_def u16c.wr_at)

definition opt_bytes :: "bytes option \<Rightarrow> bytes" where
  "opt_bytes msg = (case msg of Some pb \<Rightarrow> pb | None \<Rightarrow> [])"

interpretation request: payload_encoder "RpcRequest_encode e handlerId msg"
  "host_bytes BigEnd 2 handlerId @ opt_bytes msg"
proof (unfold_locales, goal_cases)
  case (1 b mem)
  from 1(1) obtain k where "m_pPos b = m_pStart b + k" using le_Suc_ex by blast
  with 1 show ?case
    using put_bytes_append [of "host_bytes BigEnd 2 handlerId" 2 k "opt_bytes msg" mem]
    by (auto simp: RpcRequest_encode_def Serialize_def memcpy_pos_eq write_pos_u16 opt_bytes_def Let_def
        split: option.splits)
qed (auto simp: RpcRequest_encode_def Serialize_def Let_def split: option.splits)

interpretation error_response: payload_encoder "RpcResponseBase_encode e code ht"
  "host_bytes BigEnd 2 (rpc_code_no code) @ host_bytes BigEnd 2 ht"
proof (unfold_locales, goal_cases)
  case (1 b mem)
  from 1(1) obtain k where "m_pPos b = m_pStart b + k" using le_Suc_ex by blast
  with 1 show ?case
    using put_bytes_append [of "host_bytes BigEnd 2 (rpc_code_no code)" 2 k
        "host_bytes BigEnd 2 ht" mem]
    by (simp add: RpcResponseBase_encode_def write_pos_u16)
qed (simp_all add: RpcResponseBase_encode_def Let_def)

interpretation connect_request: payload_encoder "ConnectRequest_encode e port" "host_bytes BigEnd 2 port"
  by unfold_locales (simp_all add: ConnectRequest_encode_def write_pos_u16)

interpretation connect_response: payload_encoder "ConnectResponse_encode e stat what"
  "host_bytes BigEnd 2 (status_no stat) @ what"
proof (unfold_locales, goal_cases)
  case (1 b mem)
  from 1(1) obtain k where "m_pPos b = m_pStart b + k" using le_Suc_ex by blast
  with 1 show ?case
    using put_bytes_append [of "host_bytes BigEnd 2 (status_no stat)" 2 k what mem]
    by (simp add: ConnectResponse_encode_def memcpy_pos_eq write_pos_u16)
qed (simp_all add: ConnectResponse_encode_def Let_def)

interpretation response: payload_encoder "RpcResponse_encode e ht msg"
  "host_bytes BigEnd 2 (rpc_code_no OK) @ host_bytes BigEnd 2 ht @ opt_bytes msg"
proof (unfold_locales, goal_cases)
  case (1 b mem)
  from 1(1) obtain k where "m_pPos b = m_pStart b + k" using le_Suc_ex by blast
  with 1 show ?case
    using put_bytes_append [of "host_bytes BigEnd 2 (rpc_code_no OK)" 2 k "host_bytes BigEnd 2 ht" mem]
      put_bytes_append [of "host_bytes BigEnd 2 (rpc_code_no OK) @ host_bytes BigEnd 2 ht" 4 k "opt_bytes msg" mem]
    by (auto simp: RpcResponse_encode_def Serialize_def memcpy_pos_eq write_pos_u16 opt_bytes_def Let_def
        add.commute [of 4 k]
        split: option.splits)
qed (auto simp: RpcResponse_encode_def Serialize_def Let_def split: option.splits)

section \<open>Properties\<close>

lemma frame_parts:
  assumes "get_bytes k (16 + length (xs @ ys)) rmem = header_bytes h @ xs @ ys"
  shows "get_bytes k 16 rmem = header_bytes h"
    and "\<exists>rest. drop (k + 16) rmem = xs @ ys @ rest"
    and "get_bytes (k + 16 + length xs) (length ys) rmem = ys"
proof -
  let ?n = "16 + length (xs @ ys)"
  have d: "drop k rmem = header_bytes h @ xs @ ys @ drop ?n (drop k rmem)"
    using assms append_take_drop_id [of ?n "drop k rmem"] by (simp add: get_bytes_def)
  show "get_bytes k 16 rmem = header_bytes h" unfolding get_bytes_def by (subst d) simp
  have d16: "drop (k + 16) rmem = xs @ ys @ drop ?n (drop k rmem)"
    using arg_cong [OF d, of "drop 16"] by (simp add: add.commute)
  then show "\<exists>rest. drop (k + 16) rmem = xs @ ys @ rest" by blast
  have "drop (k + 16 + length xs) rmem = drop (length xs) (drop (k + 16) rmem)" by (simp add: add.commute)
  then show "get_bytes (k + 16 + length xs) (length ys) rmem = ys"
    unfolding get_bytes_def by (simp add: d16)
qed

text \<open>C9. An RPC request survives the wire: whatever host encodes it, a receiver on any host that has the
  frame at its read position decodes exactly the header sent (with the sender's message id), then the
  handler id, then the protobuf bytes.\<close>

theorem request_roundtrip:
  assumes enc: "Encode w h ma mem_of (RpcRequest_len msg) (RpcRequest_encode w hid msg) hdr st s
      = Inr ((buf, mem), hdr', st', s')"
    and inv: "pool_inv st live" "fresh_pages st ma" "16 + RpcRequest_len msg \<le> m_bulk_obj_threshold st" "all_clean s"
    and sizes: "\<And>mo. length (mem_of mo) = unat (m_slot_size mo)" "length (opt_bytes msg) < 2 ^ 32 - 2"
    and rcv: "16 \<le> AvailableLength rb" "AvailableLength rb < 2 ^ 31"
      "get_bytes (m_pPos rb - m_pStart rb) (18 + length (opt_bytes msg)) rmem = take (18 + length (opt_bytes msg)) mem"
  shows "DecodeMsgHeader r rb rmem h0 = (True, hdr') \<and> msg_id hdr' = msg_id hdr
    \<and> unat (len hdr') = 2 + length (opt_bytes msg)
    \<and> ReadUInt16 r (pos_mem rb 16 rmem) = hid
    \<and> get_bytes (m_pPos rb - m_pStart rb + 18) (length (opt_bytes msg)) rmem = opt_bytes msg"
proof -
  let ?k = "m_pPos rb - m_pStart rb"
  have n: "unat (RpcRequest_len msg) = length (host_bytes BigEnd 2 hid @ opt_bytes msg)"
  proof -
    have "unat (of_nat (length (opt_bytes msg)) :: u32) = length (opt_bytes msg)"
      using sizes(2) by (simp add: unat_of_nat take_bit_nat_eq_self)
    then have "unat (2 + of_nat (length (opt_bytes msg)) :: u32) = 2 + length (opt_bytes msg)"
      using sizes(2) by (subst unat_add_lem [THEN iffD1]) simp_all
    then show ?thesis by (simp add: RpcRequest_len_def opt_bytes_def split: option.splits)
  qed
  note fr = request.Encode_frame [OF enc inv(1-3) n inv(4) sizes(1)]
  have f: "get_bytes ?k (16 + length (host_bytes BigEnd 2 hid @ opt_bytes msg)) rmem =
      header_bytes hdr' @ host_bytes BigEnd 2 hid @ opt_bytes msg"
    using fr rcv(3) by simp
  note parts = frame_parts [OF f]
  obtain rest where rest: "drop (?k + 16) rmem = host_bytes BigEnd 2 hid @ opt_bytes msg @ rest"
    using parts(2) by blast
  have "DecodeMsgHeader r rb rmem h0 = (True, hdr')"
    using DecodeMsgHeader_eq [OF rcv(1,2) parts(1)] fr by simp
  moreover have "ReadUInt16 r (pos_mem rb 16 rmem) = hid"
    unfolding pos_mem_def rest by (rule u16c.rd_enc)
  ultimately show ?thesis using fr parts(3) n by (simp add: add.commute)
qed

lemma pool64_get_18: "Get front (\<lambda>_ _. 64) 18 pool64 = Inr (Some (tiny_at 64 64), pool64_1)"
  by (simp add: new_MemPool_def Get_def Get_tiny_def alloc_page_objs_def um_upsert_def split_mem_page_def
      get_free_obj_from_slot_page_def get_mem_object_def Let_def upt_numerals)

lemma pool64_encodes:
  "\<exists>buf mem hdr' st' s'.
     Encode LittleEnd front (\<lambda>_ _. 64) (\<lambda>mo. replicate (unat (m_slot_size mo)) 0) (RpcRequest_len None)
       (RpcRequest_encode LittleEnd 7 None) \<lparr>magic = 0, msg_id = 5, len = 0\<rparr> pool64 [] = Inr ((buf, mem), hdr', st', s')"
proof -
  obtain b rel s1 where b: "GetNewAvailableBuffer (tiny_at 64 64) 18 [] = (b, rel, s1)"
    by (cases rule: prod_cases3)
  obtain b2 m2 where "RpcRequest_encode LittleEnd 7 None (encode_header LittleEnd
      \<lparr>magic = MESSAGE_MAGIC_NO, msg_id = 5, len = 2\<rparr> (b, replicate 32 0)) = (b2, m2)"
    by (cases rule: prod.exhaust)
  then show ?thesis
    using GetNewAvailableBuffer_wf(9) [OF _ _ _ _ b]
    by (simp add: Encode_def RpcRequest_len_def pool64_get_18 Let_def b apply_release_def all_clean_def)
qed

theorem request_roundtrip_witness:
  "\<exists>buf mem hdr' st' s'.
     Encode LittleEnd front (\<lambda>_ _. 64) (\<lambda>mo. replicate (unat (m_slot_size mo)) 0) (RpcRequest_len None)
       (RpcRequest_encode LittleEnd 7 None) \<lparr>magic = 0, msg_id = 5, len = 0\<rparr> pool64 [] = Inr ((buf, mem), hdr', st', s')
     \<and> DecodeMsgHeader BigEnd buf mem \<lparr>magic = 0, msg_id = 0, len = 0\<rparr> = (True, hdr') \<and> msg_id hdr' = 5
     \<and> ReadUInt16 BigEnd (pos_mem buf 16 mem) = 7"
proof -
  obtain buf mem hdr' st' s' where enc: "Encode LittleEnd front (\<lambda>_ _. 64) (\<lambda>mo. replicate (unat (m_slot_size mo)) 0)
      (RpcRequest_len None) (RpcRequest_encode LittleEnd 7 None) \<lparr>magic = 0, msg_id = 5, len = 0\<rparr> pool64 []
      = Inr ((buf, mem), hdr', st', s')"
    using pool64_encodes by blast
  have size: "16 + RpcRequest_len None \<le> m_bulk_obj_threshold pool64"
    by (simp add: RpcRequest_len_def new_MemPool_def)
  have n: "unat (RpcRequest_len None) = length (host_bytes BigEnd 2 7 @ opt_bytes None)"
    by (simp add: RpcRequest_len_def opt_bytes_def)
  note inv = pool_inv_new_MemPool [OF cfg_pool64]
  have fr: "m_pPos buf = m_pStart buf" "AvailableLength buf = 18"
    using request.Encode_frame [OF enc inv pool64_fresh size n] by (simp_all add: all_clean_def RpcRequest_len_def)
  show ?thesis
    using request_roundtrip [OF enc inv pool64_fresh size, of buf mem BigEnd "\<lparr>magic = 0, msg_id = 0, len = 0\<rparr>"]
      fr enc by (auto simp: all_clean_def opt_bytes_def get_bytes_def)
qed

end
