(* ===== verification/Hash.thy ===== *)
theory Hash
  imports Prelude
begin

text \<open>
  The MurmurHash3 functions of \<open>common/hash-algorithms.cc\<close>, as the peer tables of the network layer
  use them. The key is the byte memory behind \<open>key\<close>, \<open>len\<close> the number of its bytes that are hashed,
  and \<open>getblock\<close> a load in the byte order of the machine; the result is what the function stores
  through \<open>out\<close>. The lemmas show that every mixing step is a permutation of the words it works on,
  so keys of one length that differ within one block never collide, and that no function looks
  behind the first \<open>len\<close> bytes.
\<close>

section \<open>Rotations and finalisation mixes\<close>

definition rotl32 :: "u32 \<Rightarrow> nat \<Rightarrow> u32" where
  "rotl32 x r = push_bit r x OR drop_bit (32 - r) x"

definition rotl64 :: "u64 \<Rightarrow> nat \<Rightarrow> u64" where
  "rotl64 x r = push_bit r x OR drop_bit (64 - r) x"

definition fmix32 :: "u32 \<Rightarrow> u32" where
  "fmix32 h =
     (let h = h XOR drop_bit 16 h;
          h = h * 0x85ebca6b;
          h = h XOR drop_bit 13 h;
          h = h * 0xc2b2ae35
      in h XOR drop_bit 16 h)"

definition fmix64 :: "u64 \<Rightarrow> u64" where
  "fmix64 k =
     (let k = k XOR drop_bit 33 k;
          k = k * 0xff51afd7ed558ccd;
          k = k XOR drop_bit 33 k;
          k = k * 0xc4ceb9fe1a85ec53
      in k XOR drop_bit 33 k)"

section \<open>MurmurHash3, 32 bit result\<close>

text \<open>\<open>getblock(p, i)\<close> on a pointer to 32 or 64 bit words at the start of \<open>data\<close>.\<close>

definition getblock32 :: "endian \<Rightarrow> bytes \<Rightarrow> nat \<Rightarrow> u32" where
  "getblock32 e data i = host_word e 4 (drop (4 * i) data)"

definition getblock64 :: "endian \<Rightarrow> bytes \<Rightarrow> nat \<Rightarrow> u64" where
  "getblock64 e data i = host_word e 8 (drop (8 * i) data)"

text \<open>\<open>tail[i] << s\<close>.\<close>

definition shl8 :: "u8 \<Rightarrow> nat \<Rightarrow> 'w::len word" where
  "shl8 b s = push_bit s (ucast b)"

text \<open>The mixing of one word of key into the state, \<open>k *= a; k = ROTL(k, r); k *= b\<close>.\<close>

definition mix32 :: "u32 \<Rightarrow> nat \<Rightarrow> u32 \<Rightarrow> u32 \<Rightarrow> u32" where
  "mix32 a r b k = rotl32 (k * a) r * b"

definition mix64 :: "u64 \<Rightarrow> nat \<Rightarrow> u64 \<Rightarrow> u64 \<Rightarrow> u64" where
  "mix64 a r b k = rotl64 (k * a) r * b"

definition x86_32_step :: "u32 \<Rightarrow> u32 \<Rightarrow> u32" where
  "x86_32_step h1 k1 =
     (let k1 = mix32 0xcc9e2d51 15 0x1b873593 k1;
          h1 = h1 XOR k1;
          h1 = rotl32 h1 13
      in h1 * 5 + 0xe6546b64)"

text \<open>The loop \<open>for (i = -nblocks; i; i++)\<close>; the counter here is \<open>-i\<close>, so \<open>blocks[i]\<close> is block
  \<open>nblocks + i\<close> of the key.\<close>

fun x86_32_body :: "endian \<Rightarrow> bytes \<Rightarrow> nat \<Rightarrow> nat \<Rightarrow> u32 \<Rightarrow> u32" where
  "x86_32_body e data nblocks 0 h1 = h1"
| "x86_32_body e data nblocks (Suc n) h1 =
     x86_32_body e data nblocks n (x86_32_step h1 (getblock32 e data (nblocks - Suc n)))"

definition x86_32_tail_word :: "bytes \<Rightarrow> nat \<Rightarrow> u32" where
  "x86_32_tail_word tail r =
     (let k1 = 0;
          k1 = (if 3 \<le> r then k1 XOR shl8 (tail ! 2) 16 else k1);
          k1 = (if 2 \<le> r then k1 XOR shl8 (tail ! 1) 8 else k1)
      in if 1 \<le> r then k1 XOR shl8 (tail ! 0) 0 else k1)"

definition x86_32_tail :: "bytes \<Rightarrow> nat \<Rightarrow> u32 \<Rightarrow> u32" where
  "x86_32_tail tail r h1 =
     (if 1 \<le> r then h1 XOR mix32 0xcc9e2d51 15 0x1b873593 (x86_32_tail_word tail r) else h1)"

definition MurmurHash3_x86_32 :: "endian \<Rightarrow> bytes \<Rightarrow> nat \<Rightarrow> u32 \<Rightarrow> u32" where
  "MurmurHash3_x86_32 e data len seed =
     (let nblocks = len div 4;
          h1 = x86_32_body e data nblocks nblocks seed;
          h1 = x86_32_tail (drop (nblocks * 4) data) (len mod 4) h1;
          h1 = h1 XOR of_nat len
      in fmix32 h1)"

section \<open>MurmurHash3, 128 bit results\<close>

type_synonym x86_128_state = "u32 \<times> u32 \<times> u32 \<times> u32"

fun x86_128_step :: "x86_128_state \<Rightarrow> x86_128_state \<Rightarrow> x86_128_state" where
  "x86_128_step (h1, h2, h3, h4) (k1, k2, k3, k4) =
     (let h1 = h1 XOR mix32 0x239b961b 15 0xab0e9789 k1;
          h1 = (rotl32 h1 19 + h2) * 5 + 0x561ccd1b;
          h2 = h2 XOR mix32 0xab0e9789 16 0x38b34ae5 k2;
          h2 = (rotl32 h2 17 + h3) * 5 + 0x0bcaa747;
          h3 = h3 XOR mix32 0x38b34ae5 17 0xa1e38b93 k3;
          h3 = (rotl32 h3 15 + h4) * 5 + 0x96cd1c35;
          h4 = h4 XOR mix32 0xa1e38b93 18 0x239b961b k4;
          h4 = (rotl32 h4 13 + h1) * 5 + 0x32ac3b17
      in (h1, h2, h3, h4))"

fun x86_128_body :: "endian \<Rightarrow> bytes \<Rightarrow> nat \<Rightarrow> nat \<Rightarrow> x86_128_state \<Rightarrow> x86_128_state" where
  "x86_128_body e data nblocks 0 h = h"
| "x86_128_body e data nblocks (Suc n) h =
     (let i = nblocks - Suc n;
          k = (getblock32 e data (i * 4 + 0), getblock32 e data (i * 4 + 1),
               getblock32 e data (i * 4 + 2), getblock32 e data (i * 4 + 3))
      in x86_128_body e data nblocks n (x86_128_step h k))"

text \<open>One of the four groups of cases of the switch: \<open>lo\<close> is its lowest label, and the labels up to
  \<open>lo + 3\<close> fall through to it, each adding one byte of the tail to the word.\<close>

definition tail_word32 :: "bytes \<Rightarrow> nat \<Rightarrow> nat \<Rightarrow> u32" where
  "tail_word32 tail lo r =
     (let k = 0;
          k = (if lo + 3 \<le> r then k XOR shl8 (tail ! (lo + 2)) 24 else k);
          k = (if lo + 2 \<le> r then k XOR shl8 (tail ! (lo + 1)) 16 else k);
          k = (if lo + 1 \<le> r then k XOR shl8 (tail ! lo) 8 else k)
      in if lo \<le> r then k XOR shl8 (tail ! (lo - 1)) 0 else k)"

fun x86_128_tail :: "bytes \<Rightarrow> nat \<Rightarrow> x86_128_state \<Rightarrow> x86_128_state" where
  "x86_128_tail tail r (h1, h2, h3, h4) =
     (let h4 = (if 13 \<le> r then h4 XOR mix32 0xa1e38b93 18 0x239b961b (tail_word32 tail 13 r) else h4);
          h3 = (if 9 \<le> r then h3 XOR mix32 0x38b34ae5 17 0xa1e38b93 (tail_word32 tail 9 r) else h3);
          h2 = (if 5 \<le> r then h2 XOR mix32 0xab0e9789 16 0x38b34ae5 (tail_word32 tail 5 r) else h2);
          h1 = (if 1 \<le> r then h1 XOR mix32 0x239b961b 15 0xab0e9789 (tail_word32 tail 1 r) else h1)
      in (h1, h2, h3, h4))"

text \<open>\<open>h1 += h2; h1 += h3; h1 += h4; h2 += h1; h3 += h1; h4 += h1;\<close>\<close>

fun x86_128_sum :: "x86_128_state \<Rightarrow> x86_128_state" where
  "x86_128_sum (h1, h2, h3, h4) =
     (let h1 = h1 + h2 + h3 + h4 in (h1, h2 + h1, h3 + h1, h4 + h1))"

fun x86_128_fin :: "nat \<Rightarrow> x86_128_state \<Rightarrow> x86_128_state" where
  "x86_128_fin len (h1, h2, h3, h4) =
     (case x86_128_sum (h1 XOR of_nat len, h2 XOR of_nat len, h3 XOR of_nat len, h4 XOR of_nat len) of
        (h1, h2, h3, h4) \<Rightarrow> x86_128_sum (fmix32 h1, fmix32 h2, fmix32 h3, fmix32 h4))"

definition MurmurHash3_x86_128 :: "endian \<Rightarrow> bytes \<Rightarrow> nat \<Rightarrow> u32 \<Rightarrow> x86_128_state" where
  "MurmurHash3_x86_128 e data len seed =
     (let nblocks = len div 16;
          h = x86_128_body e data nblocks nblocks (seed, seed, seed, seed);
          h = x86_128_tail (drop (nblocks * 16) data) (len mod 16) h
      in x86_128_fin len h)"

type_synonym x64_128_state = "u64 \<times> u64"

fun x64_128_step :: "x64_128_state \<Rightarrow> x64_128_state \<Rightarrow> x64_128_state" where
  "x64_128_step (h1, h2) (k1, k2) =
     (let h1 = h1 XOR mix64 0x87c37b91114253d5 31 0x4cf5ad432745937f k1;
          h1 = (rotl64 h1 27 + h2) * 5 + 0x52dce729;
          h2 = h2 XOR mix64 0x4cf5ad432745937f 33 0x87c37b91114253d5 k2;
          h2 = (rotl64 h2 31 + h1) * 5 + 0x38495ab5
      in (h1, h2))"

text \<open>The loop \<open>for (i = 0; i < nblocks; i++)\<close>; the counter here is \<open>nblocks - i\<close>.\<close>

fun x64_128_body :: "endian \<Rightarrow> bytes \<Rightarrow> nat \<Rightarrow> nat \<Rightarrow> x64_128_state \<Rightarrow> x64_128_state" where
  "x64_128_body e data nblocks 0 h = h"
| "x64_128_body e data nblocks (Suc n) h =
     (let i = nblocks - Suc n
      in x64_128_body e data nblocks n
           (x64_128_step h (getblock64 e data (i * 2 + 0), getblock64 e data (i * 2 + 1))))"

text \<open>One of the two groups of cases of the switch: eight labels from \<open>lo\<close> on.\<close>

definition tail_word64 :: "bytes \<Rightarrow> nat \<Rightarrow> nat \<Rightarrow> u64" where
  "tail_word64 tail lo r =
     (let k = 0;
          k = (if lo + 7 \<le> r then k XOR shl8 (tail ! (lo + 6)) 56 else k);
          k = (if lo + 6 \<le> r then k XOR shl8 (tail ! (lo + 5)) 48 else k);
          k = (if lo + 5 \<le> r then k XOR shl8 (tail ! (lo + 4)) 40 else k);
          k = (if lo + 4 \<le> r then k XOR shl8 (tail ! (lo + 3)) 32 else k);
          k = (if lo + 3 \<le> r then k XOR shl8 (tail ! (lo + 2)) 24 else k);
          k = (if lo + 2 \<le> r then k XOR shl8 (tail ! (lo + 1)) 16 else k);
          k = (if lo + 1 \<le> r then k XOR shl8 (tail ! lo) 8 else k)
      in if lo \<le> r then k XOR shl8 (tail ! (lo - 1)) 0 else k)"

fun x64_128_tail :: "bytes \<Rightarrow> nat \<Rightarrow> x64_128_state \<Rightarrow> x64_128_state" where
  "x64_128_tail tail r (h1, h2) =
     (let h2 = (if 9 \<le> r then h2 XOR mix64 0x4cf5ad432745937f 33 0x87c37b91114253d5 (tail_word64 tail 9 r)
                else h2);
          h1 = (if 1 \<le> r then h1 XOR mix64 0x87c37b91114253d5 31 0x4cf5ad432745937f (tail_word64 tail 1 r)
                else h1)
      in (h1, h2))"

fun x64_128_fin :: "nat \<Rightarrow> x64_128_state \<Rightarrow> x64_128_state" where
  "x64_128_fin len (h1, h2) =
     (let h1 = h1 XOR of_nat len;
          h2 = h2 XOR of_nat len;
          h1 = h1 + h2;
          h2 = h2 + h1;
          h1 = fmix64 h1;
          h2 = fmix64 h2;
          h1 = h1 + h2;
          h2 = h2 + h1
      in (h1, h2))"

definition MurmurHash3_x64_128 :: "endian \<Rightarrow> bytes \<Rightarrow> nat \<Rightarrow> u32 \<Rightarrow> x64_128_state" where
  "MurmurHash3_x64_128 e data len seed =
     (let nblocks = len div 16;
          h = x64_128_body e data nblocks nblocks (ucast seed, ucast seed);
          h = x64_128_tail (drop (nblocks * 16) data) (len mod 16) h
      in x64_128_fin len h)"

text \<open>On a little endian machine the definitions give the published values for the empty key and for
  the key \<open>hello\<close>.\<close>

lemma murmur_reference_values:
  "MurmurHash3_x86_32 LittleEnd [] 0 0 = 0"
  "MurmurHash3_x86_32 LittleEnd [] 0 1 = 0x514e28b7"
  "MurmurHash3_x86_32 LittleEnd [104, 101, 108, 108, 111] 5 0 = 0x248bfa47"
  "MurmurHash3_x64_128 LittleEnd [104, 101, 108, 108, 111] 5 0
   = (0xcbd8a7b341bd9b02, 0x5b1e906a48ae1d19)"
  by code_simp+

section \<open>Mixing steps are permutations\<close>

lemma xorshift_inj:
  assumes "0 < s" and "x XOR drop_bit s x = y XOR drop_bit s (y :: 'w::len word)"
  shows "x = y"
proof (rule bit_word_eqI)
  fix n assume "n < LENGTH('w)"
  have "bit x m = bit y m" if "LENGTH('w) - m \<le> d" for m d
    using that
  proof (induction d arbitrary: m)
    case 0
    then have "LENGTH('w) \<le> m" by simp
    then show ?case by (metis bit_imp_le_length leD)
  next
    case (Suc d)
    have "bit x (s + m) = bit y (s + m)"
      using Suc.prems assms(1) by (intro Suc.IH) simp
    moreover have "bit (x XOR drop_bit s x) m = bit (y XOR drop_bit s y) m"
      using assms(2) by simp
    ultimately show ?case by (simp add: bit_xor_iff bit_drop_bit_eq) blast
  qed
  from this [of n "LENGTH('w)"] show "bit x n = bit y n" by simp
qed

lemma mult_inj:
  assumes "c * c' = 1" and "x * c = y * (c :: 'w::len word)"
  shows "x = y"
proof -
  have "x * c * c' = y * c * c'" using assms(2) by simp
  then show ?thesis using assms(1) by (simp add: mult.assoc)
qed

lemma rot_inj:
  fixes x y :: "'w::len word"
  assumes r: "r < LENGTH('w)"
    and eq: "push_bit r x OR drop_bit (LENGTH('w) - r) x = push_bit r y OR drop_bit (LENGTH('w) - r) y"
  shows "x = y"
proof (rule bit_word_eqI)
  fix n assume n: "n < LENGTH('w)"
  have out: "\<not> bit z m" if "LENGTH('w) \<le> m" for z :: "'w word" and m
    using that by (metis bit_imp_le_length leD)
  show "bit x n = bit y n"
  proof (cases "n + r < LENGTH('w)")
    case True
    have "bit (push_bit r z OR drop_bit (LENGTH('w) - r) z) (n + r) = bit z n" for z :: "'w word"
      using True r out [of "LENGTH('w) - r + (n + r)" z] by (simp add: bit_simps)
    then show ?thesis using eq by metis
  next
    case False
    then have "bit (push_bit r z OR drop_bit (LENGTH('w) - r) z) (n + r - LENGTH('w)) = bit z n"
      for z :: "'w word"
      using r n by (auto simp: bit_simps)
    then show ?thesis using eq by metis
  qed
qed

lemma rotl32_inj: "r < 32 \<Longrightarrow> rotl32 x r = rotl32 y r \<Longrightarrow> x = y"
  using rot_inj [of r x y] by (simp add: rotl32_def)

lemma rotl64_inj: "r < 64 \<Longrightarrow> rotl64 x r = rotl64 y r \<Longrightarrow> x = y"
  using rot_inj [of r x y] by (simp add: rotl64_def)

lemma mix32_inj:
  assumes "a * a' = 1" "b * b' = 1" "r < 32" "mix32 a r b k = mix32 a r b l"
  shows "k = l"
proof -
  have "rotl32 (k * a) r = rotl32 (l * a) r"
    using mult_inj [OF assms(2)] assms(4) unfolding mix32_def by blast
  then show ?thesis using mult_inj [OF assms(1)] rotl32_inj [OF assms(3)] by blast
qed

lemma mix_c1_c2_inj: "mix32 0xcc9e2d51 15 0x1b873593 k = mix32 0xcc9e2d51 15 0x1b873593 l \<Longrightarrow> k = l"
  by (rule mix32_inj [of _ "0xdee13bb1" _ "0x56ed309b"]) simp_all

lemma fmix32_inj: "fmix32 x = fmix32 y \<Longrightarrow> x = y"
  unfolding fmix32_def Let_def
  by (drule xorshift_inj [rotated], simp,
      drule mult_inj [of "0xc2b2ae35" "0x7ed1b41d", rotated], simp,
      drule xorshift_inj [rotated], simp,
      drule mult_inj [of "0x85ebca6b" "0xa5cb9243", rotated], simp,
      drule xorshift_inj [rotated], simp, assumption)

lemma fmix64_inj: "fmix64 x = fmix64 y \<Longrightarrow> x = y"
  unfolding fmix64_def Let_def
  by (drule xorshift_inj [rotated], simp,
      drule mult_inj [of "0xc4ceb9fe1a85ec53" "0x9cb4b2f8129337db", rotated], simp,
      drule xorshift_inj [rotated], simp,
      drule mult_inj [of "0xff51afd7ed558ccd" "0x4f74430c22a54005", rotated], simp,
      drule xorshift_inj [rotated], simp, assumption)

lemma xor_left_inj: "(x :: 'w::len word) XOR y = x XOR z \<longleftrightarrow> y = z"
  by (metis bit.xor_left_self)

lemma xor_right_inj: "y XOR (x :: 'w::len word) = z XOR x \<longleftrightarrow> y = z"
  by (metis bit.xor_left_self xor.commute)

lemma x86_32_step_outer_inj:
  assumes "rotl32 x 13 * 5 + 0xe6546b64 = rotl32 y 13 * 5 + 0xe6546b64"
  shows "x = y"
proof -
  have "rotl32 x 13 * 5 = rotl32 y 13 * 5" using assms by simp
  then have "rotl32 x 13 = rotl32 y 13" by (rule mult_inj [of _ "0xcccccccd", rotated]) simp
  then show ?thesis using rotl32_inj [of 13] by simp
qed

lemma x86_32_step_state_inj: "x86_32_step h k = x86_32_step g k \<Longrightarrow> h = g"
  using x86_32_step_outer_inj by (fastforce simp: x86_32_step_def Let_def xor_right_inj)

lemma x86_32_step_key_inj: "x86_32_step h k = x86_32_step h l \<Longrightarrow> k = l"
  unfolding x86_32_step_def Let_def
  by (drule x86_32_step_outer_inj, simp only: xor_left_inj, rule mix_c1_c2_inj)

lemma x86_32_fold_state_inj: "foldl x86_32_step h ks = foldl x86_32_step g ks \<Longrightarrow> h = g"
  by (induction ks arbitrary: h g) (auto dest: x86_32_step_state_inj)

lemma x86_32_fold_block_inj:
  "foldl x86_32_step h (xs @ k # ys) = foldl x86_32_step h (xs @ l # ys) \<Longrightarrow> k = l"
  by (auto dest!: x86_32_fold_state_inj x86_32_step_key_inj)

lemma x86_32_body_fold:
  "n \<le> nb \<Longrightarrow> x86_32_body e d nb n h = foldl x86_32_step h (map (getblock32 e d) [nb - n..<nb])"
  by (induction n arbitrary: h) (simp_all add: upt_conv_Cons Suc_diff_Suc)

section \<open>Bytes of a word\<close>

lemma bit_u8_outside: "8 \<le> n \<Longrightarrow> \<not> bit (b :: u8) n"
  by (auto dest: bit_imp_le_length)

lemma bit_shl8:
  assumes "m < 8" and "s = 8 * j"
  shows "bit (shl8 b s :: 'w::len word) (8 * q + m) \<longleftrightarrow> 8 * q + m < LENGTH('w) \<and> q = j \<and> bit b m"
proof (cases "q = j")
  case True
  then show ?thesis using assms by (auto simp: shl8_def bit_simps)
next
  case False
  then have "q < j \<or> j < q" by auto
  then have "8 * q + m < 8 * j \<or> 8 \<le> 8 * q + m - 8 * j" using assms(1) by auto
  then show ?thesis using False assms(2) bit_u8_outside [of "8 * q + m - 8 * j" b]
    by (auto simp: shl8_def bit_simps)
qed

lemma byte_word_eqI:
  assumes "\<And>q m. m < 8 \<Longrightarrow> 8 * q + m < LENGTH('w) \<Longrightarrow> bit v (8 * q + m) = bit w (8 * q + m)"
  shows "v = (w :: 'w::len word)"
proof (rule bit_word_eqI)
  fix n assume "n < LENGTH('w)"
  then show "bit v n = bit w n"
    using assms [of "n mod 8" "n div 8"] by simp
qed

lemma bit_foldr_bytes:
  "m < 8 \<Longrightarrow> bit (foldr (\<lambda>b acc. push_bit 8 acc OR ucast b) (bs :: bytes) 0 :: 'w::len word) (8 * q + m)
    \<longleftrightarrow> 8 * q + m < LENGTH('w) \<and> q < length bs \<and> bit (bs ! q) m"
proof (induction bs arbitrary: q)
  case (Cons b bs)
  show ?case
  proof (cases q)
    case 0
    then show ?thesis using Cons.prems by (auto simp: bit_simps)
  next
    case (Suc q')
    then have "\<not> bit b (8 * q + m)" by (intro bit_u8_outside) simp
    moreover have "8 * q + m - 8 = 8 * q' + m" using Suc by simp
    ultimately show ?thesis using Suc Cons.IH [OF Cons.prems, of q'] by (auto simp: bit_simps)
  qed
qed simp

lemma foldr_bytes_inj:
  assumes len: "length bs = length cs" and w: "8 * length bs \<le> LENGTH('w)"
    and eq: "(foldr (\<lambda>b acc. push_bit 8 acc OR ucast b) bs 0 :: 'w::len word)
             = foldr (\<lambda>b acc. push_bit 8 acc OR ucast b) cs 0"
  shows "bs = (cs :: bytes)"
proof (rule nth_equalityI [OF len])
  fix q assume q: "q < length bs"
  show "bs ! q = cs ! q"
  proof (rule bit_word_eqI)
    fix m :: nat assume "m < LENGTH(8)"
    then have m: "m < 8" by simp
    have "8 * q + m < LENGTH('w)" using q m w by linarith
    then show "bit (bs ! q) m = bit (cs ! q) m"
      using arg_cong [OF eq, of "\<lambda>w. bit w (8 * q + m)"] q len
      by (simp add: bit_foldr_bytes [OF m])
  qed
qed

lemma host_word_inj:
  assumes "k \<le> length bs" "k \<le> length cs" "8 * k \<le> LENGTH('w)"
    and "(host_word e k bs :: 'w::len word) = host_word e k cs"
  shows "take k bs = take k cs"
  using assms foldr_bytes_inj [where 'w = 'w, of "take k bs" "take k cs"]
    foldr_bytes_inj [where 'w = 'w, of "rev (take k bs)" "rev (take k cs)"]
  by (cases e) (simp_all add: host_word_def Let_def min_absorb2)

text \<open>The words the switches gather from the tail are the little endian value of its bytes.\<close>

lemma bit_x86_32_tail_word:
  assumes m: "m < 8" and r: "r < 4"
  shows "bit (x86_32_tail_word tail r) (8 * q + m) \<longleftrightarrow> q < r \<and> bit (tail ! q) m"
proof -
  have w: "8 * q + m < 32 \<longleftrightarrow> q < 4" using m by auto
  have bits: "bit (shl8 b 0 :: u32) (8 * q + m) \<longleftrightarrow> q = 0 \<and> bit b m"
    "bit (shl8 b 8 :: u32) (8 * q + m) \<longleftrightarrow> q = 1 \<and> bit b m"
    "bit (shl8 b 16 :: u32) (8 * q + m) \<longleftrightarrow> q = 2 \<and> bit b m" for b
    using bit_shl8 [where 'w = 32, OF m, of 0 0 b q] bit_shl8 [where 'w = 32, OF m, of 8 1 b q]
      bit_shl8 [where 'w = 32, OF m, of 16 2 b q] w
    by auto
  have small: "q < 2 \<longleftrightarrow> q = 0 \<or> q = 1" "q < 3 \<longleftrightarrow> q = 0 \<or> q = 1 \<or> q = 2" by auto
  consider "r = 0" | "r = 1" | "r = 2" | "r = 3" using r by linarith
  then show ?thesis
    by cases (auto simp: x86_32_tail_word_def bit_xor_iff bits small)
qed

lemma x86_32_tail_word_inj:
  assumes "r < 4" "r \<le> length s" "r \<le> length t" "x86_32_tail_word s r = x86_32_tail_word t r"
  shows "take r s = take r t"
proof (rule nth_equalityI)
  show "length (take r s) = length (take r t)" using assms by simp
  fix q assume q: "q < length (take r s)"
  show "take r s ! q = take r t ! q"
  proof (rule bit_word_eqI)
    fix m :: nat assume "m < LENGTH(8)"
    then have m: "m < 8" by simp
    show "bit (take r s ! q) m = bit (take r t ! q) m"
      using arg_cong [OF assms(4), of "\<lambda>w. bit w (8 * q + m)"] q
      by (simp add: bit_x86_32_tail_word [OF m assms(1)])
  qed
qed

section \<open>Collisions and reads\<close>

lemma getblock32_inj:
  assumes "4 * i + 4 \<le> length a" "4 * i + 4 \<le> length b" "getblock32 e a i = getblock32 e b i"
  shows "take 4 (drop (4 * i) a) = take 4 (drop (4 * i) b)"
  by (rule host_word_inj [where 'w = 32 and e = e]) (use assms in \<open>simp_all add: getblock32_def\<close>)

lemma drop_eqI: "length a = length b \<Longrightarrow> (\<And>i. k \<le> i \<Longrightarrow> i < length a \<Longrightarrow> a ! i = b ! i) \<Longrightarrow> drop k a = drop k b"
  by (rule nth_equalityI) simp_all

lemma getblock32_cong:
  assumes "length a = length b" "4 * k + 4 \<le> length a" "\<And>i. i < length a \<Longrightarrow> i div 4 = k \<Longrightarrow> a ! i = b ! i"
  shows "getblock32 e a k = getblock32 e b k"
proof -
  have "take 4 (drop (4 * k) a) = take 4 (drop (4 * k) b)"
    by (rule nth_equalityI) (use assms in simp_all)
  then show ?thesis unfolding getblock32_def by (metis host_word_take)
qed

lemma hash_state_eq:
  assumes "MurmurHash3_x86_32 e a len seed = MurmurHash3_x86_32 e b len seed"
  shows "x86_32_tail (drop (len div 4 * 4) a) (len mod 4) (x86_32_body e a (len div 4) (len div 4) seed)
       = x86_32_tail (drop (len div 4 * 4) b) (len mod 4) (x86_32_body e b (len div 4) (len div 4) seed)"
  using assms unfolding MurmurHash3_x86_32_def Let_def by (metis fmix32_inj xor_right_inj)

lemma block_differs:
  assumes len: "length a = len" "length b = len" and j: "j < len div 4"
    and same: "\<And>i. i < len \<Longrightarrow> i div 4 \<noteq> j \<Longrightarrow> a ! i = b ! i"
    and eq: "MurmurHash3_x86_32 e a len seed = MurmurHash3_x86_32 e b len seed"
  shows "a = b"
proof -
  let ?nb = "len div 4"
  let ?A = "map (getblock32 e a)" and ?B = "map (getblock32 e b)"
  have "drop (?nb * 4) a = drop (?nb * 4) b"
    by (rule drop_eqI) (use len j same in \<open>auto simp: less_mult_imp_div_less\<close>)
  then have "x86_32_body e a ?nb ?nb seed = x86_32_body e b ?nb ?nb seed"
    using hash_state_eq [OF eq] by (simp add: x86_32_tail_def xor_right_inj split: if_splits)
  then have body: "foldl x86_32_step seed (?A [0..<?nb]) = foldl x86_32_step seed (?B [0..<?nb])"
    by (simp add: x86_32_body_fold)
  have split_upt: "[0..<?nb] = [0..<j] @ j # [Suc j..<?nb]"
    using j by (metis less_imp_le_nat upt_add_eq_append upt_conv_Cons le_add_diff_inverse zero_le)
  have blk: "getblock32 e a k = getblock32 e b k" if "k < ?nb" "k \<noteq> j" for k
    by (rule getblock32_cong) (use that len same in auto)
  have "?A [0..<j] = ?B [0..<j]" "?A [Suc j..<?nb] = ?B [Suc j..<?nb]"
    using blk j by auto
  with body have "foldl x86_32_step seed (?A [0..<j] @ getblock32 e a j # ?A [Suc j..<?nb])
      = foldl x86_32_step seed (?A [0..<j] @ getblock32 e b j # ?A [Suc j..<?nb])"
    unfolding split_upt by (simp only: map_append list.map)
  then have "getblock32 e a j = getblock32 e b j" by (rule x86_32_fold_block_inj)
  then have t: "take 4 (drop (4 * j) a) = take 4 (drop (4 * j) b)"
    using getblock32_inj j len by simp
  show ?thesis
  proof (rule nth_equalityI)
    fix i assume i: "i < length a"
    show "a ! i = b ! i"
    proof (cases "i div 4 = j")
      case True
      then have "4 * j + i mod 4 = i" by auto
      then show ?thesis
        using arg_cong [OF t, of "\<lambda>l. l ! (i mod 4)"] i len by simp
    qed (use same i len in simp)
  qed (use len in simp)
qed

lemma x86_32_tail_inj:
  "1 \<le> r \<Longrightarrow> x86_32_tail s r h = x86_32_tail t r h \<Longrightarrow> x86_32_tail_word s r = x86_32_tail_word t r"
  unfolding x86_32_tail_def by (rule mix_c1_c2_inj) (simp only: if_True xor_left_inj)

lemma tail_differs:
  assumes len: "length a = len" "length b = len"
    and same: "\<And>i. i < len \<Longrightarrow> i div 4 \<noteq> len div 4 \<Longrightarrow> a ! i = b ! i"
    and eq: "MurmurHash3_x86_32 e a len seed = MurmurHash3_x86_32 e b len seed"
  shows "a = b"
proof -
  let ?nb = "len div 4"
  have "getblock32 e a k = getblock32 e b k" if "k < ?nb" for k
    by (rule getblock32_cong) (use that len same in auto)
  then have "x86_32_body e a ?nb ?nb seed = x86_32_body e b ?nb ?nb seed"
    by (auto simp: x86_32_body_fold intro!: arg_cong [where f = "foldl x86_32_step seed"])
  then have "len mod 4 = 0 \<or> x86_32_tail_word (drop (?nb * 4) a) (len mod 4)
      = x86_32_tail_word (drop (?nb * 4) b) (len mod 4)"
    using hash_state_eq [OF eq] x86_32_tail_inj [of "len mod 4"] by (metis One_nat_def Suc_leI neq0_conv)
  then have "take (len mod 4) (drop (?nb * 4) a) = take (len mod 4) (drop (?nb * 4) b)"
    using x86_32_tail_word_inj [of "len mod 4" "drop (?nb * 4) a" "drop (?nb * 4) b"] len
    by (auto simp: minus_div_mult_eq_mod)
  moreover have "len mod 4 = len - ?nb * 4" by (simp add: minus_div_mult_eq_mod)
  ultimately have "drop (?nb * 4) a = drop (?nb * 4) b" using len by simp
  moreover have "take (?nb * 4) a = take (?nb * 4) b"
    by (rule nth_equalityI) (use len same in \<open>auto simp: less_mult_imp_div_less less_imp_neq\<close>)
  ultimately show ?thesis by (metis append_take_drop_id)
qed

lemma tail_word_take [simp]:
  "x86_32_tail_word (take r t) r = x86_32_tail_word t r"
  "0 < lo \<Longrightarrow> tail_word32 (take r t) lo r = tail_word32 t lo r"
  "0 < lo \<Longrightarrow> tail_word64 (take r t) lo r = tail_word64 t lo r"
  by (simp_all add: x86_32_tail_word_def tail_word32_def tail_word64_def Let_def)

lemma tail_take [simp]:
  "x86_32_tail (take r t) r h = x86_32_tail t r h"
  "x86_128_tail (take r t) r g = x86_128_tail t r g"
  "x64_128_tail (take r t) r w = x64_128_tail t r w"
  by (simp_all add: x86_32_tail_def x86_128_tail.simps [of _ _ "fst g" "fst (snd g)" "fst (snd (snd g))" "snd (snd (snd g))", simplified]
      x64_128_tail.simps [of _ _ "fst w" "snd w", simplified] Let_def)

lemma getblock_take:
  "4 * i + 4 \<le> len \<Longrightarrow> getblock32 e (take len d) i = getblock32 e d i"
  "8 * i + 8 \<le> len \<Longrightarrow> getblock64 e (take len d) i = getblock64 e d i"
  by (simp_all add: getblock32_def getblock64_def host_word_def take_drop min_def split: endian.split)

lemma body_take:
  "n \<le> nb \<Longrightarrow> nb * 4 \<le> len \<Longrightarrow> x86_32_body e (take len d) nb n h = x86_32_body e d nb n h"
  "n \<le> nb \<Longrightarrow> nb * 16 \<le> len \<Longrightarrow> x86_128_body e (take len d) nb n g = x86_128_body e d nb n g"
  "n \<le> nb \<Longrightarrow> nb * 16 \<le> len \<Longrightarrow> x64_128_body e (take len d) nb n w = x64_128_body e d nb n w"
  by (induction n arbitrary: h g w) (simp_all add: getblock_take Let_def)

lemma drop_blocks_take: "drop (len div k * k) (take len d) = take (len mod k) (drop (len div k * k) d)"
  by (simp add: drop_take minus_div_mult_eq_mod)

lemma hash_take:
  "MurmurHash3_x86_32 e (take len d) len seed = MurmurHash3_x86_32 e d len seed"
  "MurmurHash3_x86_128 e (take len d) len seed = MurmurHash3_x86_128 e d len seed"
  "MurmurHash3_x64_128 e (take len d) len seed = MurmurHash3_x64_128 e d len seed"
  unfolding MurmurHash3_x86_32_def MurmurHash3_x86_128_def MurmurHash3_x64_128_def Let_def
  by (simp_all only: drop_blocks_take tail_take body_take order_refl div_times_less_eq_dividend)

section \<open>Properties\<close>

text \<open>C14. Two keys of the same length that differ only within one aligned four byte block, or only
  within the last bytes that do not fill a block, never have the same 32 bit hash, whatever the seed
  and the byte order of the machine.\<close>

theorem murmur_one_block_no_collision:
  assumes "length a = len" "length b = len" "a \<noteq> b"
    and "\<forall>i<len. i div 4 \<noteq> j \<longrightarrow> a ! i = b ! i"
  shows "MurmurHash3_x86_32 e a len seed \<noteq> MurmurHash3_x86_32 e b len seed"
proof
  assume eq: "MurmurHash3_x86_32 e a len seed = MurmurHash3_x86_32 e b len seed"
  consider "j < len div 4" | "j = len div 4" | "len div 4 < j" by linarith
  then show False
  proof cases
    case 1
    with block_differs [OF assms(1,2) 1 _ eq] assms(3,4) show False by blast
  next
    case 2
    with tail_differs [OF assms(1,2) _ eq] assms(3,4) show False by blast
  next
    case 3
    have "a ! i = b ! i" if "i < len" for i
      using that 3 assms(4) div_le_mono [of i len 4] by fastforce
    then show False using assms(1,2,3) by (simp add: list_eq_iff_nth_eq)
  qed
qed

theorem murmur_one_block_no_collision_witness:
  "MurmurHash3_x86_32 LittleEnd [104, 101, 108, 108, 111] 5 22
   \<noteq> MurmurHash3_x86_32 LittleEnd [104, 101, 108, 108, 112] 5 22"
  using murmur_one_block_no_collision [of "[104, 101, 108, 108, 111]" 5 "[104, 101, 108, 108, 112]" 1
      LittleEnd 22]
  by (simp add: All_less_numeral)

text \<open>The three hash functions are determined by the first \<open>len\<close> bytes behind the key pointer: on
  memories that agree there they give the same result, so what lies behind the key is never used.\<close>

theorem murmur_reads_only_key:
  assumes "take len c = take len d"
  shows "MurmurHash3_x86_32 e c len seed = MurmurHash3_x86_32 e d len seed
       \<and> MurmurHash3_x86_128 e c len seed = MurmurHash3_x86_128 e d len seed
       \<and> MurmurHash3_x64_128 e c len seed = MurmurHash3_x64_128 e d len seed"
  using assms by (metis hash_take)

theorem murmur_reads_only_key_witness:
  "MurmurHash3_x64_128 LittleEnd [1, 2, 3, 9] 3 0 = MurmurHash3_x64_128 LittleEnd [1, 2, 3, 8, 7] 3 0"
  using murmur_reads_only_key [of 3 "[1, 2, 3, 9]" "[1, 2, 3, 8, 7]" LittleEnd 0]
  by (simp add: numeral_eq_Suc)

end
