(* ===== verification/Queues.thy ===== *)
theory Queues
  imports Prelude
begin

text \<open>
  The blocking queue of \<open>common/blocking-queue.h\<close>. Every operation holds the mutex from its first to
  its last statement, a wait excepted, so one pass of the loop of \<open>Push\<close> or \<open>Pop\<close> is one atomic step;
  a pass that finds nothing to do goes to sleep on the condition variable. \<open>bq_step\<close> interleaves any
  number of callers, with the wake-ups of \<open>notify_one\<close>, \<open>notify_all\<close> and the spurious ones the
  language allows. The lemmas show the FIFO order and the capacity bound of every interleaving, that an
  unbounded queue never leaves a consumer asleep beside an element nobody is awake to take, and that a
  bounded queue can.
\<close>

section \<open>Operations\<close>

record 'a BlockingQueue =
  m_iQueueMaxSize :: u32
  m_queue :: "'a list"

definition new_BlockingQueue :: "u32 \<Rightarrow> 'a BlockingQueue" where
  "new_BlockingQueue queueMaxSize = \<lparr>m_iQueueMaxSize = queueMaxSize, m_queue = []\<rparr>"

definition bq_full :: "'a BlockingQueue \<Rightarrow> bool" where
  "bq_full q \<longleftrightarrow> m_iQueueMaxSize q \<noteq> 0 \<and> unat (m_iQueueMaxSize q) \<le> length (m_queue q)"

text \<open>\<open>TryPop\<close> and \<open>TryPush\<close> give their result and the queue, \<open>None\<close> and \<open>False\<close> when they give up.\<close>

definition TryPop :: "'a BlockingQueue \<Rightarrow> 'a option \<times> 'a BlockingQueue" where
  "TryPop q = (case m_queue q of [] \<Rightarrow> (None, q) | x # xs \<Rightarrow> (Some x, q\<lparr>m_queue := xs\<rparr>))"

definition TryPush :: "'a \<Rightarrow> 'a BlockingQueue \<Rightarrow> bool \<times> 'a BlockingQueue" where
  "TryPush item q =
     (if bq_full q then (False, q) else (True, q\<lparr>m_queue := m_queue q @ [item]\<rparr>))"

text \<open>One pass of the loop of \<open>Pop\<close> and \<open>Push\<close>; \<open>None\<close> when the caller has to wait.\<close>

definition Pop :: "'a BlockingQueue \<Rightarrow> ('a \<times> 'a BlockingQueue) option" where
  "Pop q = (case m_queue q of [] \<Rightarrow> None | x # xs \<Rightarrow> Some (x, q\<lparr>m_queue := xs\<rparr>))"

definition Push :: "'a \<Rightarrow> 'a BlockingQueue \<Rightarrow> 'a BlockingQueue option" where
  "Push item q = (if bq_full q then None else Some (q\<lparr>m_queue := m_queue q @ [item]\<rparr>))"

definition Empty :: "'a BlockingQueue \<Rightarrow> bool" where
  "Empty q \<longleftrightarrow> m_queue q = []"

definition Size :: "'a BlockingQueue \<Rightarrow> u64" where
  "Size q = of_nat (length (m_queue q))"

definition Clear :: "'a BlockingQueue \<Rightarrow> 'a BlockingQueue" where
  "Clear q = q\<lparr>m_queue := []\<rparr>"

section \<open>The queue interface\<close>

text \<open>What the clients of the queue rely on, the trial operations and the sleeping ones: a FIFO list
  \<open>content\<close> under a capacity.\<close>

locale fifo_queue =
  fixes content :: "'q \<Rightarrow> 'a list"
    and full :: "'q \<Rightarrow> bool"
    and try_push :: "'a \<Rightarrow> 'q \<Rightarrow> bool \<times> 'q"
    and try_pop :: "'q \<Rightarrow> 'a option \<times> 'q"
  assumes push_full: "full q \<Longrightarrow> try_push x q = (False, q)"
    and push_room: "\<not> full q \<Longrightarrow> \<exists>q'. try_push x q = (True, q') \<and> content q' = content q @ [x]"
    and pop_empty: "content q = [] \<Longrightarrow> try_pop q = (None, q)"
    and pop_some: "content q = x # xs \<Longrightarrow> \<exists>q'. try_pop q = (Some x, q') \<and> content q' = xs"
begin

text \<open>\<open>n\<close> calls of \<open>try_pop\<close> give the first \<open>n\<close> elements in their order.\<close>

fun pops :: "nat \<Rightarrow> 'q \<Rightarrow> 'a list \<times> 'q" where
  "pops 0 q = ([], q)"
| "pops (Suc n) q =
     (case try_pop q of
        (None, q') \<Rightarrow> ([], q')
      | (Some x, q') \<Rightarrow> (case pops n q' of (xs, q'') \<Rightarrow> (x # xs, q'')))"

text \<open>Calls of \<open>try_push\<close> put what they accept behind what is there.\<close>

fun pushes :: "'a list \<Rightarrow> 'q \<Rightarrow> 'a list \<times> 'q" where
  "pushes [] q = ([], q)"
| "pushes (x # xs) q =
     (case try_push x q of
        (ok, q') \<Rightarrow> (case pushes xs q' of (ys, q'') \<Rightarrow> (if ok then x # ys else ys, q'')))"

lemma pushes_in_order: "pushes xs q = (ys, q') \<Longrightarrow> content q' = content q @ ys"
proof (induction xs arbitrary: q ys)
  case (Cons x xs)
  show ?case
  proof (cases "full q")
    case True
    then show ?thesis using Cons push_full [of q x] by (auto split: prod.splits)
  next
    case False
    then obtain p where "try_push x q = (True, p)" "content p = content q @ [x]" using push_room by blast
    then show ?thesis using Cons by (auto split: prod.splits)
  qed
qed simp

lemma pops_in_order:
  "pops n q = (xs, q') \<Longrightarrow> xs = take n (content q) \<and> content q' = drop n (content q)"
proof (induction n arbitrary: q xs)
  case (Suc n)
  show ?case
  proof (cases "content q")
    case Nil
    then show ?thesis using Suc.prems pop_empty [of q] by simp
  next
    case (Cons y ys)
    then obtain p where p: "try_pop q = (Some y, p)" "content p = ys" using pop_some by blast
    then show ?thesis using Suc Cons by (auto split: prod.splits)
  qed
qed simp

end

interpretation bq: fifo_queue m_queue bq_full TryPush TryPop
  by unfold_locales (auto simp: TryPush_def TryPop_def)

section \<open>Callers on many threads\<close>

datatype 'a bq_op = OpPop | OpPush 'a

text \<open>\<open>waiting\<close> sleep on the condition variable, \<open>woken\<close> have been notified and will test again.
  \<open>taken\<close> and \<open>pushed\<close> record what has left and what has entered the queue.\<close>

record 'a bq_sys =
  sys_q :: "'a BlockingQueue"
  waiting :: "'a bq_op list"
  woken :: "'a bq_op list"
  taken :: "'a list"
  pushed :: "'a list"

text \<open>One pass under the mutex, with whether it calls \<open>notify_one\<close>.\<close>

fun attempt :: "'a bq_op \<Rightarrow> 'a bq_sys \<Rightarrow> ('a bq_sys \<times> bool) option" where
  "attempt OpPop s =
     (case Pop (sys_q s) of
        None \<Rightarrow> None
      | Some (x, q) \<Rightarrow> Some (s\<lparr>sys_q := q, taken := taken s @ [x]\<rparr>, m_iQueueMaxSize q \<noteq> 0))"
| "attempt (OpPush x) s =
     (case Push x (sys_q s) of
        None \<Rightarrow> None
      | Some q \<Rightarrow> Some (s\<lparr>sys_q := q, pushed := pushed s @ [x]\<rparr>, True))"

definition wake :: "'a bq_op \<Rightarrow> 'a bq_sys \<Rightarrow> 'a bq_sys" where
  "wake w s = s\<lparr>waiting := remove1 w (waiting s), woken := w # woken s\<rparr>"

definition unwake :: "'a bq_op \<Rightarrow> 'a bq_sys \<Rightarrow> 'a bq_sys" where
  "unwake w s = s\<lparr>woken := remove1 w (woken s)\<rparr>"

inductive notify_one :: "bool \<Rightarrow> 'a bq_sys \<Rightarrow> 'a bq_sys \<Rightarrow> bool" where
  no_call: "notify_one False s s"
| nobody: "waiting s = [] \<Longrightarrow> notify_one True s s"
| one: "w \<in> set (waiting s) \<Longrightarrow> notify_one True s (wake w s)"

inductive_cases notify_oneE: "notify_one b s s'"

inductive bq_step :: "'a bq_sys \<Rightarrow> 'a bq_sys \<Rightarrow> bool" where
  enter: "attempt op s = Some (s1, b) \<Longrightarrow> notify_one b s1 s' \<Longrightarrow> bq_step s s'"
| enter_wait: "attempt op s = None \<Longrightarrow> bq_step s (s\<lparr>waiting := op # waiting s\<rparr>)"
| resume: "op \<in> set (woken s) \<Longrightarrow> attempt op (unwake op s) = Some (s1, b) \<Longrightarrow> notify_one b s1 s'
    \<Longrightarrow> bq_step s s'"
| resume_wait: "op \<in> set (woken s) \<Longrightarrow> attempt op (unwake op s) = None
    \<Longrightarrow> bq_step s ((unwake op s)\<lparr>waiting := op # waiting s\<rparr>)"
| spurious: "w \<in> set (waiting s) \<Longrightarrow> bq_step s (wake w s)"
| clear: "bq_step s (s\<lparr>sys_q := Clear (sys_q s), taken := taken s @ m_queue (sys_q s),
                        waiting := [], woken := waiting s @ woken s\<rparr>)"

definition bq_init :: "u32 \<Rightarrow> 'a bq_sys" where
  "bq_init mx = \<lparr>sys_q = new_BlockingQueue mx, waiting = [], woken = [], taken = [], pushed = []\<rparr>"

inductive bq_reach :: "u32 \<Rightarrow> 'a bq_sys \<Rightarrow> bool" for mx where
  start: "bq_reach mx (bq_init mx)"
| move: "bq_reach mx s \<Longrightarrow> bq_step s s' \<Longrightarrow> bq_reach mx s'"

lemmas bq_simps = Pop_def Push_def Clear_def bq_full_def wake_def unwake_def

section \<open>Order and capacity\<close>

definition bq_inv :: "u32 \<Rightarrow> 'a bq_sys \<Rightarrow> bool" where
  "bq_inv mx s \<longleftrightarrow> m_iQueueMaxSize (sys_q s) = mx
     \<and> pushed s = taken s @ m_queue (sys_q s)
     \<and> (mx \<noteq> 0 \<longrightarrow> length (m_queue (sys_q s)) \<le> unat mx)"

lemma attempt_inv: "attempt op s = Some (s', b) \<Longrightarrow> bq_inv mx s \<Longrightarrow> bq_inv mx s'"
  by (cases op) (auto simp: bq_inv_def bq_simps split: if_splits list.splits option.splits prod.splits)

lemma notify_one_inv: "notify_one b s s' \<Longrightarrow> bq_inv mx s \<Longrightarrow> bq_inv mx s'"
  by (auto elim!: notify_oneE simp: bq_inv_def wake_def)

lemma bq_step_inv: "bq_step s s' \<Longrightarrow> bq_inv mx s \<Longrightarrow> bq_inv mx s'"
proof (induction rule: bq_step.induct)
  case (resume op s s1 b s')
  then have "bq_inv mx (unwake op s)" by (simp add: bq_inv_def unwake_def)
  then show ?case using resume attempt_inv notify_one_inv by blast
qed (auto simp: bq_inv_def bq_simps intro: attempt_inv notify_one_inv
      dest: attempt_inv [unfolded bq_inv_def] notify_one_inv [unfolded bq_inv_def])

lemma bq_reach_inv: "bq_reach mx s \<Longrightarrow> bq_inv mx s"
  by (induction rule: bq_reach.induct)
     (auto simp: bq_inv_def bq_init_def new_BlockingQueue_def dest: bq_step_inv)

section \<open>Wake-ups\<close>

definition wakeup_inv :: "'a bq_sys \<Rightarrow> bool" where
  "wakeup_inv s \<longleftrightarrow> set (waiting s) \<subseteq> {OpPop} \<and> set (woken s) \<subseteq> {OpPop}
     \<and> (waiting s \<noteq> [] \<longrightarrow> length (m_queue (sys_q s)) \<le> length (woken s))"

lemma attempt_unbounded:
  assumes "m_iQueueMaxSize (sys_q s) = 0" and "attempt op s = Some (s', b)"
  shows "waiting s' = waiting s \<and> woken s' = woken s \<and>
    (op = OpPop \<and> \<not> b \<and> length (m_queue (sys_q s')) \<le> length (m_queue (sys_q s)) - 1
     \<or> op \<noteq> OpPop \<and> b \<and> length (m_queue (sys_q s')) = Suc (length (m_queue (sys_q s))))"
  using assms by (cases op) (auto simp: bq_simps split: list.splits if_splits)

lemma attempt_unbounded_wait:
  "m_iQueueMaxSize (sys_q s) = 0 \<Longrightarrow> attempt op s = None \<Longrightarrow> op = OpPop \<and> m_queue (sys_q s) = []"
  by (cases op) (auto simp: bq_simps split: list.splits)

lemma wakeup_notify:
  assumes "notify_one b s1 s'" and "set (waiting s1) \<subseteq> {OpPop}" and "set (woken s1) \<subseteq> {OpPop}"
    and "waiting s1 \<noteq> [] \<Longrightarrow> length (m_queue (sys_q s1)) \<le> length (woken s1) + of_bool b"
  shows "wakeup_inv s'"
  using assms(1)
proof cases
  case (one w)
  have sub: "set (remove1 w (waiting s1)) \<subseteq> set (waiting s1)" by (rule set_remove1_subset)
  have ne: "waiting s1 \<noteq> []" using one(3) by auto
  have "length (m_queue (sys_q s1)) \<le> Suc (length (woken s1))" using assms(4) [OF ne] one(1) by simp
  then show ?thesis using one(2,3) assms(2,3) sub by (auto simp: wakeup_inv_def wake_def)
qed (use assms in \<open>auto simp: wakeup_inv_def\<close>)

lemma wakeup_enter:
  assumes "m_iQueueMaxSize (sys_q s) = 0" "attempt op s = Some (s1, b)" "notify_one b s1 s'"
    and "set (waiting s) \<subseteq> {OpPop}" "set (woken s) \<subseteq> {OpPop}"
    and "waiting s \<noteq> [] \<Longrightarrow> length (m_queue (sys_q s)) \<le> length (woken s) + of_bool (op = OpPop)"
  shows "wakeup_inv s'"
  using assms(3)
  by (rule wakeup_notify) (use attempt_unbounded [OF assms(1,2)] assms(4-6) in auto)

lemma wakeup_step:
  assumes "bq_step s s'" and mx: "m_iQueueMaxSize (sys_q s) = 0" and inv: "wakeup_inv s"
  shows "wakeup_inv s'"
  using assms(1)
proof cases
  case (enter op s1 b)
  with mx show ?thesis by (rule wakeup_enter) (use inv in \<open>auto simp: wakeup_inv_def\<close>)
next
  case (enter_wait op)
  then show ?thesis using inv attempt_unbounded_wait [OF mx] by (auto simp: wakeup_inv_def)
next
  case (resume op s1 b)
  have len: "length (woken s) = Suc (length (remove1 op (woken s)))"
    using resume(1) by (metis One_nat_def Suc_pred length_pos_if_in_set length_remove1)
  have "op = OpPop" using resume(1) inv by (auto simp: wakeup_inv_def)
  have mx': "m_iQueueMaxSize (sys_q (unwake op s)) = 0" using mx by (simp add: unwake_def)
  have sub: "set (remove1 op (woken s)) \<subseteq> set (woken s)" by (rule set_remove1_subset)
  from mx' resume(2,3) show ?thesis
    by (rule wakeup_enter) (use inv len sub \<open>op = OpPop\<close> in \<open>auto simp: wakeup_inv_def unwake_def\<close>)
next
  case (resume_wait op)
  have mx': "m_iQueueMaxSize (sys_q (unwake op s)) = 0" using mx by (simp add: unwake_def)
  have sub: "set (remove1 op (woken s)) \<subseteq> set (woken s)" by (rule set_remove1_subset)
  show ?thesis
    using attempt_unbounded_wait [OF mx' resume_wait(3)] inv sub resume_wait(1)
    by (auto simp: wakeup_inv_def unwake_def)
next
  case (spurious w)
  have "set (remove1 w (waiting s)) \<subseteq> set (waiting s)" by (rule set_remove1_subset)
  then show ?thesis using spurious inv
    by (cases "waiting s") (auto simp: wakeup_inv_def wake_def)
next
  case clear
  then show ?thesis using inv by (auto simp: wakeup_inv_def Clear_def)
qed

lemma wakeup_reach: "bq_reach mx s \<Longrightarrow> mx = 0 \<Longrightarrow> wakeup_inv s"
proof (induction rule: bq_reach.induct)
  case start
  then show ?case by (simp add: wakeup_inv_def bq_init_def)
next
  case (move s s')
  then have "m_iQueueMaxSize (sys_q s) = 0" using bq_reach_inv by (auto simp: bq_inv_def)
  then show ?case using move wakeup_step by blast
qed

section \<open>A concrete run\<close>

text \<open>Two consumers fall asleep, then a producer pushes 1 and wakes one of them.\<close>

definition bq_state :: "u32 \<Rightarrow> nat list \<Rightarrow> nat bq_op list \<Rightarrow> nat bq_op list \<Rightarrow> nat list \<Rightarrow> nat list \<Rightarrow> nat bq_sys" where
  "bq_state mx xs ws rs tk pu =
     \<lparr>sys_q = \<lparr>m_iQueueMaxSize = mx, m_queue = xs\<rparr>, waiting = ws, woken = rs, taken = tk, pushed = pu\<rparr>"

lemmas bq_state_simps = bq_state_def bq_simps

lemma bq_state_run:
  assumes "mx = 0 \<or> mx = 1"
  shows "bq_reach mx (bq_state mx [1] [OpPop] [OpPop] [] [1])"
proof -
  have a0: "bq_reach mx (bq_state mx [] [] [] [] [])"
    using bq_reach.start [of mx] by (simp add: bq_init_def new_BlockingQueue_def bq_state_def)
  have a1: "bq_reach mx (bq_state mx [] [OpPop] [] [] [])"
    using bq_reach.move [OF a0 bq_step.enter_wait [of OpPop]] by (simp add: bq_state_simps)
  have a2: "bq_reach mx (bq_state mx [] [OpPop, OpPop] [] [] [])"
    using bq_reach.move [OF a1 bq_step.enter_wait [of OpPop]] by (simp add: bq_state_simps)
  show ?thesis
    using bq_reach.move [OF a2 bq_step.enter [of "OpPush 1", OF _ notify_one.one [of OpPop]]] assms
    by (auto simp: bq_state_simps)
qed

section \<open>Properties\<close>

text \<open>C5. In every interleaving of callers of \<open>Push\<close>, \<open>Pop\<close> and \<open>Clear\<close> what has been taken out
  followed by what is queued is exactly what has been pushed, in the order of the pushes, and a queue
  with a maximum never holds more than its maximum.\<close>

theorem queue_fifo_and_bounded:
  assumes "bq_reach mx s"
  shows "taken s @ m_queue (sys_q s) = pushed s
       \<and> (mx \<noteq> 0 \<longrightarrow> length (m_queue (sys_q s)) \<le> unat mx)"
  using bq_reach_inv [OF assms] by (simp add: bq_inv_def)

theorem queue_fifo_and_bounded_witness:
  "taken (bq_state 1 [1] [OpPop] [OpPop] [] [1]) @ m_queue (sys_q (bq_state 1 [1] [OpPop] [OpPop] [] [1]))
     = [1] \<and> length (m_queue (sys_q (bq_state 1 [1] [OpPop] [OpPop] [] [1]))) \<le> unat (1 :: u32)"
  using queue_fifo_and_bounded [OF bq_state_run [of 1]] by (simp add: bq_state_def)

text \<open>C15. Without a maximum no wake-up is lost: if a consumer sleeps while an element is queued, some
  woken consumer is on its way, and its pass succeeds.\<close>

theorem unbounded_queue_no_lost_wakeup:
  assumes "bq_reach 0 s" "OpPop \<in> set (waiting s)" "m_queue (sys_q s) \<noteq> []"
  shows "\<exists>s'. OpPop \<in> set (woken s) \<and> attempt OpPop (unwake OpPop s) = Some (s', False)"
proof -
  have inv: "wakeup_inv s" using wakeup_reach assms(1) by blast
  have mx: "m_iQueueMaxSize (sys_q s) = 0" using bq_reach_inv [OF assms(1)] by (simp add: bq_inv_def)
  have "waiting s \<noteq> []" using assms(2) by auto
  then have "woken s \<noteq> []" using inv assms(3) by (auto simp: wakeup_inv_def)
  then have "OpPop \<in> set (woken s)" using inv by (cases "woken s") (auto simp: wakeup_inv_def)
  moreover obtain x xs where "m_queue (sys_q s) = x # xs" using assms(3) by (cases "m_queue (sys_q s)") auto
  ultimately show ?thesis using mx by (simp add: Pop_def unwake_def)
qed

theorem unbounded_queue_no_lost_wakeup_witness:
  "\<exists>s'. attempt OpPop (unwake OpPop (bq_state 0 [1] [OpPop] [OpPop] [] [1])) = Some (s', False)"
  using unbounded_queue_no_lost_wakeup [OF bq_state_run [of 0]] by (simp add: bq_state_def)

text \<open>With a maximum a wake-up can be lost, since consumers and producers share one condition
  variable and \<open>notify_one\<close> wakes either: a queue of maximum 1 reaches a state in which it is empty, a
  producer and a consumer sleep, and nobody is awake, although the producer's pass would succeed.\<close>

theorem bounded_queue_loses_wakeup:
  "\<exists>s :: nat bq_sys. bq_reach 1 s \<and> m_queue (sys_q s) = [] \<and> OpPop \<in> set (waiting s)
     \<and> OpPush 2 \<in> set (waiting s) \<and> woken s = [] \<and> attempt (OpPush 2) s \<noteq> None"
proof -
  note a3 = bq_state_run [of 1]
  have a4: "bq_reach 1 (bq_state 1 [1] [OpPush 2, OpPop] [OpPop] [] [1])"
    using bq_reach.move [OF a3 bq_step.enter_wait [of "OpPush 2"]] by (simp add: bq_state_simps)
  have a5: "bq_reach 1 (bq_state 1 [] [OpPush 2] [OpPop] [1] [1])"
    using bq_reach.move [OF a4 bq_step.resume [of OpPop, OF _ _ notify_one.one [of OpPop]]]
    by (simp add: bq_state_simps)
  have a6: "bq_reach 1 (bq_state 1 [] [OpPop, OpPush 2] [] [1] [1])"
    using bq_reach.move [OF a5 bq_step.resume_wait [of OpPop]] by (simp add: bq_state_simps)
  show ?thesis
    by (rule exI [where x = "bq_state 1 [] [OpPop, OpPush 2] [] [1] [1]"])
       (use a6 in \<open>simp add: bq_state_simps\<close>)
qed

end
