(* ===== verification/ThreadPool.thy ===== *)
theory ThreadPool
  imports Queues "HOL-Library.Multiset"
begin

text \<open>
  The thread pool of \<open>ccsys/thread-pool.h\<close> over the unbounded blocking queue. A worker's loop \<open>proc\<close>
  is cut at the points where another thread can see its effect: before the pop, between the pop and
  the test of \<open>m_bStopping\<close>, and while the task runs. A worker that finds the queue empty stays at the
  pop; that it is woken when there is something to take is the contract of the queue. The lemmas show
  that tasks leave the queue in the order they came and are each run once until the pool is stopped,
  and that the destructor ends with every worker joined.
\<close>

record ('f, 'c) Task =
  action :: "'f option"
  ctx :: "'c option"

definition empty_task :: "('f, 'c) Task" where
  "empty_task = \<lparr>action = None, ctx = None\<rparr>"

definition new_Task :: "'f \<Rightarrow> 'c \<Rightarrow> ('f, 'c) Task" where
  "new_Task callback c = \<lparr>action = Some callback, ctx = Some c\<rparr>"

datatype ('f, 'c) worker =
    AtPop
  | Got "('f, 'c) Task"
  | Running "('f, 'c) Task"
  | Exited

text \<open>\<open>dtor\<close> is \<open>None\<close> until the destructor starts and then the number of empty tasks it still has to
  add. \<open>added\<close>, \<open>fetched\<close> and \<open>finished\<close> record the tasks that were added, popped and run.\<close>

record ('f, 'c) ThreadPool =
  m_bStopping :: bool
  m_vThreadps :: "('f, 'c) worker list"
  m_bqTasks :: "('f, 'c) Task BlockingQueue"
  m_iActiveWorkersCnt :: int
  dtor :: "nat option"
  added :: "('f, 'c) Task list"
  fetched :: "('f, 'c) Task list"
  finished :: "('f, 'c) Task list"

text \<open>\<open>nprocs\<close> is the result of \<open>get_nprocs()\<close>.\<close>

definition new_ThreadPool :: "u32 \<Rightarrow> u32 \<Rightarrow> ('f, 'c) ThreadPool" where
  "new_ThreadPool nprocs threads_cnt =
     (let threads_cnt = (if threads_cnt > 0 then threads_cnt else nprocs * 2)
      in \<lparr>m_bStopping = False, m_vThreadps = replicate (unat threads_cnt) AtPop,
          m_bqTasks = new_BlockingQueue 0, m_iActiveWorkersCnt = 0, dtor = None,
          added = [], fetched = [], finished = []\<rparr>)"

definition AddTask :: "('f, 'c) Task \<Rightarrow> ('f, 'c) ThreadPool \<Rightarrow> ('f, 'c) ThreadPool option" where
  "AddTask t p =
     map_option (\<lambda>q. p\<lparr>m_bqTasks := q, added := added p @ [t]\<rparr>) (Push t (m_bqTasks p))"

definition AddTask2 :: "'f \<Rightarrow> 'c \<Rightarrow> ('f, 'c) ThreadPool \<Rightarrow> ('f, 'c) ThreadPool option" where
  "AddTask2 a c p = AddTask (new_Task a c) p"

definition set_worker :: "nat \<Rightarrow> ('f, 'c) worker \<Rightarrow> ('f, 'c) ThreadPool \<Rightarrow> ('f, 'c) ThreadPool" where
  "set_worker i w p = p\<lparr>m_vThreadps := (m_vThreadps p)[i := w]\<rparr>"

text \<open>The three pieces of \<open>proc\<close>: the pop, the tests up to the start of the action, its end.\<close>

definition proc_pop :: "nat \<Rightarrow> ('f, 'c) ThreadPool \<Rightarrow> ('f, 'c) ThreadPool option" where
  "proc_pop i p =
     map_option (\<lambda>(t, q). set_worker i (Got t) (p\<lparr>m_bqTasks := q, fetched := fetched p @ [t]\<rparr>))
       (Pop (m_bqTasks p))"

definition proc_check :: "nat \<Rightarrow> ('f, 'c) Task \<Rightarrow> ('f, 'c) ThreadPool \<Rightarrow> ('f, 'c) ThreadPool" where
  "proc_check i t p =
     (if m_bStopping p then set_worker i Exited p
      else if action t \<noteq> None
        then set_worker i (Running t) (p\<lparr>m_iActiveWorkersCnt := m_iActiveWorkersCnt p + 1\<rparr>)
      else set_worker i AtPop p)"

definition proc_done :: "nat \<Rightarrow> ('f, 'c) Task \<Rightarrow> ('f, 'c) ThreadPool \<Rightarrow> ('f, 'c) ThreadPool" where
  "proc_done i t p =
     set_worker i AtPop (p\<lparr>m_iActiveWorkersCnt := m_iActiveWorkersCnt p - 1,
                          finished := finished p @ [t]\<rparr>)"

text \<open>The destructor: the flag, then one empty task per worker, then the joins.\<close>

definition dtor_stop :: "('f, 'c) ThreadPool \<Rightarrow> ('f, 'c) ThreadPool" where
  "dtor_stop p = p\<lparr>m_bStopping := True, dtor := Some (length (m_vThreadps p))\<rparr>"

definition dtor_add :: "nat \<Rightarrow> ('f, 'c) ThreadPool \<Rightarrow> ('f, 'c) ThreadPool option" where
  "dtor_add k p = map_option (\<lambda>p'. p'\<lparr>dtor := Some k\<rparr>) (AddTask empty_task p)"

definition all_joined :: "('f, 'c) ThreadPool \<Rightarrow> bool" where
  "all_joined p \<longleftrightarrow> (\<forall>w \<in> set (m_vThreadps p). w = Exited)"

text \<open>\<open>WaitAll\<close> returns when its loop condition is false, \<open>WaitAllUntilTimeAt\<close> waits at all only when
  its condition is true at the first test.\<close>

definition WaitAll_returns :: "('f, 'c) ThreadPool \<Rightarrow> bool" where
  "WaitAll_returns p \<longleftrightarrow> \<not> (\<not> Empty (m_bqTasks p) \<or> m_iActiveWorkersCnt p \<noteq> 0)"

definition WaitAllUntilTimeAt_waits :: "('f, 'c) ThreadPool \<Rightarrow> bool" where
  "WaitAllUntilTimeAt_waits p \<longleftrightarrow> \<not> Empty (m_bqTasks p) \<and> m_iActiveWorkersCnt p \<noteq> 0"

inductive tp_step :: "('f, 'c) ThreadPool \<Rightarrow> ('f, 'c) ThreadPool \<Rightarrow> bool" where
  add: "dtor p = None \<Longrightarrow> AddTask t p = Some p' \<Longrightarrow> tp_step p p'"
| pop: "i < length (m_vThreadps p) \<Longrightarrow> m_vThreadps p ! i = AtPop \<Longrightarrow> proc_pop i p = Some p'
    \<Longrightarrow> tp_step p p'"
| check: "i < length (m_vThreadps p) \<Longrightarrow> m_vThreadps p ! i = Got t \<Longrightarrow> tp_step p (proc_check i t p)"
| finish: "i < length (m_vThreadps p) \<Longrightarrow> m_vThreadps p ! i = Running t \<Longrightarrow> tp_step p (proc_done i t p)"
| stop: "dtor p = None \<Longrightarrow> tp_step p (dtor_stop p)"
| dtor_task: "dtor p = Some (Suc k) \<Longrightarrow> dtor_add k p = Some p' \<Longrightarrow> tp_step p p'"

inductive tp_reach :: "nat \<Rightarrow> ('f, 'c) ThreadPool \<Rightarrow> bool" for n where
  start: "n = unat (if cnt > 0 then cnt else nprocs * 2) \<Longrightarrow> tp_reach n (new_ThreadPool nprocs cnt)"
| move: "tp_reach n p \<Longrightarrow> tp_step p p' \<Longrightarrow> tp_reach n p'"

lemmas tp_defs = AddTask_def proc_pop_def proc_check_def proc_done_def dtor_stop_def dtor_add_def
  set_worker_def Pop_def Push_def bq_full_def

section \<open>Invariant\<close>

fun weight :: "('f, 'c) worker \<Rightarrow> nat" where
  "weight AtPop = 2"
| "weight (Got t) = 1"
| "weight (Running t) = 3"
| "weight Exited = 0"

fun needs_task :: "('f, 'c) worker \<Rightarrow> nat" where
  "needs_task AtPop = 1"
| "needs_task (Running t) = 1"
| "needs_task (Got t) = 0"
| "needs_task Exited = 0"

fun runs :: "('f, 'c) worker \<Rightarrow> nat" where
  "runs (Running t) = 1"
| "runs AtPop = 0"
| "runs (Got t) = 0"
| "runs Exited = 0"

text \<open>The tasks with an action a worker holds.\<close>

fun holds :: "('f, 'c) worker \<Rightarrow> ('f, 'c) Task multiset" where
  "holds (Got t) = (if action t \<noteq> None then {#t#} else {#})"
| "holds (Running t) = {#t#}"
| "holds AtPop = {#}"
| "holds Exited = {#}"

definition wsum :: "(('f, 'c) worker \<Rightarrow> 'm::comm_monoid_add) \<Rightarrow> ('f, 'c) worker list \<Rightarrow> 'm" where
  "wsum f ws = sum_list (map f ws)"

lemma sum_list_update_gen:
  "i < length xs \<Longrightarrow> sum_list (map f (xs[i := w])) + f (xs ! i)
     = sum_list (map f xs) + (f w :: 'm::comm_monoid_add)"
  by (induction xs arbitrary: i) (auto simp: nth_Cons ac_simps split: nat.splits)

lemma wsum_upd:
  "i < length ws \<Longrightarrow> ws ! i = w \<Longrightarrow> wsum f (ws[i := w']) + f w = wsum f ws + f w'"
  using sum_list_update_gen [of i ws f w'] by (auto simp: wsum_def)

definition tp_inv :: "nat \<Rightarrow> ('f, 'c) ThreadPool \<Rightarrow> bool" where
  "tp_inv n p \<longleftrightarrow> m_iQueueMaxSize (m_bqTasks p) = 0 \<and> length (m_vThreadps p) = n
     \<and> added p = fetched p @ m_queue (m_bqTasks p)
     \<and> m_iActiveWorkersCnt p = int (wsum runs (m_vThreadps p))
     \<and> (m_bStopping p \<longleftrightarrow> dtor p \<noteq> None)
     \<and> (dtor p = None \<longrightarrow> mset (filter (\<lambda>t. action t \<noteq> None) (fetched p)) = mset (finished p) + wsum holds (m_vThreadps p))
     \<and> (\<forall>k. dtor p = Some k \<longrightarrow> wsum needs_task (m_vThreadps p) \<le> length (m_queue (m_bqTasks p)) + k)
     \<and> (\<forall>w \<in> set (m_vThreadps p). \<forall>t. w = Running t \<longrightarrow> action t \<noteq> None)"

lemma wsum_needs_le: "wsum needs_task ws \<le> length ws"
proof (induction ws)
  case (Cons w ws)
  then show ?case by (cases w) (auto simp: wsum_def)
qed (simp add: wsum_def)

lemma sum_list_replicate_empty [simp]: "sum_list (replicate n {#}) = {#}"
  by (induction n) simp_all

lemma tp_inv_init: "tp_inv (unat (if cnt > 0 then cnt else nprocs * 2)) (new_ThreadPool nprocs cnt)"
  by (simp add: tp_inv_def new_ThreadPool_def new_BlockingQueue_def wsum_def Let_def sum_list_replicate)

lemma tp_inv_step: "tp_step p p' \<Longrightarrow> tp_inv n p \<Longrightarrow> tp_inv n p'"
proof (induction rule: tp_step.induct)
  case (add p t p')
  then show ?case by (auto simp: tp_inv_def tp_defs)
next
  case (pop i p p')
  then obtain t ts where q: "m_queue (m_bqTasks p) = t # ts"
    by (auto simp: tp_defs split: list.splits)
  then have p': "p' = p\<lparr>m_bqTasks := (m_bqTasks p)\<lparr>m_queue := ts\<rparr>, fetched := fetched p @ [t],
      m_vThreadps := (m_vThreadps p)[i := Got t]\<rparr>" using pop by (simp add: tp_defs)
  note u = wsum_upd [OF pop(1,2), where w' = "Got t"]
  show ?case using pop(4) q u [of runs] u [of needs_task] u [of holds]
    by (auto simp: tp_inv_def p' dest: set_update_subset_insert [THEN subsetD])
next
  case (check i p t)
  show ?case
  proof (cases "m_bStopping p")
    case True
    note u = wsum_upd [OF check(1,2), where w' = Exited]
    show ?thesis using check(3) True u [of runs] u [of needs_task]
      by (auto simp: tp_inv_def tp_defs dest: set_update_subset_insert [THEN subsetD])
  next
    case run: False
    show ?thesis
    proof (cases "action t")
      case None
      note u = wsum_upd [OF check(1,2), where w' = AtPop]
      show ?thesis using check(3) run None u [of runs] u [of holds]
        by (auto simp: tp_inv_def tp_defs dest: set_update_subset_insert [THEN subsetD])
    next
      case (Some f)
      note u = wsum_upd [OF check(1,2), where w' = "Running t"]
      show ?thesis using check(3) run Some u [of runs] u [of holds]
        by (auto simp: tp_inv_def tp_defs dest: set_update_subset_insert [THEN subsetD])
    qed
  qed
next
  case (finish i p t)
  note u = wsum_upd [OF finish(1,2), where w' = AtPop]
  have "Running t \<in> set (m_vThreadps p)" using finish(1,2) nth_mem by metis
  then have "action t \<noteq> None" using finish(3) by (auto simp: tp_inv_def)
  then show ?case using finish(3) u [of runs] u [of needs_task] u [of holds]
    by (auto simp: tp_inv_def tp_defs dest: set_update_subset_insert [THEN subsetD])
next
  case (stop p)
  then show ?case using wsum_needs_le [of "m_vThreadps p"] by (auto simp: tp_inv_def tp_defs)
next
  case (dtor_task p k p')
  then show ?case by (auto simp: tp_inv_def tp_defs empty_task_def)
qed

lemma tp_reach_inv: "tp_reach n p \<Longrightarrow> tp_inv n p"
  by (induction rule: tp_reach.induct) (use tp_inv_init tp_inv_step in blast)+

section \<open>The destructor\<close>

definition tp_measure :: "('f, 'c) ThreadPool \<Rightarrow> nat" where
  "tp_measure p = the (dtor p) + wsum weight (m_vThreadps p)"

lemma dtor_step_decreases:
  assumes "tp_step p p'" "dtor p \<noteq> None" "tp_inv n p"
  shows "tp_measure p' < tp_measure p \<and> dtor p' \<noteq> None"
  using assms
proof (induction rule: tp_step.induct)
  case (pop i p p')
  then obtain t ts where q: "m_queue (m_bqTasks p) = t # ts"
    by (auto simp: tp_defs split: list.splits)
  with wsum_upd [OF pop(1,2), of weight "Got t"] show ?case
    using pop by (auto simp: tp_measure_def tp_defs)
next
  case (check i p t)
  then have "m_bStopping p" by (simp add: tp_inv_def)
  with wsum_upd [OF check(1,2), of weight Exited] check(3) show ?case
    by (simp add: tp_measure_def tp_defs)
next
  case (finish i p t)
  with wsum_upd [OF finish(1,2), of weight AtPop] show ?case by (simp add: tp_measure_def tp_defs)
qed (auto simp: tp_measure_def tp_defs tp_inv_def split: if_splits)

lemma wsum_pos: "i < length ws \<Longrightarrow> f (ws ! i) \<le> (wsum f ws :: nat)"
  unfolding wsum_def by (rule member_le_sum_list) simp_all

lemma dtor_progress:
  assumes inv: "tp_inv n p" and d: "dtor p = Some k" and live: "\<not> (all_joined p \<and> k = 0)"
  shows "\<exists>p'. tp_step p p'"
proof (cases k)
  case (Suc k')
  have "dtor_add k' p \<noteq> None" using inv by (simp add: tp_defs tp_inv_def)
  then show ?thesis using tp_step.dtor_task d Suc by blast
next
  case 0
  then obtain i where i: "i < length (m_vThreadps p)" "m_vThreadps p ! i \<noteq> Exited"
    using live by (auto simp: all_joined_def in_set_conv_nth)
  show ?thesis
  proof (cases "m_vThreadps p ! i")
    case AtPop
    then have "m_queue (m_bqTasks p) \<noteq> []"
      using wsum_pos [OF i(1), of needs_task] inv d 0 by (auto simp: tp_inv_def)
    then have "proc_pop i p \<noteq> None" by (cases "m_queue (m_bqTasks p)") (simp_all add: tp_defs)
    then show ?thesis using tp_step.pop [OF i(1) AtPop] by blast
  next
    case (Got t)
    then show ?thesis using tp_step.check [OF i(1)] by blast
  next
    case (Running t)
    then show ?thesis using tp_step.finish [OF i(1)] by blast
  qed (use i in simp)
qed

section \<open>Properties\<close>

text \<open>C16. Until the pool is stopped, tasks are popped in the order they were added, and the popped
  tasks that have an action are exactly the ones that have been run or that a worker is about to run:
  none is lost and none is run twice. The counter of active workers is the number of running tasks.\<close>

theorem pool_runs_each_task_once:
  assumes "tp_reach n p"
  shows "added p = fetched p @ m_queue (m_bqTasks p)
     \<and> m_iActiveWorkersCnt p = int (wsum runs (m_vThreadps p))
     \<and> (m_bStopping p \<or> mset (filter (\<lambda>t. action t \<noteq> None) (fetched p)) = mset (finished p) + wsum holds (m_vThreadps p))"
  using tp_reach_inv [OF assms] by (auto simp: tp_inv_def)

text \<open>C17. The destructor ends: once it has started, every step of the workers and of the destructor
  makes \<open>tp_measure\<close> smaller, and when no step is left every worker has left its loop, so every join
  returns.\<close>

theorem pool_destructor_terminates:
  assumes "tp_reach n p" "dtor p = Some k"
  shows "(\<forall>p'. tp_step p p' \<longrightarrow> tp_measure p' < tp_measure p \<and> dtor p' \<noteq> None)
       \<and> ((\<nexists>p'. tp_step p p') \<longrightarrow> all_joined p)"
  using dtor_step_decreases dtor_progress tp_reach_inv [OF assms(1)] assms(2) by fast

section \<open>Concrete runs\<close>

definition tp_demo :: "(nat, nat) Task" where
  "tp_demo = new_Task 7 8"

text \<open>A pool of one worker that has popped the task but not yet counted itself.\<close>

definition tp_state :: "(nat, nat) worker list \<Rightarrow> (nat, nat) Task list \<Rightarrow> nat option \<Rightarrow> (nat, nat) Task list
    \<Rightarrow> (nat, nat) Task list \<Rightarrow> (nat, nat) ThreadPool" where
  "tp_state ws q d ad ft =
     \<lparr>m_bStopping = (d \<noteq> None), m_vThreadps = ws, m_bqTasks = \<lparr>m_iQueueMaxSize = 0, m_queue = q\<rparr>,
      m_iActiveWorkersCnt = 0, dtor = d, added = ad, fetched = ft, finished = []\<rparr>"

lemma tp_state_added: "tp_reach 1 (tp_state [AtPop] [tp_demo] None [tp_demo] [])"
proof -
  have a0: "tp_reach 1 (tp_state [AtPop] [] None [] [])"
    using tp_reach.start [of 1 1 0]
    by (simp add: new_ThreadPool_def new_BlockingQueue_def tp_state_def)
  show ?thesis
    using tp_reach.move [OF a0 tp_step.add [of _ tp_demo]] by (simp add: tp_state_def tp_defs)
qed

lemma tp_state_got: "tp_reach 1 (tp_state [Got tp_demo] [] None [tp_demo] [tp_demo])"
  using tp_reach.move [OF tp_state_added tp_step.pop [of 0]] by (simp add: tp_state_def tp_defs)

lemma tp_state_stopped: "tp_reach 1 (tp_state [Got tp_demo] [] (Some 1) [tp_demo] [tp_demo])"
  using tp_reach.move [OF tp_state_got tp_step.stop] by (simp add: tp_state_def tp_defs)

lemma tp_state_exit_step:
  "tp_step (tp_state [Got tp_demo] [] (Some 1) [tp_demo] [tp_demo])
     (tp_state [Exited] [] (Some 1) [tp_demo] [tp_demo])"
  using tp_step.check [of 0 "tp_state [Got tp_demo] [] (Some 1) [tp_demo] [tp_demo]" tp_demo]
  by (simp add: tp_state_def tp_defs)

lemma tp_state_joined:
  "tp_reach 1 (tp_state [Exited] [empty_task] (Some 0) [tp_demo, empty_task] [tp_demo])"
proof -
  have a1: "tp_reach 1 (tp_state [Exited] [] (Some 1) [tp_demo] [tp_demo])"
    using tp_reach.move [OF tp_state_stopped tp_state_exit_step] .
  show ?thesis
    using tp_reach.move [OF a1 tp_step.dtor_task [of _ 0]] by (simp add: tp_state_def tp_defs)
qed

theorem pool_runs_each_task_once_witness:
  "mset (filter (\<lambda>t. action t \<noteq> None) [tp_demo]) =
     mset [] + wsum holds (m_vThreadps (tp_state [Got tp_demo] [] None [tp_demo] [tp_demo]))"
  using pool_runs_each_task_once [OF tp_state_got] by (simp add: tp_state_def)

theorem pool_destructor_terminates_witness:
  "tp_measure (tp_state [Exited] [] (Some 1) [tp_demo] [tp_demo])
     < tp_measure (tp_state [Got tp_demo] [] (Some 1) [tp_demo] [tp_demo])"
  using pool_destructor_terminates [OF tp_state_stopped, of 1] tp_state_exit_step by (simp add: tp_state_def)

text \<open>\<open>WaitAll\<close> may return too early: a reachable pool has an empty queue and no active worker, so
  the wait ends, while a worker holds a task with an action that has not been run.\<close>

theorem wait_all_returns_early:
  "\<exists>p :: (nat, nat) ThreadPool. tp_reach 1 p \<and> WaitAll_returns p \<and> added p = [tp_demo] \<and> finished p = []
     \<and> m_vThreadps p = [Got tp_demo] \<and> action tp_demo = Some 7"
  by (rule exI [where x = "tp_state [Got tp_demo] [] None [tp_demo] [tp_demo]"])
     (use tp_state_got in \<open>simp add: tp_state_def WaitAll_returns_def Empty_def tp_demo_def new_Task_def\<close>)

text \<open>The destructor drops tasks: a pool whose workers have all been joined never ran a task that
  was added before the stop.\<close>

theorem destructor_drops_tasks:
  "\<exists>p :: (nat, nat) ThreadPool. tp_reach 1 p \<and> all_joined p \<and> dtor p = Some 0
     \<and> tp_demo \<in> set (added p) \<and> finished p = []"
  by (rule exI [where x = "tp_state [Exited] [empty_task] (Some 0) [tp_demo, empty_task] [tp_demo]"])
     (use tp_state_joined in \<open>simp add: tp_state_def all_joined_def\<close>)

end
