(* ===== verification/Locks.thy ===== *)
theory Locks
  imports Prelude
begin

text \<open>
  The locks of \<open>ccsys\<close>: the spin lock of \<open>spin-lock.cc\<close>, the read/write mutex of \<open>rw-mutex.h\<close> and the
  scope guards of both. A guard is the record of its members, the lock it refers to is passed beside
  it. The locale \<open>scoped_lock\<close> is the contract of a guard that is created around a block; the step
  relations \<open>spin_step\<close> and \<open>rw_step\<close> interleave any number of guards on one lock, for mutual
  exclusion.
\<close>

datatype lock_error = RuntimeError string

section \<open>Atomic operations\<close>

text \<open>The macros of \<open>ccsys/gcc-buildin.h\<close>: each gives its result and the new value of the cell.\<close>

definition atomic_cas :: "'w::len word \<Rightarrow> 'w word \<Rightarrow> 'w word \<Rightarrow> bool \<times> 'w word" where
  "atomic_cas cell expected new = (if cell = expected then (True, new) else (False, cell))"

definition atomic_zero :: "'w::len word \<Rightarrow> 'w word \<times> 'w word" where
  "atomic_zero cell = (cell, cell AND 0)"

definition atomic_fetch :: "'w::len word \<Rightarrow> 'w word \<times> 'w word" where
  "atomic_fetch cell = (cell, cell AND 1)"

definition atomic_addone_and_fetch :: "'w::len word \<Rightarrow> 'w word \<times> 'w word" where
  "atomic_addone_and_fetch cell = (cell + 1, cell + 1)"

definition atomic_subone_and_fetch :: "'w::len word \<Rightarrow> 'w word \<times> 'w word" where
  "atomic_subone_and_fetch cell = (cell - 1, cell - 1)"

definition atomic_fetch_and_set :: "'w::len word \<Rightarrow> 'w word \<Rightarrow> 'w word \<times> 'w word" where
  "atomic_fetch_and_set cell val = (cell, val)"

section \<open>Spin lock\<close>

definition UNLOCKED :: u64 where "UNLOCKED = 0"
definition LOCKED :: u64 where "LOCKED = 1"

record SpinLock =
  m_iSpin :: nat
  sl_own :: bool

definition new_SpinLock_deferred :: "nat \<Rightarrow> SpinLock" where
  "new_SpinLock_deferred spin = \<lparr>m_iSpin = 2 ^ spin, sl_own = False\<rparr>"

definition SpinLock_TryLock :: "SpinLock \<Rightarrow> u64 \<Rightarrow> lock_error + bool \<times> SpinLock \<times> u64" where
  "SpinLock_TryLock g sl =
     (if sl_own g then Inl (RuntimeError ''spin_lock_t is locked, cannot lock it again.'')
      else case atomic_cas sl UNLOCKED LOCKED of
        (ok, sl') \<Rightarrow> Inr (ok, g\<lparr>sl_own := ok\<rparr>, sl'))"

definition SpinLock_Unlock :: "SpinLock \<Rightarrow> u64 \<Rightarrow> lock_error + SpinLock \<times> u64" where
  "SpinLock_Unlock g sl =
     (if \<not> sl_own g then Inl (RuntimeError ''spin_lock_t is unlocked, cannot unlock it again.'')
      else Inr (g\<lparr>sl_own := False\<rparr>, snd (atomic_zero sl)))"

definition SpinLock_dtor :: "SpinLock \<Rightarrow> u64 \<Rightarrow> lock_error + u64" where
  "SpinLock_dtor g sl =
     (if sl_own g then (case SpinLock_Unlock g sl of Inl e \<Rightarrow> Inl e | Inr (g', sl') \<Rightarrow> Inr sl')
      else Inr sl)"

text \<open>The pauses of one round of \<open>Lock\<close>: \<open>for (n = 1; n < m_iSpin; n <<= 1)\<close> pauses \<open>n\<close> times and then
  tries again.\<close>

function backoff :: "nat \<Rightarrow> nat \<Rightarrow> nat list" where
  "backoff spin n = (if 0 < n \<and> n < spin then n # backoff spin (2 * n) else [])"
  by pat_completeness auto
termination
  by (relation "measure (\<lambda>(spin, n). spin - n)") auto

declare backoff.simps [simp del]

text \<open>\<open>Lock\<close> against a sequence of values the lock word has at its successive tries: \<open>seen i\<close> is the
  value at try \<open>i\<close>. With \<open>tries\<close> tries it has either taken the lock at the first free one or has not
  come back. A round of the endless loop has one try plus one for each pause of the back-off.\<close>

fun Lock_tries :: "(nat \<Rightarrow> u64) \<Rightarrow> nat \<Rightarrow> nat \<Rightarrow> nat option" where
  "Lock_tries seen i 0 = None"
| "Lock_tries seen i (Suc tries) =
     (if fst (atomic_cas (seen i) UNLOCKED LOCKED) then Some i else Lock_tries seen (Suc i) tries)"

definition tries_per_round :: "SpinLock \<Rightarrow> nat" where
  "tries_per_round g = Suc (length (backoff (m_iSpin g) 1))"

definition SpinLock_Lock :: "SpinLock \<Rightarrow> (nat \<Rightarrow> u64) \<Rightarrow> nat \<Rightarrow> lock_error + (nat \<times> SpinLock \<times> u64) option" where
  "SpinLock_Lock g seen rounds =
     (if sl_own g then Inl (RuntimeError ''spin_lock_t is locked, cannot lock it again.'')
      else Inr (map_option (\<lambda>i. (i, g\<lparr>sl_own := True\<rparr>, snd (atomic_cas (seen i) UNLOCKED LOCKED)))
                  (Lock_tries seen 0 (rounds * tries_per_round g))))"

lemma Lock_tries_first:
  "Lock_tries seen i k = Some j \<longleftrightarrow>
     i \<le> j \<and> j < i + k \<and> seen j = UNLOCKED \<and> (\<forall>l. i \<le> l \<and> l < j \<longrightarrow> seen l \<noteq> UNLOCKED)"
proof (induction k arbitrary: i)
  case (Suc k)
  show ?case
  proof (cases "seen i = UNLOCKED")
    case True
    then show ?thesis by (auto simp: atomic_cas_def le_eq_less_or_eq)
  next
    case False
    have "i \<le> l \<longleftrightarrow> l = i \<or> Suc i \<le> l" for l by auto
    with False have "(i \<le> j \<and> j < i + Suc k \<and> seen j = UNLOCKED \<and> (\<forall>l. i \<le> l \<and> l < j \<longrightarrow> seen l \<noteq> UNLOCKED))
      \<longleftrightarrow> (Suc i \<le> j \<and> j < Suc i + k \<and> seen j = UNLOCKED \<and> (\<forall>l. Suc i \<le> l \<and> l < j \<longrightarrow> seen l \<noteq> UNLOCKED))"
      by auto
    then show ?thesis using Suc.IH [of "Suc i"] False by (simp add: atomic_cas_def)
  qed
qed simp

lemma backoff_power:
  "j \<le> k \<Longrightarrow> length (backoff (2 ^ k) (2 ^ j)) = k - j \<and> sum_list (backoff (2 ^ k) (2 ^ j)) = 2 ^ k - 2 ^ j"
proof (induction "k - j" arbitrary: j)
  case 0
  then show ?case by (simp add: backoff.simps)
next
  case (Suc d)
  then have lt: "j < k" and "d = k - Suc j" by simp_all
  with Suc.hyps(1) [of "Suc j"] have IH: "length (backoff (2 ^ k) (2 ^ Suc j)) = k - Suc j"
    "sum_list (backoff (2 ^ k) (2 ^ Suc j)) = 2 ^ k - 2 ^ Suc j" by simp_all
  have "backoff (2 ^ k) (2 ^ j) = 2 ^ j # backoff (2 ^ k) (2 ^ Suc j)"
    using lt by (subst backoff.simps) simp
  moreover have "(2::nat) ^ Suc j \<le> 2 ^ k" using lt by (intro power_increasing) auto
  ultimately show ?case using IH lt by simp
qed

section \<open>The contract of a scope guard\<close>

text \<open>A guard that tries to take the lock when a block is entered and destroys itself at its end:
  \<open>enter\<close> gives whether the lock was taken and the new lock state, \<open>leave\<close> is the destructor of a guard
  that owns the lock or not.\<close>

locale scoped_lock =
  fixes enter :: "'m \<Rightarrow> bool \<times> 'm"
    and leave :: "bool \<Rightarrow> 'm \<Rightarrow> 'm"
  assumes leave_taken: "enter m = (True, m') \<Longrightarrow> leave True m' = m"
    and enter_refused: "enter m = (False, m') \<Longrightarrow> m' = m"
    and leave_refused: "leave False m = m"
begin

text \<open>A block under the guard, and blocks nested in each other.\<close>

definition scope :: "('m \<Rightarrow> 'm) \<Rightarrow> 'm \<Rightarrow> 'm" where
  "scope body m = (case enter m of (own, m') \<Rightarrow> leave own (body m'))"

lemma scope_restores:
  assumes "\<And>m. body m = m"
  shows "scope body m = m"
proof (cases "enter m")
  case (Pair own m')
  then show ?thesis
    using leave_taken [of m m'] enter_refused [of m m'] leave_refused assms
    by (cases own) (simp_all add: scope_def)
qed

lemma nested_scopes_restore: "(scope ^^ n) (\<lambda>m. m) m = m"
proof (induction n arbitrary: m)
  case (Suc n)
  then show ?case using scope_restores [of "(scope ^^ n) (\<lambda>m. m)"] by simp
qed simp

end

definition SpinLock_enter :: "u64 \<Rightarrow> bool \<times> u64" where
  "SpinLock_enter sl =
     (case SpinLock_TryLock (new_SpinLock_deferred 11) sl of
        Inl e \<Rightarrow> (False, sl) | Inr (ok, g, sl') \<Rightarrow> (ok, sl'))"

definition SpinLock_leave :: "bool \<Rightarrow> u64 \<Rightarrow> u64" where
  "SpinLock_leave own sl =
     (case SpinLock_dtor ((new_SpinLock_deferred 11)\<lparr>sl_own := own\<rparr>) sl of Inl e \<Rightarrow> sl | Inr sl' \<Rightarrow> sl')"

lemmas spin_defs = SpinLock_TryLock_def SpinLock_Unlock_def SpinLock_dtor_def atomic_cas_def
  atomic_zero_def new_SpinLock_deferred_def UNLOCKED_def LOCKED_def

interpretation spin_scope: scoped_lock SpinLock_enter SpinLock_leave
  by unfold_locales (auto simp: SpinLock_enter_def SpinLock_leave_def spin_defs split: if_splits)

section \<open>Read/write mutex\<close>

text \<open>The POSIX lock behind \<open>RwMutex\<close>: the number of holders of the read lock and whether the write lock
  is held. A lock call succeeds, has to wait, or fails with an error number; \<open>max_rd\<close> is the largest
  number of readers the implementation allows.\<close>

record pthread_rwlock =
  readers :: nat
  writer :: bool

datatype rw_result = Taken pthread_rwlock | Blocked | Failed int

definition EAGAIN :: int where "EAGAIN = 11"
definition EPERM :: int where "EPERM = 1"

definition pthread_rwlock_rdlock :: "nat \<Rightarrow> pthread_rwlock \<Rightarrow> rw_result" where
  "pthread_rwlock_rdlock max_rd l =
     (if writer l then Blocked
      else if max_rd \<le> readers l then Failed EAGAIN
      else Taken (l\<lparr>readers := readers l + 1\<rparr>))"

definition pthread_rwlock_wrlock :: "pthread_rwlock \<Rightarrow> rw_result" where
  "pthread_rwlock_wrlock l =
     (if writer l \<or> readers l \<noteq> 0 then Blocked else Taken (l\<lparr>writer := True\<rparr>))"

definition pthread_rwlock_unlock :: "pthread_rwlock \<Rightarrow> rw_result" where
  "pthread_rwlock_unlock l =
     (if writer l then Taken (l\<lparr>writer := False\<rparr>)
      else if readers l \<noteq> 0 then Taken (l\<lparr>readers := readers l - 1\<rparr>)
      else Failed EPERM)"

text \<open>What a call of \<open>RwMutex\<close> comes to: it returns, it waits, or it ends the process.\<close>

datatype 'a call = Returns 'a | Waits | Exits int | Throws lock_error

fun exit_on_error :: "rw_result \<Rightarrow> pthread_rwlock call" where
  "exit_on_error (Taken l) = Returns l"
| "exit_on_error Blocked = Waits"
| "exit_on_error (Failed err) = Exits err"

fun no_wait :: "pthread_rwlock \<Rightarrow> rw_result \<Rightarrow> bool \<times> pthread_rwlock" where
  "no_wait l (Taken l') = (True, l')"
| "no_wait l Blocked = (False, l)"
| "no_wait l (Failed err) = (False, l)"

definition new_RwMutex :: pthread_rwlock where
  "new_RwMutex = \<lparr>readers = 0, writer = False\<rparr>"

definition RLock :: "nat \<Rightarrow> pthread_rwlock \<Rightarrow> pthread_rwlock call" where
  "RLock max_rd l = exit_on_error (pthread_rwlock_rdlock max_rd l)"

definition TryRLock :: "nat \<Rightarrow> pthread_rwlock \<Rightarrow> bool \<times> pthread_rwlock" where
  "TryRLock max_rd l = no_wait l (pthread_rwlock_rdlock max_rd l)"

definition WLock :: "pthread_rwlock \<Rightarrow> pthread_rwlock call" where
  "WLock l = exit_on_error (pthread_rwlock_wrlock l)"

definition TryWLock :: "pthread_rwlock \<Rightarrow> bool \<times> pthread_rwlock" where
  "TryWLock l = no_wait l (pthread_rwlock_wrlock l)"

definition UnLock :: "pthread_rwlock \<Rightarrow> pthread_rwlock call" where
  "UnLock l = exit_on_error (pthread_rwlock_unlock l)"

text \<open>The guards \<open>ReadLock\<close> and \<open>WriteLock\<close>; their state is the flag \<open>m_bOwnLock\<close>.\<close>

definition ReadLock_new :: "nat \<Rightarrow> pthread_rwlock \<Rightarrow> (bool \<times> pthread_rwlock) call" where
  "ReadLock_new max_rd l =
     (case RLock max_rd l of Returns l' \<Rightarrow> Returns (True, l') | Waits \<Rightarrow> Waits | Exits e \<Rightarrow> Exits e | Throws t \<Rightarrow> Throws t)"

definition ReadLock_new_deferred :: "pthread_rwlock \<Rightarrow> bool \<times> pthread_rwlock" where
  "ReadLock_new_deferred l = (False, l)"

definition ReadLock_TryLock :: "nat \<Rightarrow> bool \<Rightarrow> pthread_rwlock \<Rightarrow> (bool \<times> pthread_rwlock) call" where
  "ReadLock_TryLock max_rd own l =
     (if own then Throws (RuntimeError ''ReadLock is locked, cannot lock it again.'')
      else Returns (TryRLock max_rd l))"

definition ReadLock_Lock :: "nat \<Rightarrow> bool \<Rightarrow> pthread_rwlock \<Rightarrow> (bool \<times> pthread_rwlock) call" where
  "ReadLock_Lock max_rd own l =
     (if own then Throws (RuntimeError ''ReadLock is locked, cannot lock it again.'')
      else case RLock max_rd l of Returns l' \<Rightarrow> Returns (own, l') | Waits \<Rightarrow> Waits | Exits e \<Rightarrow> Exits e | Throws t \<Rightarrow> Throws t)"

definition ReadLock_Unlock :: "bool \<Rightarrow> pthread_rwlock \<Rightarrow> (bool \<times> pthread_rwlock) call" where
  "ReadLock_Unlock own l =
     (if \<not> own then Throws (RuntimeError ''ReadLock is unlocked, cannot unlock it again.'')
      else case UnLock l of Returns l' \<Rightarrow> Returns (False, l') | Waits \<Rightarrow> Waits | Exits e \<Rightarrow> Exits e | Throws t \<Rightarrow> Throws t)"

definition ReadLock_dtor :: "bool \<Rightarrow> pthread_rwlock \<Rightarrow> (bool \<times> pthread_rwlock) call" where
  "ReadLock_dtor own l = (if own then ReadLock_Unlock own l else Returns (own, l))"

definition WriteLock_new :: "pthread_rwlock \<Rightarrow> (bool \<times> pthread_rwlock) call" where
  "WriteLock_new l =
     (case WLock l of Returns l' \<Rightarrow> Returns (True, l') | Waits \<Rightarrow> Waits | Exits e \<Rightarrow> Exits e | Throws t \<Rightarrow> Throws t)"

definition WriteLock_new_deferred :: "pthread_rwlock \<Rightarrow> bool \<times> pthread_rwlock" where
  "WriteLock_new_deferred l = (False, l)"

definition WriteLock_TryLock :: "bool \<Rightarrow> pthread_rwlock \<Rightarrow> (bool \<times> pthread_rwlock) call" where
  "WriteLock_TryLock own l =
     (if own then Throws (RuntimeError ''WriteLock is locked, cannot lock it again.'')
      else Returns (TryWLock l))"

definition WriteLock_Lock :: "bool \<Rightarrow> pthread_rwlock \<Rightarrow> (bool \<times> pthread_rwlock) call" where
  "WriteLock_Lock own l =
     (if own then Throws (RuntimeError ''WriteLock is locked, cannot lock it again.'')
      else case WLock l of Returns l' \<Rightarrow> Returns (own, l') | Waits \<Rightarrow> Waits | Exits e \<Rightarrow> Exits e | Throws t \<Rightarrow> Throws t)"

definition WriteLock_Unlock :: "bool \<Rightarrow> pthread_rwlock \<Rightarrow> (bool \<times> pthread_rwlock) call" where
  "WriteLock_Unlock own l =
     (if \<not> own then Throws (RuntimeError ''WriteLock is unlocked, cannot unlock it again.'')
      else case UnLock l of Returns l' \<Rightarrow> Returns (False, l') | Waits \<Rightarrow> Waits | Exits e \<Rightarrow> Exits e | Throws t \<Rightarrow> Throws t)"

definition WriteLock_dtor :: "bool \<Rightarrow> pthread_rwlock \<Rightarrow> (bool \<times> pthread_rwlock) call" where
  "WriteLock_dtor own l = (if own then WriteLock_Unlock own l else Returns (own, l))"

definition ReadLock_enter :: "nat \<Rightarrow> pthread_rwlock \<Rightarrow> bool \<times> pthread_rwlock" where
  "ReadLock_enter max_rd l =
     (case ReadLock_TryLock max_rd (fst (ReadLock_new_deferred l)) l of Returns r \<Rightarrow> r | _ \<Rightarrow> (False, l))"

definition ReadLock_leave :: "bool \<Rightarrow> pthread_rwlock \<Rightarrow> pthread_rwlock" where
  "ReadLock_leave own l = (case ReadLock_dtor own l of Returns r \<Rightarrow> snd r | _ \<Rightarrow> l)"

definition WriteLock_enter :: "pthread_rwlock \<Rightarrow> bool \<times> pthread_rwlock" where
  "WriteLock_enter l =
     (case WriteLock_TryLock (fst (WriteLock_new_deferred l)) l of Returns r \<Rightarrow> r | _ \<Rightarrow> (False, l))"

definition WriteLock_leave :: "bool \<Rightarrow> pthread_rwlock \<Rightarrow> pthread_rwlock" where
  "WriteLock_leave own l = (case WriteLock_dtor own l of Returns r \<Rightarrow> snd r | _ \<Rightarrow> l)"

lemmas rw_defs = pthread_rwlock_rdlock_def pthread_rwlock_wrlock_def pthread_rwlock_unlock_def
  RLock_def TryRLock_def WLock_def TryWLock_def UnLock_def

lemmas read_guard_defs = ReadLock_new_def ReadLock_new_deferred_def ReadLock_TryLock_def
  ReadLock_Lock_def ReadLock_Unlock_def ReadLock_dtor_def

lemmas write_guard_defs = WriteLock_new_def WriteLock_new_deferred_def WriteLock_TryLock_def
  WriteLock_Lock_def WriteLock_Unlock_def WriteLock_dtor_def

interpretation read_scope: scoped_lock "ReadLock_enter max_rd" ReadLock_leave
  by unfold_locales
     (auto simp: ReadLock_enter_def ReadLock_leave_def rw_defs read_guard_defs split: if_splits)

interpretation write_scope: scoped_lock WriteLock_enter WriteLock_leave
  by unfold_locales
     (auto simp: WriteLock_enter_def WriteLock_leave_def rw_defs write_guard_defs split: if_splits)

section \<open>Guards on many threads\<close>

text \<open>Any number of guards on one spin lock; a try of \<open>Lock\<close> is a \<open>TryLock\<close> that does not test the flag
  again.\<close>

inductive spin_step :: "u64 \<times> SpinLock list \<Rightarrow> u64 \<times> SpinLock list \<Rightarrow> bool" where
  new: "spin_step (sl, gs) (sl, new_SpinLock_deferred spin # gs)"
| lock: "i < length gs \<Longrightarrow> SpinLock_TryLock (gs ! i) sl = Inr (ok, g, sl')
    \<Longrightarrow> spin_step (sl, gs) (sl', gs[i := g])"
| unlock: "i < length gs \<Longrightarrow> SpinLock_Unlock (gs ! i) sl = Inr (g, sl')
    \<Longrightarrow> spin_step (sl, gs) (sl', gs[i := g])"
| destroy: "i < length gs \<Longrightarrow> SpinLock_dtor (gs ! i) sl = Inr sl'
    \<Longrightarrow> spin_step (sl, gs) (sl', gs[i := (gs ! i)\<lparr>sl_own := False\<rparr>])"

definition owners :: "('g \<Rightarrow> bool) \<Rightarrow> 'g list \<Rightarrow> nat" where
  "owners f gs = length (filter f gs)"

lemma owners_update:
  "i < length gs \<Longrightarrow> owners f (gs[i := g]) + of_bool (f (gs ! i)) = owners f gs + of_bool (f g)"
proof (induction gs arbitrary: i)
  case (Cons a gs)
  show ?case
  proof (cases i)
    case (Suc j)
    then show ?thesis using Cons.IH [of j] Cons.prems by (auto simp: owners_def)
  qed (auto simp: owners_def)
qed simp

lemma owners_pos: "i < length gs \<Longrightarrow> f (gs ! i) \<Longrightarrow> 0 < owners f gs"
  by (auto simp: owners_def filter_empty_conv)

definition spin_inv :: "u64 \<times> SpinLock list \<Rightarrow> bool" where
  "spin_inv s \<longleftrightarrow> (fst s = UNLOCKED \<and> owners sl_own (snd s) = 0)
                \<or> (fst s = LOCKED \<and> owners sl_own (snd s) = 1)"

lemma spin_step_inv: "spin_step s s' \<Longrightarrow> spin_inv s \<Longrightarrow> spin_inv s'"
proof (induction rule: spin_step.induct)
  case (new sl gs spin)
  then show ?case by (simp add: spin_inv_def owners_def new_SpinLock_deferred_def)
next
  case (lock i gs sl ok g sl')
  then show ?case using owners_update [of i gs sl_own g]
    by (auto simp: spin_inv_def spin_defs split: if_splits)
next
  case (unlock i gs sl g sl')
  then show ?case using owners_update [of i gs sl_own g] owners_pos [of i gs sl_own]
    by (auto simp: spin_inv_def spin_defs split: if_splits)
next
  case (destroy i gs sl sl')
  then show ?case
    using owners_update [of i gs sl_own "(gs ! i)\<lparr>sl_own := False\<rparr>"] owners_pos [of i gs sl_own]
    by (auto simp: spin_inv_def spin_defs split: if_splits)
qed

lemma spin_steps_inv: "spin_step\<^sup>*\<^sup>* s s' \<Longrightarrow> spin_inv s \<Longrightarrow> spin_inv s'"
  by (induction rule: rtranclp_induct) (auto dest: spin_step_inv)

text \<open>Read and write guards on one \<open>RwMutex\<close>: the state holds the flags of the read guards and of the
  write guards. The guards are built locked or take the lock by \<open>TryLock\<close>.\<close>

inductive rw_step ::
  "nat \<Rightarrow> pthread_rwlock \<times> bool list \<times> bool list \<Rightarrow> pthread_rwlock \<times> bool list \<times> bool list \<Rightarrow> bool"
  for max_rd where
  rnew: "ReadLock_new max_rd l = Returns (own, l') \<Longrightarrow> rw_step max_rd (l, rd, wr) (l', own # rd, wr)"
| rdefer: "ReadLock_new_deferred l = (own, l') \<Longrightarrow> rw_step max_rd (l, rd, wr) (l', own # rd, wr)"
| rtry: "i < length rd \<Longrightarrow> ReadLock_TryLock max_rd (rd ! i) l = Returns (own, l')
    \<Longrightarrow> rw_step max_rd (l, rd, wr) (l', rd[i := own], wr)"
| runlock: "i < length rd \<Longrightarrow> ReadLock_Unlock (rd ! i) l = Returns (own, l')
    \<Longrightarrow> rw_step max_rd (l, rd, wr) (l', rd[i := own], wr)"
| rdtor: "i < length rd \<Longrightarrow> ReadLock_dtor (rd ! i) l = Returns (own, l')
    \<Longrightarrow> rw_step max_rd (l, rd, wr) (l', rd[i := own], wr)"
| wnew: "WriteLock_new l = Returns (own, l') \<Longrightarrow> rw_step max_rd (l, rd, wr) (l', rd, own # wr)"
| wdefer: "WriteLock_new_deferred l = (own, l') \<Longrightarrow> rw_step max_rd (l, rd, wr) (l', rd, own # wr)"
| wtry: "i < length wr \<Longrightarrow> WriteLock_TryLock (wr ! i) l = Returns (own, l')
    \<Longrightarrow> rw_step max_rd (l, rd, wr) (l', rd, wr[i := own])"
| wunlock: "i < length wr \<Longrightarrow> WriteLock_Unlock (wr ! i) l = Returns (own, l')
    \<Longrightarrow> rw_step max_rd (l, rd, wr) (l', rd, wr[i := own])"
| wdtor: "i < length wr \<Longrightarrow> WriteLock_dtor (wr ! i) l = Returns (own, l')
    \<Longrightarrow> rw_step max_rd (l, rd, wr) (l', rd, wr[i := own])"

fun rw_inv :: "pthread_rwlock \<times> bool list \<times> bool list \<Rightarrow> bool" where
  "rw_inv (l, rd, wr) \<longleftrightarrow> readers l = owners id rd \<and> owners id wr = of_bool (writer l)
     \<and> (writer l \<longrightarrow> readers l = 0)"

lemma rw_step_inv: "rw_step max_rd s s' \<Longrightarrow> rw_inv s \<Longrightarrow> rw_inv s'"
proof (induction rule: rw_step.induct)
  case (rtry i rd l own l' wr)
  then show ?case using owners_update [of i rd id own] by (auto simp: rw_defs read_guard_defs split: if_splits)
next
  case (runlock i rd l own l' wr)
  then show ?case using owners_update [of i rd id own] owners_pos [of i rd id]
    by (auto simp: rw_defs read_guard_defs split: if_splits)
next
  case (rdtor i rd l own l' wr)
  then show ?case using owners_update [of i rd id own] owners_pos [of i rd id]
    by (auto simp: rw_defs read_guard_defs split: if_splits)
next
  case (wtry i wr l own l' rd)
  then show ?case using owners_update [of i wr id own] by (auto simp: rw_defs write_guard_defs split: if_splits)
next
  case (wunlock i wr l own l' rd)
  then show ?case using owners_update [of i wr id own] owners_pos [of i wr id]
    by (auto simp: rw_defs write_guard_defs split: if_splits)
next
  case (wdtor i wr l own l' rd)
  then show ?case using owners_update [of i wr id own] owners_pos [of i wr id]
    by (auto simp: rw_defs write_guard_defs split: if_splits)
qed (auto simp: rw_defs read_guard_defs write_guard_defs owners_def split: if_splits)

lemma rw_steps_inv: "(rw_step max_rd)\<^sup>*\<^sup>* s s' \<Longrightarrow> rw_inv s \<Longrightarrow> rw_inv s'"
  by (induction rule: rtranclp_induct) (auto dest: rw_step_inv)

section \<open>Properties\<close>

text \<open>C18. Mutual exclusion of the spin lock: however the guards of any number of threads lock, unlock
  and are destroyed, at most one guard owns the lock, and the lock word is \<open>LOCKED\<close> exactly when one
  does.\<close>

theorem spin_lock_mutual_exclusion:
  assumes "spin_step\<^sup>*\<^sup>* (UNLOCKED, []) (sl, gs)"
  shows "owners sl_own gs \<le> 1 \<and> (sl = LOCKED \<longleftrightarrow> owners sl_own gs = 1)"
  using spin_steps_inv [OF assms] by (auto simp: spin_inv_def owners_def UNLOCKED_def LOCKED_def)

theorem spin_lock_mutual_exclusion_witness:
  "owners sl_own [(new_SpinLock_deferred 11)\<lparr>sl_own := True\<rparr>] \<le> 1"
proof -
  have "spin_step (UNLOCKED, []) (UNLOCKED, [new_SpinLock_deferred 11])" by (rule spin_step.new)
  moreover have "spin_step (UNLOCKED, [new_SpinLock_deferred 11])
      (LOCKED, [new_SpinLock_deferred 11][0 := (new_SpinLock_deferred 11)\<lparr>sl_own := True\<rparr>])"
    by (rule spin_step.lock [where ok = True]) (simp_all add: spin_defs)
  ultimately have "spin_step\<^sup>*\<^sup>* (UNLOCKED, []) (LOCKED, [(new_SpinLock_deferred 11)\<lparr>sl_own := True\<rparr>])"
    by (simp add: rtranclp.rtrancl_into_rtrancl)
  from spin_lock_mutual_exclusion [OF this] show ?thesis by simp
qed

text \<open>\<open>Lock\<close> takes the lock at the first of its tries at which the lock word is free, and enough
  rounds reach every such try; in a round of a guard with \<open>m_iSpin\<close> equal to \<open>2 ^ k\<close> it tries \<open>k + 1\<close>
  times and pauses \<open>2 ^ k - 1\<close> times. A guard that owns the lock throws instead.\<close>

theorem spin_lock_takes_first_free:
  "(SpinLock_Lock (new_SpinLock_deferred k) seen rounds
        = Inr (Some (j, (new_SpinLock_deferred k)\<lparr>sl_own := True\<rparr>, LOCKED)) \<longleftrightarrow>
      j < rounds * Suc k \<and> seen j = UNLOCKED \<and> (\<forall>l. l < j \<longrightarrow> seen l \<noteq> UNLOCKED))
   \<and> sum_list (backoff (m_iSpin (new_SpinLock_deferred k)) 1) = 2 ^ k - 1
   \<and> SpinLock_Lock ((new_SpinLock_deferred k)\<lparr>sl_own := True\<rparr>) seen rounds
      = Inl (RuntimeError ''spin_lock_t is locked, cannot lock it again.'')"
  using backoff_power [of 0 k]
  by (auto simp: SpinLock_Lock_def tries_per_round_def Lock_tries_first new_SpinLock_deferred_def atomic_cas_def)

text \<open>C19. Read and write guards that are built locked or use \<open>TryLock\<close> keep the discipline of the mutex:
  the readers it counts are the read guards that own it, at most one write guard owns it, and never
  together with a read guard.\<close>

theorem rw_guards_exclude:
  assumes "(rw_step max_rd)\<^sup>*\<^sup>* (new_RwMutex, [], []) (l, rd, wr)"
  shows "readers l = owners id rd \<and> owners id wr \<le> 1 \<and> (owners id wr = 0 \<or> owners id rd = 0)"
  using rw_steps_inv [OF assms] by (auto simp: new_RwMutex_def owners_def)

theorem rw_guards_exclude_witness:
  "readers \<lparr>readers = 1, writer = False\<rparr> = owners id [True]"
proof -
  have "rw_step 5 (new_RwMutex, [], []) (\<lparr>readers = 1, writer = False\<rparr>, True # [], [])"
    by (rule rw_step.rnew) (simp add: read_guard_defs rw_defs new_RwMutex_def)
  then have "(rw_step 5)\<^sup>*\<^sup>* (new_RwMutex, [], []) (\<lparr>readers = 1, writer = False\<rparr>, [True], [])" by simp
  from rw_guards_exclude [OF this] show ?thesis by simp
qed

text \<open>\<open>Lock()\<close> of a guard that was built without locking takes the mutex but does not note that it
  owns it: the destructor leaves the mutex held, and \<open>Unlock()\<close> throws.\<close>

theorem guard_lock_never_released:
  assumes "readers l < max_rd" "\<not> writer l"
  shows "ReadLock_Lock max_rd False l = Returns (False, l\<lparr>readers := readers l + 1\<rparr>)
     \<and> ReadLock_dtor False (l\<lparr>readers := readers l + 1\<rparr>) = Returns (False, l\<lparr>readers := readers l + 1\<rparr>)
     \<and> ReadLock_Unlock False (l\<lparr>readers := readers l + 1\<rparr>)
         = Throws (RuntimeError ''ReadLock is unlocked, cannot unlock it again.'')
     \<and> (readers l = 0 \<longrightarrow> WriteLock_Lock False l = Returns (False, l\<lparr>writer := True\<rparr>)
         \<and> WriteLock_dtor False (l\<lparr>writer := True\<rparr>) = Returns (False, l\<lparr>writer := True\<rparr>))"
  using assms by (simp add: read_guard_defs write_guard_defs rw_defs)

theorem guard_lock_never_released_witness:
  "ReadLock_dtor False (new_RwMutex\<lparr>readers := 1\<rparr>) = Returns (False, new_RwMutex\<lparr>readers := 1\<rparr>)"
  using guard_lock_never_released [of new_RwMutex 5] by (simp add: new_RwMutex_def)

text \<open>A block under a guard that takes the lock by \<open>TryLock\<close> leaves the lock as it found it.\<close>

lemma guards_restore:
  "(spin_scope.scope ^^ n) (\<lambda>m. m) sl = sl"
  "(read_scope.scope max_rd ^^ n) (\<lambda>m. m) l = l"
  "(write_scope.scope ^^ n) (\<lambda>m. m) l = l"
  by (rule spin_scope.nested_scopes_restore read_scope.nested_scopes_restore
      write_scope.nested_scopes_restore)+

end
