(* ===== verification/Resources.thy ===== *)
theory Resources
  imports Locks
begin

text \<open>
  Shared resources: the reference counter of \<open>common/reference-counter.cc\<close> with its client, the release
  of a file event handler, the recycling pool of \<open>common/resource-pool.h\<close>, the random numbers of
  \<open>ccsys/random.h\<close> and the small helpers of \<open>common/common-utils.h\<close>.
\<close>

section \<open>Reference counter\<close>

type_synonym ReferenceCounter = u32

definition AddRef :: "ReferenceCounter \<Rightarrow> ReferenceCounter" where
  "AddRef r = snd (atomic_addone_and_fetch r)"

definition ReleaseRef :: "ReferenceCounter \<Rightarrow> ReferenceCounter" where
  "ReleaseRef r = snd (atomic_subone_and_fetch r)"

definition SetRef :: "u32 \<Rightarrow> ReferenceCounter \<Rightarrow> ReferenceCounter" where
  "SetRef val r = snd (atomic_fetch_and_set r val)"

definition GetRef :: "ReferenceCounter \<Rightarrow> u32 \<times> ReferenceCounter" where
  "GetRef r = atomic_fetch r"

lemmas ref_defs = AddRef_def ReleaseRef_def SetRef_def GetRef_def atomic_addone_and_fetch_def
  atomic_subone_and_fetch_def atomic_fetch_and_set_def atomic_fetch_def

text \<open>The handler: its counter, whether it has an event worker, and how often it has asked the worker
  to delete it and has woken it.\<close>

record AFileEventHandler =
  h_ref :: ReferenceCounter
  m_pOwnEvWorker :: bool
  del_events :: nat
  wakeups :: nat

definition new_AFileEventHandler :: AFileEventHandler where
  "new_AFileEventHandler = \<lparr>h_ref = 1, m_pOwnEvWorker = False, del_events = 0, wakeups = 0\<rparr>"

definition SetOwnWorker :: "AFileEventHandler \<Rightarrow> AFileEventHandler" where
  "SetOwnWorker h = h\<lparr>m_pOwnEvWorker := True\<rparr>"

definition Handler_AddRef :: "AFileEventHandler \<Rightarrow> AFileEventHandler" where
  "Handler_AddRef h = h\<lparr>h_ref := AddRef (h_ref h)\<rparr>"

definition Handler_Release :: "AFileEventHandler \<Rightarrow> AFileEventHandler" where
  "Handler_Release h =
     (let r = ReleaseRef (h_ref h);
          (v, r) = GetRef r;
          h = h\<lparr>h_ref := r\<rparr>
      in if v = 0
         then (if m_pOwnEvWorker h then h\<lparr>del_events := del_events h + 1, wakeups := wakeups h + 1\<rparr> else h)
         else h)"

section \<open>Resource pool\<close>

record 'a ResourcePool =
  m_iMaxResCnt :: u32
  m_iCurResCnt :: u32
  m_freeRes :: "'a list"

definition new_ResourcePool :: "u32 \<Rightarrow> 'a ResourcePool" where
  "new_ResourcePool maxResCnt = \<lparr>m_iMaxResCnt = maxResCnt, m_iCurResCnt = 0, m_freeRes = []\<rparr>"

text \<open>\<open>fresh\<close> is the object \<open>new T()\<close> gives. Erasing the first element of an empty list is undefined,
  \<open>None\<close>.\<close>

definition ResourcePool_Get :: "'a \<Rightarrow> 'a ResourcePool \<Rightarrow> ('a \<times> 'a ResourcePool) option" where
  "ResourcePool_Get fresh p =
     (if m_iCurResCnt p = 0 then Some (fresh, p)
      else case m_freeRes p of
        [] \<Rightarrow> None
      | res # rest \<Rightarrow> Some (res, p\<lparr>m_freeRes := rest\<rparr>))"

text \<open>\<open>release\<close> is the resource's \<open>Release\<close>; the list is what the call deletes.\<close>

definition ResourcePool_Put :: "('a \<Rightarrow> 'a) \<Rightarrow> 'a \<Rightarrow> 'a ResourcePool \<Rightarrow> 'a ResourcePool \<times> 'a list" where
  "ResourcePool_Put release res p =
     (if m_iCurResCnt p < m_iMaxResCnt p then (p\<lparr>m_freeRes := m_freeRes p @ [release res]\<rparr>, [])
      else (p, [res]))"

definition ResourcePool_Count :: "'a ResourcePool \<Rightarrow> u32" where
  "ResourcePool_Count p = m_iCurResCnt p"

definition ResourcePool_Empty :: "'a ResourcePool \<Rightarrow> bool" where
  "ResourcePool_Empty p \<longleftrightarrow> 0 = m_iCurResCnt p"

definition ResourcePool_dtor :: "'a ResourcePool \<Rightarrow> 'a list" where
  "ResourcePool_dtor p = (if m_iCurResCnt p \<noteq> 0 then m_freeRes p else [])"

datatype 'a pool_call = CallGet 'a | CallPut 'a

fun pool_calls :: "('a \<Rightarrow> 'a) \<Rightarrow> 'a pool_call list \<Rightarrow> 'a ResourcePool \<Rightarrow> ('a list \<times> 'a ResourcePool) option" where
  "pool_calls release [] p = Some ([], p)"
| "pool_calls release (CallGet fresh # cs) p =
     (case ResourcePool_Get fresh p of
        None \<Rightarrow> None
      | Some (r, p') \<Rightarrow> map_option (\<lambda>(rs, q). (r # rs, q)) (pool_calls release cs p'))"
| "pool_calls release (CallPut res # cs) p = pool_calls release cs (fst (ResourcePool_Put release res p))"

fun gets :: "'a pool_call list \<Rightarrow> 'a list" where
  "gets [] = []" | "gets (CallGet f # cs) = f # gets cs" | "gets (CallPut r # cs) = gets cs"

fun puts :: "'a pool_call list \<Rightarrow> 'a list" where
  "puts [] = []" | "puts (CallGet f # cs) = puts cs" | "puts (CallPut r # cs) = r # puts cs"

lemma pool_calls_fresh:
  "m_iCurResCnt p = 0 \<Longrightarrow> m_iMaxResCnt p \<noteq> 0 \<Longrightarrow>
   pool_calls release cs p = Some (gets cs, p\<lparr>m_freeRes := m_freeRes p @ map release (puts cs)\<rparr>)"
proof (induction cs arbitrary: p)
  case (Cons c cs)
  then show ?case
    by (cases c) (simp_all add: ResourcePool_Get_def ResourcePool_Put_def word_gt_0)
qed simp

section \<open>Random numbers\<close>

record Range =
  r_start :: int
  r_end :: int

definition INVALID_RANGE :: int where "INVALID_RANGE = -1"

definition new_Range0 :: Range where
  "new_Range0 = \<lparr>r_start = INVALID_RANGE, r_end = INVALID_RANGE\<rparr>"

text \<open>A failed \<open>assert\<close> is \<open>None\<close>.\<close>

definition new_Range :: "int \<Rightarrow> int \<Rightarrow> Range option" where
  "new_Range s e = (if s < e \<and> s > 0 \<and> e > 0 then Some \<lparr>r_start = s, r_end = e\<rparr> else None)"

definition check_range :: "Range \<Rightarrow> bool" where
  "check_range r = (\<not> (INVALID_RANGE = r_start r \<or> INVALID_RANGE = r_end r))"

text \<open>\<open>rnd\<close> is what \<open>rand()\<close> returns; it is not negative.\<close>

definition Random_GetNew :: "int \<Rightarrow> Range \<Rightarrow> int" where
  "Random_GetNew rnd r = (if check_range r then rnd mod (r_end r - r_start r) + r_start r else rnd)"

section \<open>Helpers\<close>

definition IsPowerOfTwo :: "int \<Rightarrow> bool" where
  "IsPowerOfTwo x \<longleftrightarrow> x > 0 \<and> x AND (x - 1) = 0"

definition isspace :: "char \<Rightarrow> bool" where
  "isspace c \<longleftrightarrow> c = CHR '' '' \<or> (9 \<le> (of_char c :: nat) \<and> of_char c \<le> (13 :: nat))"

definition ltrim :: "string \<Rightarrow> string" where
  "ltrim s = dropWhile isspace s"

definition rtrim :: "string \<Rightarrow> string" where
  "rtrim s = rev (dropWhile isspace (rev s))"

definition trim :: "string \<Rightarrow> string" where
  "trim s = rtrim (ltrim s)"

lemma and_pred_power: "(2 :: int) ^ k AND (2 ^ k - 1) = 0"
  by (rule bit_eqI) (auto simp: bit_simps simp flip: mask_eq_exp_minus_1)

lemma and_pred_zero_imp_power: "0 < x \<Longrightarrow> x AND (x - 1) = 0 \<Longrightarrow> \<exists>k. x = (2 :: int) ^ k"
proof (induction "nat x" arbitrary: x rule: less_induct)
  case less
  show ?case
  proof (cases "even x")
    case True
    then obtain y where y: "x = 2 * y" by blast
    have "(2 * y - 1) div 2 = y - 1" by presburger
    then have "x AND (x - 1) = 2 * (y AND (y - 1))"
      unfolding y using and_int_rec [of "2 * y" "2 * y - 1"] by simp
    then have "y AND (y - 1) = 0" using less.prems by simp
    moreover have "0 < y" "nat y < nat x" using less.prems y by simp_all
    ultimately obtain k where "y = 2 ^ k" using less.hyps by blast
    then have "x = 2 ^ Suc k" using y by simp
    then show ?thesis by blast
  next
    case False
    then obtain y where y: "x = 2 * y + 1" using oddE by blast
    then have "x AND (x - 1) = 2 * y"
      using and_int_rec [of "2 * y + 1" "2 * y"] by simp
    then have "x = 2 ^ 0" using less.prems y by simp
    then show ?thesis by blast
  qed
qed

section \<open>Properties\<close>

text \<open>Reading a reference count destroys it: \<open>GetRef\<close> gives the count but leaves only its lowest
  bit. A handler whose one extra reference is given back is deleted at its last release, as it should;
  with three extra references it asks for its deletion at the second of its four releases.\<close>

theorem handler_deleted_while_referenced:
  "GetRef r = (r, r AND 1)
   \<and> del_events (Handler_Release (Handler_AddRef (SetOwnWorker new_AFileEventHandler))) = 0
   \<and> del_events ((Handler_Release ^^ 2) (Handler_AddRef (SetOwnWorker new_AFileEventHandler))) = 1
   \<and> del_events ((Handler_Release ^^ 2) ((Handler_AddRef ^^ 3) (SetOwnWorker new_AFileEventHandler))) = 1"
proof -
  have "GetRef r = (r, r AND 1)" by (simp add: ref_defs)
  moreover have "del_events (Handler_Release (Handler_AddRef (SetOwnWorker new_AFileEventHandler))) = 0"
    "del_events ((Handler_Release ^^ 2) (Handler_AddRef (SetOwnWorker new_AFileEventHandler))) = 1"
    "del_events ((Handler_Release ^^ 2) ((Handler_AddRef ^^ 3) (SetOwnWorker new_AFileEventHandler))) = 1"
    by code_simp+
  ultimately show ?thesis by simp
qed

text \<open>The counter of the resource pool never moves: whatever is got from and put into a new pool
  with a maximum other than 0, every \<open>Get\<close> gives a new object and none that was put back, the free
  list grows with every \<open>Put\<close> without regard to the maximum, and the destructor deletes nothing.\<close>

theorem resource_pool_never_recycles:
  assumes "mx \<noteq> 0"
  shows "\<exists>p. pool_calls release cs (new_ResourcePool mx) = Some (gets cs, p)
           \<and> ResourcePool_Count p = 0 \<and> m_freeRes p = map release (puts cs) \<and> ResourcePool_dtor p = []"
  using pool_calls_fresh [of "new_ResourcePool mx" release cs] assms
  by (simp add: new_ResourcePool_def ResourcePool_Count_def ResourcePool_dtor_def)

theorem resource_pool_never_recycles_witness:
  "\<exists>p. pool_calls id [CallPut 1, CallPut 2, CallGet (3 :: nat)] (new_ResourcePool 1) = Some ([3], p)
      \<and> m_freeRes p = [1, 2]"
  using resource_pool_never_recycles [of 1 id "[CallPut 1, CallPut 2, CallGet (3 :: nat)]"] by auto

text \<open>A random number over a valid range lies in it, its end excluded.\<close>

theorem random_in_range:
  assumes "new_Range s e = Some r" "0 \<le> rnd"
  shows "s \<le> Random_GetNew rnd r \<and> Random_GetNew rnd r < e"
proof -
  have r: "r = \<lparr>r_start = s, r_end = e\<rparr>" "0 < s" "s < e"
    using assms by (auto simp: new_Range_def split: if_splits)
  then have "s \<le> rnd mod (e - s) + s \<and> rnd mod (e - s) + s < e"
    using pos_mod_sign [of "e - s" rnd] pos_mod_bound [of "e - s" rnd] by linarith
  then show ?thesis using r by (simp add: Random_GetNew_def check_range_def INVALID_RANGE_def)
qed

theorem random_in_range_witness:
  "10 \<le> Random_GetNew 12345 \<lparr>r_start = 10, r_end = 20\<rparr> \<and> Random_GetNew 12345 \<lparr>r_start = 10, r_end = 20\<rparr> < 20"
  using random_in_range [of 10 20 "\<lparr>r_start = 10, r_end = 20\<rparr>" 12345] by (simp add: new_Range_def)

text \<open>\<open>IsPowerOfTwo\<close> holds of the powers of two and of nothing else.\<close>

theorem is_power_of_two_correct: "IsPowerOfTwo x \<longleftrightarrow> (\<exists>k. x = 2 ^ k)"
  using and_pred_power and_pred_zero_imp_power by (auto simp: IsPowerOfTwo_def)

text \<open>Trimming removes exactly the white space at the ends: what is left neither starts nor ends
  with white space, and the string is the trimmed one between two runs of white space.\<close>

theorem trim_correct:
  "\<exists>a b. s = a @ trim s @ b \<and> list_all isspace a \<and> list_all isspace b
     \<and> (trim s \<noteq> [] \<longrightarrow> \<not> isspace (hd (trim s)) \<and> \<not> isspace (last (trim s)))"
proof -
  let ?l = "ltrim s"
  define a where "a = takeWhile isspace s"
  define b where "b = rev (takeWhile isspace (rev ?l))"
  have sa: "s = a @ ?l" by (simp add: a_def ltrim_def)
  have "rev ?l = rev b @ dropWhile isspace (rev ?l)" by (simp add: b_def)
  then have lb: "?l = trim s @ b" by (simp add: trim_def rtrim_def flip: rev_append)
       (metis rev_append rev_rev_ident)
  have "list_all isspace a" "list_all isspace b"
    by (auto simp: a_def b_def list_all_iff dest: set_takeWhileD)
  moreover have "\<not> isspace (last (trim s))" if "trim s \<noteq> []"
    using that hd_dropWhile [of isspace "rev ?l"] by (simp add: trim_def rtrim_def last_rev)
  moreover have "\<not> isspace (hd (trim s))" if "trim s \<noteq> []"
  proof -
    have "hd ?l = hd (trim s)" using lb that by (metis hd_append2)
    moreover have "?l \<noteq> []" using lb that by auto
    ultimately show ?thesis using hd_dropWhile [of isspace s] by (simp add: ltrim_def)
  qed
  ultimately show ?thesis using sa lb by (metis append.assoc)
qed

theorem trim_correct_witness:
  "\<exists>a b. '' ab '' = a @ trim '' ab '' @ b \<and> list_all isspace a \<and> list_all isspace b"
  using trim_correct [of "'' ab ''"] by blast

end
