(* ===== verification/Timers.thy ===== *)
theory Timers
  imports Locks "HOL-Library.Signed_Division"
begin

text \<open>
  Points in time of \<open>ccsys/cctime.h\<close> and the timer of \<open>ccsys/timer.cc\<close>. \<open>long\<close> is the mathematical
  integer: an overflow of a signed sum is undefined in the sources and does not happen for times of
  this age. The two containers of the timer are lists in the order of their keys, with the searches a
  \<open>std::map\<close> and \<open>std::multimap\<close> make through the given comparison; an iterator is the handle of the
  entry it points to. Every operation holds the timer's spin lock from beginning to end.
\<close>

section \<open>Points in time\<close>

datatype cctime = cctime (sec: int) (nsec: int)

definition get_total_nsecs :: "cctime \<Rightarrow> int" where
  "get_total_nsecs t = sec t * 1000000000 + nsec t"

text \<open>\<open>l += r\<close>; division and remainder of the language round to zero.\<close>

definition cctime_add :: "cctime \<Rightarrow> cctime \<Rightarrow> cctime" where
  "cctime_add l r =
     cctime (sec l + (sec r + (nsec l + nsec r) sdiv 1000000000)) ((nsec l + nsec r) smod 1000000000)"

definition cctime_gt :: "cctime \<Rightarrow> cctime \<Rightarrow> bool" where
  "cctime_gt a b \<longleftrightarrow> sec a > sec b \<or> (sec a = sec b \<and> nsec a > nsec b)"

definition cctime_le :: "cctime \<Rightarrow> cctime \<Rightarrow> bool" where
  "cctime_le a b \<longleftrightarrow> \<not> cctime_gt a b"

definition cctime_lt :: "cctime \<Rightarrow> cctime \<Rightarrow> bool" where
  "cctime_lt a b \<longleftrightarrow> sec a < sec b \<or> (sec a = sec b \<and> nsec a < nsec b)"

definition cctime_ge :: "cctime \<Rightarrow> cctime \<Rightarrow> bool" where
  "cctime_ge a b \<longleftrightarrow> \<not> cctime_lt a b"

definition cctime_eq :: "cctime \<Rightarrow> cctime \<Rightarrow> bool" where
  "cctime_eq a b \<longleftrightarrow> sec a = sec b \<and> nsec a = nsec b"

definition cctime_eq_tick :: "cctime \<Rightarrow> int \<Rightarrow> bool" where
  "cctime_eq_tick b tick \<longleftrightarrow> tick = get_total_nsecs b"

definition cctime_ne :: "cctime \<Rightarrow> cctime \<Rightarrow> bool" where
  "cctime_ne a b \<longleftrightarrow> sec a \<noteq> sec b \<or> nsec a \<noteq> nsec b"

text \<open>The comparisons make the type a linear order of the library.\<close>

instantiation cctime :: linorder
begin

definition less_eq_cctime :: "cctime \<Rightarrow> cctime \<Rightarrow> bool" where
  "less_eq_cctime = cctime_le"

definition less_cctime :: "cctime \<Rightarrow> cctime \<Rightarrow> bool" where
  "less_cctime = cctime_lt"

instance
  by standard (auto simp: less_eq_cctime_def less_cctime_def cctime_le_def cctime_gt_def cctime_lt_def
      intro: cctime.expand)

end

definition normal :: "cctime \<Rightarrow> bool" where
  "normal t \<longleftrightarrow> 0 \<le> nsec t \<and> nsec t < 1000000000"

lemma cctime_less_iff: "a < b \<longleftrightarrow> sec a < sec b \<or> (sec a = sec b \<and> nsec a < nsec b)"
  by (simp add: less_cctime_def cctime_lt_def)

lemma cctime_less_eq_iff: "a \<le> b \<longleftrightarrow> sec a < sec b \<or> (sec a = sec b \<and> nsec a \<le> nsec b)"
  by (auto simp: less_eq_cctime_def cctime_le_def cctime_gt_def)

lemma cctime_ops [simp]:
  "cctime_le a b \<longleftrightarrow> a \<le> b" "cctime_lt a b \<longleftrightarrow> a < b" "cctime_gt a b \<longleftrightarrow> b < a" "cctime_ge a b \<longleftrightarrow> b \<le> a"
  "cctime_eq a b \<longleftrightarrow> a = b" "cctime_ne a b \<longleftrightarrow> a \<noteq> b"
  by (auto simp: less_eq_cctime_def less_cctime_def cctime_le_def cctime_gt_def cctime_lt_def cctime_ge_def
      cctime_eq_def cctime_ne_def intro: cctime.expand)

lemma sec_dominates:
  assumes "(s :: int) < s'" "n < K" "0 \<le> n'" "0 < K"
  shows "s * K + n < s' * K + n'"
proof -
  have "(s + 1) * K \<le> s' * K" using assms by (intro mult_right_mono) simp_all
  then show ?thesis using assms(2,3) unfolding distrib_right by linarith
qed

lemma normal_less_iff:
  assumes "normal a" "normal b"
  shows "a < b \<longleftrightarrow> get_total_nsecs a < get_total_nsecs b"
proof (cases "sec a" "sec b" rule: linorder_cases)
  case less
  then have "get_total_nsecs a < get_total_nsecs b"
    unfolding get_total_nsecs_def
    by (rule sec_dominates) (use assms in \<open>simp_all add: normal_def\<close>)
  then show ?thesis using less by (simp add: cctime_less_iff)
next
  case greater
  then have "get_total_nsecs b < get_total_nsecs a"
    unfolding get_total_nsecs_def
    by (rule sec_dominates) (use assms in \<open>simp_all add: normal_def\<close>)
  then show ?thesis using greater by (simp add: cctime_less_iff)
qed (simp add: cctime_less_iff get_total_nsecs_def)

lemma cctime_add_total: "get_total_nsecs (cctime_add l r) = get_total_nsecs l + get_total_nsecs r"
  using sdiv_mult_smod_eq [of "nsec l + nsec r" 1000000000]
  by (simp add: cctime_add_def get_total_nsecs_def algebra_simps)

lemma cctime_add_normal: "normal l \<Longrightarrow> normal r \<Longrightarrow> normal (cctime_add l r)"
  by (simp add: cctime_add_def normal_def smod_mod_positive)

section \<open>Ordered containers\<close>

text \<open>\<open>std::map::find\<close>, \<open>insert\<close> and \<open>erase\<close> by key, and \<open>std::multimap::insert\<close> and \<open>find\<close>, on the list
  of entries in the order of the container, through the comparison \<open>lt\<close>.\<close>

definition omap_find :: "('k \<Rightarrow> 'k \<Rightarrow> bool) \<Rightarrow> 'k \<Rightarrow> ('k \<times> 'v) list \<Rightarrow> 'v option" where
  "omap_find lt k es =
     (case dropWhile (\<lambda>e. lt (fst e) k) es of
        [] \<Rightarrow> None
      | e # _ \<Rightarrow> if lt k (fst e) then None else Some (snd e))"

definition omap_insert :: "('k \<Rightarrow> 'k \<Rightarrow> bool) \<Rightarrow> 'k \<Rightarrow> 'v \<Rightarrow> ('k \<times> 'v) list \<Rightarrow> ('k \<times> 'v) list" where
  "omap_insert lt k v es =
     (if omap_find lt k es \<noteq> None then es
      else takeWhile (\<lambda>e. lt (fst e) k) es @ (k, v) # dropWhile (\<lambda>e. lt (fst e) k) es)"

definition omap_erase :: "('k \<Rightarrow> 'k \<Rightarrow> bool) \<Rightarrow> 'k \<Rightarrow> ('k \<times> 'v) list \<Rightarrow> ('k \<times> 'v) list" where
  "omap_erase lt k es =
     (case dropWhile (\<lambda>e. lt (fst e) k) es of
        [] \<Rightarrow> es
      | e # rest \<Rightarrow> if lt k (fst e) then es else takeWhile (\<lambda>e. lt (fst e) k) es @ rest)"

definition mmap_insert :: "('k \<Rightarrow> 'k \<Rightarrow> bool) \<Rightarrow> 'k \<Rightarrow> 'v \<Rightarrow> ('k \<times> 'v) list \<Rightarrow> ('k \<times> 'v) list" where
  "mmap_insert lt k v es =
     takeWhile (\<lambda>e. \<not> lt k (fst e)) es @ (k, v) # dropWhile (\<lambda>e. \<not> lt k (fst e)) es"

text \<open>The entries from the found one to the end of the container, none when the key is absent.\<close>

definition mmap_find_on :: "('k \<Rightarrow> 'k \<Rightarrow> bool) \<Rightarrow> 'k \<Rightarrow> ('k \<times> 'v) list \<Rightarrow> ('k \<times> 'v) list" where
  "mmap_find_on lt k es =
     (case dropWhile (\<lambda>e. lt (fst e) k) es of
        [] \<Rightarrow> []
      | e # rest \<Rightarrow> if lt k (fst e) then [] else e # rest)"

section \<open>Timer\<close>

text \<open>A callback is the address of its function object, 0 the null pointer.\<close>

record Event =
  ev_ctx :: nat
  callback :: nat

datatype EventId = EventId (ev_when: cctime) (ev_how: nat)

definition EventId_less :: "EventId \<Rightarrow> EventId \<Rightarrow> bool" where
  "EventId_less a b \<longleftrightarrow> cctime_lt (ev_when a) (ev_when b) \<or> ev_how a < ev_how b"

text \<open>The contract of \<open>std::map\<close>: the comparison must not order two keys in use both ways. Searching a
  map whose keys break it is undefined.\<close>

definition map_contract :: "EventId \<Rightarrow> (EventId \<times> nat) list \<Rightarrow> bool" where
  "map_contract k es \<longleftrightarrow>
     (\<forall>a \<in> insert k (fst ` set es). \<forall>b \<in> insert k (fst ` set es).
        EventId_less a b \<longrightarrow> \<not> EventId_less b a)"

record Timer =
  m_stop :: bool
  m_mapSubscribedEvents :: "(cctime \<times> (nat \<times> Event)) list"
  m_mapEventsEntry :: "(EventId \<times> nat) list"
  m_pWorkThread :: bool
  next_handle :: nat

definition new_Timer :: Timer where
  "new_Timer = \<lparr>m_stop = True, m_mapSubscribedEvents = [], m_mapEventsEntry = [], m_pWorkThread = False,
                next_handle = 0\<rparr>"

definition Timer_Start :: "Timer \<Rightarrow> Timer" where
  "Timer_Start t =
     (if \<not> m_stop t then t
      else let t = t\<lparr>m_stop := False\<rparr>
           in if \<not> m_pWorkThread t then t\<lparr>m_pWorkThread := True\<rparr> else t)"

definition UnsubscribeAllEvent :: "Timer \<Rightarrow> Timer" where
  "UnsubscribeAllEvent t = t\<lparr>m_mapEventsEntry := [], m_mapSubscribedEvents := []\<rparr>"

definition Timer_Stop :: "Timer \<Rightarrow> Timer" where
  "Timer_Stop t = (UnsubscribeAllEvent t)\<lparr>m_stop := True\<rparr>"

text \<open>The destructor joins the thread through \<open>m_pWorkThread\<close>; \<open>None\<close> when there is none to join.\<close>

definition Timer_dtor :: "Timer \<Rightarrow> Timer option" where
  "Timer_dtor t =
     (let t = (if \<not> m_stop t then Timer_Stop t else t)
      in if m_pWorkThread t then Some (t\<lparr>m_pWorkThread := False\<rparr>) else None)"

text \<open>The result \<open>EventId\<close> has the time 0 when the event is already there; \<open>None\<close> is a failed
  \<open>assert\<close> or a broken contract. The search goes from the found entry to the end of the container.\<close>

definition SubscribeEventAt :: "cctime \<Rightarrow> Event \<Rightarrow> Timer \<Rightarrow> (EventId \<times> Timer) option" where
  "SubscribeEventAt w ev t =
     (if callback ev = 0 then None
      else let evId = EventId w (callback ev)
           in if \<exists>e \<in> set (mmap_find_on cctime_lt w (m_mapSubscribedEvents t)).
                   callback (snd (snd e)) = callback ev
              then Some (EventId (cctime 0 0) (callback ev), t)
              else if \<not> map_contract evId (m_mapEventsEntry t) then None
              else let h = next_handle t
                   in Some (EventId w (callback ev),
                        t\<lparr>m_mapSubscribedEvents := mmap_insert cctime_lt w (h, ev) (m_mapSubscribedEvents t),
                          m_mapEventsEntry := omap_insert EventId_less evId h (m_mapEventsEntry t),
                          next_handle := h + 1\<rparr>))"

text \<open>\<open>now\<close> is the time \<open>clock_gettime\<close> gives.\<close>

definition SubscribeEventAfter :: "cctime \<Rightarrow> cctime \<Rightarrow> Event \<Rightarrow> Timer \<Rightarrow> (EventId \<times> Timer) option" where
  "SubscribeEventAfter now duration ev t =
     (if callback ev = 0 then None else SubscribeEventAt (cctime_add now duration) ev t)"

definition UnsubscribeEvent :: "EventId \<Rightarrow> Timer \<Rightarrow> (bool \<times> Timer) option" where
  "UnsubscribeEvent eventId t =
     (if cctime_eq_tick (ev_when eventId) 0 \<or> ev_how eventId = 0 then Some (False, t)
      else if \<not> map_contract eventId (m_mapEventsEntry t) then None
      else case omap_find EventId_less eventId (m_mapEventsEntry t) of
        Some h \<Rightarrow>
          Some (True, t\<lparr>m_mapSubscribedEvents := filter (\<lambda>e. fst (snd e) \<noteq> h) (m_mapSubscribedEvents t),
                   m_mapEventsEntry := omap_erase EventId_less eventId (m_mapEventsEntry t)\<rparr>)
      | None \<Rightarrow> Some (False, t))"

text \<open>The inner loop of \<open>process\<close>: the events it calls and the timer after it. \<open>clock i\<close> is the time at
  its \<open>i\<close>-th test.\<close>

function process_due :: "(nat \<Rightarrow> cctime) \<Rightarrow> nat \<Rightarrow> Timer \<Rightarrow> Event list \<times> Timer" where
  "process_due clock i t =
     (case m_mapSubscribedEvents t of
        [] \<Rightarrow> ([], t)
      | (w, h, ev) # rest \<Rightarrow>
          if cctime_gt w (clock i) then ([], t)
          else let evId = EventId w (callback ev);
                   t' = t\<lparr>m_mapEventsEntry := omap_erase EventId_less evId (m_mapEventsEntry t),
                          m_mapSubscribedEvents := rest\<rparr>;
                   (evs, t'') = process_due clock (Suc i) t'
               in (ev # evs, t''))"
  by pat_completeness auto
termination
  by (relation "measure (\<lambda>(clock, i, t). length (m_mapSubscribedEvents t))") auto

declare process_due.simps [simp del]

text \<open>What the thread does after the loop: it ends, sleeps until it is notified, or until a time.\<close>

datatype timer_wait = ThreadEnds | WaitForNotify | WaitUntil int

definition process_wait :: "Timer \<Rightarrow> timer_wait" where
  "process_wait t =
     (if m_stop t then ThreadEnds
      else case m_mapSubscribedEvents t of
        [] \<Rightarrow> WaitForNotify
      | e # _ \<Rightarrow> WaitUntil (get_total_nsecs (fst e)))"

section \<open>Laws of the ordered containers\<close>

lemma mmap_insert_set: "set (mmap_insert lt k v es) = insert (k, v) (set es)"
proof -
  have "set (takeWhile P es) \<union> set (dropWhile P es) = set es" for P :: "'a \<times> 'b \<Rightarrow> bool"
    by (metis set_append takeWhile_dropWhile_id)
  then show ?thesis by (auto simp: mmap_insert_def)
qed

lemma mmap_insert_distinct:
  assumes "distinct (map f es)" "f (k, v) \<notin> f ` set es"
  shows "distinct (map f (mmap_insert lt k v es))"
proof -
  let ?P = "\<lambda>e. \<not> lt k (fst e)"
  have "distinct (map f (takeWhile ?P es @ dropWhile ?P es))" using assms by simp
  moreover have "f (k, v) \<notin> f ` set (takeWhile ?P es @ dropWhile ?P es)" using assms by simp
  ultimately show ?thesis unfolding mmap_insert_def map_append
    by (auto simp: distinct_append dest: set_takeWhileD set_dropWhileD)
qed

lemma mmap_insert_filter:
  assumes "\<not> Q (k, v)" "\<And>e. e \<in> set es \<Longrightarrow> Q e"
  shows "filter Q (mmap_insert lt k v es) = es"
proof -
  let ?P = "\<lambda>e. \<not> lt k (fst e)"
  have "filter Q (mmap_insert lt k v es) = filter Q (takeWhile ?P es @ dropWhile ?P es)"
    unfolding mmap_insert_def filter_append using assms(1) by simp
  also have "\<dots> = es" using assms(2) by (simp add: filter_id_conv)
  finally show ?thesis .
qed

lemma mmap_insert_sorted:
  assumes "sorted (map fst es)"
  shows "sorted (map fst (mmap_insert (<) (k :: 'k::linorder) v es))"
proof -
  let ?P = "\<lambda>e. \<not> k < fst e"
  have "sorted (map fst (takeWhile ?P es @ dropWhile ?P es))" using assms by simp
  then have parts: "sorted (map fst (takeWhile ?P es))" "sorted (map fst (dropWhile ?P es))"
    unfolding map_append by (auto simp: sorted_append)
  have low: "\<forall>e \<in> set (takeWhile ?P es). fst e \<le> k" by (auto dest: set_takeWhileD)
  have high: "\<forall>e \<in> set (dropWhile ?P es). k \<le> fst e"
  proof (cases "dropWhile ?P es")
    case (Cons e rest)
    then have "k < fst e" using hd_dropWhile [of ?P es] by simp
    then show ?thesis using parts(2) Cons by fastforce
  next
    case Nil
    show ?thesis unfolding Nil by simp
  qed
  show ?thesis using parts low high by (fastforce simp: mmap_insert_def sorted_append)
qed

lemma mmap_find_on_mem:
  assumes "sorted (map fst es)" "(k, v) \<in> set es"
  shows "(k, v) \<in> set (mmap_find_on (<) (k :: 'k::linorder) es)"
proof -
  let ?P = "\<lambda>e. fst e < k"
  have in_drop: "(k, v) \<in> set (dropWhile ?P es)"
  proof (rule ccontr)
    assume "(k, v) \<notin> set (dropWhile ?P es)"
    then have "(k, v) \<in> set (takeWhile ?P es)"
      using assms(2) by (metis Un_iff set_append takeWhile_dropWhile_id)
    then show False using set_takeWhileD by fastforce
  qed
  then obtain e rest where er: "dropWhile ?P es = e # rest" by (cases "dropWhile ?P es") auto
  have "sorted (map fst (e # rest))"
    using assms(1) er by (metis dropWhile_eq_drop drop_map sorted_wrt_drop)
  then have "fst e \<le> k" using in_drop er by fastforce
  then show ?thesis using in_drop er by (auto simp: mmap_find_on_def)
qed

lemma map_contract_mono:
  assumes "map_contract k es" and sub: "insert k' (fst ` set es') \<subseteq> insert k (fst ` set es)"
  shows "map_contract k' es'"
  unfolding map_contract_def
proof (intro ballI impI)
  fix a b assume "a \<in> insert k' (fst ` set es')" "b \<in> insert k' (fst ` set es')" "EventId_less a b"
  with assms(1) [unfolded map_contract_def] sub [THEN subsetD] show "\<not> EventId_less b a" by metis
qed

lemma EventId_less_irrefl [simp]: "\<not> EventId_less a a"
  by (simp add: EventId_less_def)

lemma EventId_total: "a \<noteq> b \<Longrightarrow> EventId_less a b \<or> EventId_less b a"
  by (cases a; cases b) (auto simp: EventId_less_def)

lemma EventId_trans:
  "EventId_less a b \<Longrightarrow> \<not> EventId_less b a \<Longrightarrow> EventId_less b c \<Longrightarrow> \<not> EventId_less c b \<Longrightarrow> EventId_less a c"
  by (auto simp: EventId_less_def)

lemma split_at_insert:
  assumes "\<not> P y"
  shows "dropWhile P (takeWhile P xs @ y # zs) = y # zs"
    and "takeWhile P (takeWhile P xs @ y # zs) = takeWhile P xs"
proof -
  have "\<And>x. x \<in> set (takeWhile P xs) \<Longrightarrow> P x" by (rule set_takeWhileD [THEN conjunct2])
  then show "dropWhile P (takeWhile P xs @ y # zs) = y # zs"
    "takeWhile P (takeWhile P xs @ y # zs) = takeWhile P xs"
    using assms by (simp_all add: dropWhile_append2 takeWhile_append2)
qed

lemma omap_find_insert:
  "omap_find EventId_less k es = None \<Longrightarrow> omap_find EventId_less k (omap_insert EventId_less k v es) = Some v"
  by (simp add: omap_insert_def) (simp add: omap_find_def split_at_insert)

lemma omap_erase_insert:
  "omap_find EventId_less k es = None \<Longrightarrow> omap_erase EventId_less k (omap_insert EventId_less k v es) = es"
  by (simp add: omap_insert_def) (simp add: omap_erase_def split_at_insert)

lemma omap_find_None: "k \<notin> fst ` set es \<Longrightarrow> omap_find EventId_less k es = None"
proof (cases "dropWhile (\<lambda>e. EventId_less (fst e) k) es")
  case (Cons e rest)
  assume k: "k \<notin> fst ` set es"
  have "e \<in> set es" using Cons by (metis list.set_intros(1) set_dropWhileD)
  then have "fst e \<noteq> k" using k by auto
  moreover have "\<not> EventId_less (fst e) k" using Cons hd_dropWhile [of "\<lambda>e. EventId_less (fst e) k" es] by simp
  ultimately have "EventId_less k (fst e)" using EventId_total by blast
  then show ?thesis using Cons by (simp add: omap_find_def)
next
  case Nil
  show ?thesis unfolding omap_find_def Nil by simp
qed

text \<open>The events table holds the identifiers in the order of their comparison.\<close>

abbreviation table_sorted :: "(EventId \<times> nat) list \<Rightarrow> bool" where
  "table_sorted es \<equiv> sorted_wrt EventId_less (map fst es)"

lemma table_sorted_distinct: "table_sorted es \<Longrightarrow> distinct (map fst es)"
  by (induction es) auto

lemma omap_insert_sorted:
  assumes "table_sorted es" "map_contract k es"
  shows "table_sorted (omap_insert EventId_less k v es)"
proof (cases "omap_find EventId_less k es")
  case None
  let ?P = "\<lambda>e. EventId_less (fst e) k"
  have "table_sorted (takeWhile ?P es @ dropWhile ?P es)" using assms by simp
  then have parts: "table_sorted (takeWhile ?P es)" "table_sorted (dropWhile ?P es)"
    "\<forall>x \<in> set (takeWhile ?P es). \<forall>y \<in> set (dropWhile ?P es). EventId_less (fst x) (fst y)"
    unfolding map_append by (auto simp: sorted_wrt_append)
  have high: "\<forall>e \<in> set (dropWhile ?P es). EventId_less k (fst e)"
  proof (cases "dropWhile ?P es")
    case (Cons e rest)
    then have ke: "EventId_less k (fst e)" using None by (simp add: omap_find_def split: if_splits)
    have sub: "set (e # rest) \<subseteq> set es" using Cons by (metis set_dropWhileD subsetI)
    have "EventId_less k (fst f)" if "f \<in> set rest" for f
    proof -
      have ef: "EventId_less (fst e) (fst f)" using parts(2) Cons that by simp
      have "\<not> EventId_less (fst e) k" "\<not> EventId_less (fst f) (fst e)"
        using assms(2) ke ef sub that by (auto simp: map_contract_def)
      with ke ef show ?thesis using EventId_trans by blast
    qed
    then show ?thesis using Cons ke by simp
  next
    case Nil
    show ?thesis unfolding Nil by simp
  qed
  have low: "\<forall>e \<in> set (takeWhile ?P es). EventId_less (fst e) k" by (auto dest: set_takeWhileD)
  show ?thesis using parts low high None by (auto simp: omap_insert_def sorted_wrt_append)
qed (use assms in \<open>simp add: omap_insert_def\<close>)

lemma omap_insert_set:
  "omap_find EventId_less k es = None \<Longrightarrow> set (omap_insert EventId_less k v es) = insert (k, v) (set es)"
  by (simp add: omap_insert_def) (metis Un_insert_right set_append takeWhile_dropWhile_id)

lemma omap_erase_present:
  assumes "table_sorted (xs @ (k, h) # ys)" "map_contract k (xs @ (k, h) # ys)"
  shows "omap_find EventId_less k (xs @ (k, h) # ys) = Some h"
    and "omap_erase EventId_less k (xs @ (k, h) # ys) = xs @ ys"
proof -
  have "\<And>e. e \<in> set xs \<Longrightarrow> EventId_less (fst e) k" using assms(1) by (auto simp: sorted_wrt_append)
  then have "dropWhile (\<lambda>e. EventId_less (fst e) k) (xs @ (k, h) # ys) = (k, h) # ys"
    "takeWhile (\<lambda>e. EventId_less (fst e) k) (xs @ (k, h) # ys) = xs"
    by (simp_all add: dropWhile_append2 takeWhile_append2)
  then show "omap_find EventId_less k (xs @ (k, h) # ys) = Some h"
    "omap_erase EventId_less k (xs @ (k, h) # ys) = xs @ ys"
    by (simp_all add: omap_find_def omap_erase_def)
qed

lemma omap_find_Some:
  assumes "omap_find EventId_less k es = Some h"
  shows "(k, h) \<in> set es"
proof -
  obtain e rest where d: "dropWhile (\<lambda>e. EventId_less (fst e) k) es = e # rest"
    and e: "\<not> EventId_less k (fst e)" "snd e = h"
    using assms by (auto simp: omap_find_def split: list.splits if_splits)
  then have "\<not> EventId_less (fst e) k" using hd_dropWhile [of "\<lambda>e. EventId_less (fst e) k" es] by simp
  then have "fst e = k" using e EventId_total by blast
  moreover have "e \<in> set es" using d by (metis list.set_intros(1) set_dropWhileD)
  ultimately show ?thesis using e by auto
qed

section \<open>Invariant of the timer\<close>

text \<open>The events are in the order of their times; the table has exactly the identifiers of the events,
  each with the handle of its event, in the order of the identifiers; handles are never used twice.\<close>

definition timer_inv :: "Timer \<Rightarrow> bool" where
  "timer_inv t \<longleftrightarrow> sorted (map fst (m_mapSubscribedEvents t))
     \<and> distinct (map (fst \<circ> snd) (m_mapSubscribedEvents t))
     \<and> (\<forall>(w, h, ev) \<in> set (m_mapSubscribedEvents t). h < next_handle t)
     \<and> set (m_mapEventsEntry t) =
         (\<lambda>(w, h, ev). (EventId w (callback ev), h)) ` set (m_mapSubscribedEvents t)
     \<and> table_sorted (m_mapEventsEntry t)
     \<and> (\<forall>k \<in> fst ` set (m_mapEventsEntry t). map_contract k (m_mapEventsEntry t))"

lemma cctime_lt_less: "cctime_lt = (<)"
  unfolding less_cctime_def ..

lemma subscribe_cases:
  assumes inv: "timer_inv t" and sub: "SubscribeEventAt w ev t = Some (i, t')"
  obtains (present) "t' = t" "ev_when i = cctime 0 0"
  | (accepted) "i = EventId w (callback ev)" "callback ev \<noteq> 0" "map_contract i (m_mapEventsEntry t)"
      "omap_find EventId_less i (m_mapEventsEntry t) = None"
      "t' = t\<lparr>m_mapSubscribedEvents := mmap_insert (<) w (next_handle t, ev) (m_mapSubscribedEvents t),
              m_mapEventsEntry := omap_insert EventId_less i (next_handle t) (m_mapEventsEntry t),
              next_handle := next_handle t + 1\<rparr>"
proof (cases "\<exists>e \<in> set (mmap_find_on cctime_lt w (m_mapSubscribedEvents t)). callback (snd (snd e)) = callback ev")
  case True
  then show ?thesis using sub present by (auto simp: SubscribeEventAt_def split: if_splits)
next
  case False
  let ?k = "EventId w (callback ev)"
  have srt: "sorted (map fst (m_mapSubscribedEvents t))" using inv by (simp add: timer_inv_def)
  have "?k \<notin> fst ` set (m_mapEventsEntry t)"
  proof
    assume "?k \<in> fst ` set (m_mapEventsEntry t)"
    then obtain h ev' where "(w, h, ev') \<in> set (m_mapSubscribedEvents t)" "callback ev' = callback ev"
      using inv by (auto simp: timer_inv_def)
    then show False using mmap_find_on_mem [OF srt] False by (fastforce simp: cctime_lt_less)
  qed
  then have "omap_find EventId_less ?k (m_mapEventsEntry t) = None" by (rule omap_find_None)
  with accepted show ?thesis
    using sub False by (auto simp: SubscribeEventAt_def Let_def cctime_lt_less split: if_splits)
qed

lemma fresh_handle:
  "timer_inv t \<Longrightarrow> e \<in> set (m_mapSubscribedEvents t) \<Longrightarrow> fst (snd e) \<noteq> next_handle t"
  by (fastforce simp: timer_inv_def)

lemma subscribe_inv:
  assumes inv: "timer_inv t" and sub: "SubscribeEventAt w ev t = Some (i, t')"
  shows "timer_inv t'"
  using assms
proof (cases rule: subscribe_cases)
  case present
  then show ?thesis using inv by simp
next
  case accepted
  let ?k = i and ?h = "next_handle t"
  note con = accepted(3) and none = accepted(4) and t' = accepted(5)
  have srt: "sorted (map fst (m_mapSubscribedEvents t))" using inv by (simp add: timer_inv_def)
  have ev': "set (m_mapSubscribedEvents t') = insert (w, ?h, ev) (set (m_mapSubscribedEvents t))"
    using t' by (simp add: mmap_insert_set)
  have tb': "set (m_mapEventsEntry t') = insert (?k, ?h) (set (m_mapEventsEntry t))"
    using t' by (simp add: omap_insert_set [OF none])
  have dist: "distinct (map (fst \<circ> snd) (m_mapSubscribedEvents t'))"
  proof -
    have "(fst \<circ> snd) (w, ?h, ev) \<notin> (fst \<circ> snd) ` set (m_mapSubscribedEvents t)"
      using fresh_handle [OF inv] by fastforce
    moreover have "distinct (map (fst \<circ> snd) (m_mapSubscribedEvents t))" using inv by (simp add: timer_inv_def)
    ultimately have "distinct (map (fst \<circ> snd) (mmap_insert (<) w (?h, ev) (m_mapSubscribedEvents t)))"
      by (intro mmap_insert_distinct)
    then show ?thesis unfolding t' by simp
  qed
  have con': "map_contract k (m_mapEventsEntry t')" if "k \<in> fst ` set (m_mapEventsEntry t')" for k
    using con that unfolding map_contract_def tb' by auto
  have "table_sorted (m_mapEventsEntry t')" "sorted (map fst (m_mapSubscribedEvents t'))"
    using t' inv con srt by (simp_all add: omap_insert_sorted mmap_insert_sorted timer_inv_def)
  then show ?thesis
    unfolding timer_inv_def ev' tb' using dist con' inv t' tb' accepted(1) by (auto simp: timer_inv_def)
qed

text \<open>Taking one event and its identifier out of both containers.\<close>

definition drop_event :: "EventId \<Rightarrow> nat \<Rightarrow> Timer \<Rightarrow> Timer" where
  "drop_event k h t =
     t\<lparr>m_mapSubscribedEvents := filter (\<lambda>e. fst (snd e) \<noteq> h) (m_mapSubscribedEvents t),
       m_mapEventsEntry := omap_erase EventId_less k (m_mapEventsEntry t)\<rparr>"

lemma drop_event_inv:
  assumes inv: "timer_inv t" and kh: "(k, h) \<in> set (m_mapEventsEntry t)"
  shows "timer_inv (drop_event k h t)"
proof -
  let ?ev = "m_mapSubscribedEvents t" and ?tb = "m_mapEventsEntry t"
  define F :: "cctime \<times> nat \<times> Event \<Rightarrow> EventId \<times> nat" where "F = (\<lambda>(w, h, ev). (EventId w (callback ev), h))"
  have F: "snd (F e) = fst (snd e)" for e by (cases e) (simp add: F_def)
  obtain xs ys where tb: "?tb = xs @ (k, h) # ys" using kh by (auto simp: in_set_conv_decomp)
  have srt: "table_sorted ?tb" and con: "\<forall>k \<in> fst ` set ?tb. map_contract k ?tb"
    using inv by (auto simp: timer_inv_def)
  then have er: "omap_erase EventId_less k ?tb = xs @ ys"
    using omap_erase_present(2) [of xs k h ys] tb by (metis image_eqI fst_conv kh)
  have img: "set ?tb = F ` set ?ev"
    using inv by (simp add: timer_inv_def F_def)
  have inj: "inj_on (fst \<circ> snd) (set ?ev)" using inv by (simp add: timer_inv_def distinct_map)
  have kd: "distinct (map fst ?tb)" using table_sorted_distinct [OF srt] .
  have hk: "fst e = k" if "e \<in> set ?tb" "snd e = h" for e
  proof -
    from that img obtain w ev where 1: "(w, h, ev) \<in> set ?ev" "fst e = EventId w (callback ev)"
      by (auto simp: F_def)
    from kh img obtain w' ev' where 2: "(w', h, ev') \<in> set ?ev" "k = EventId w' (callback ev')"
      by (auto simp: F_def)
    have "(w, h, ev) = (w', h, ev')" by (rule inj_onD [OF inj]) (use 1 2 in simp_all)
    then show ?thesis using 1 2 by simp
  qed
  have "k \<notin> fst ` set xs" "k \<notin> fst ` set ys" using kd unfolding tb by simp_all
  then have "(k, h) \<notin> set xs" "(k, h) \<notin> set ys" by (force simp only: image_iff fst_conv)+
  then have "set (xs @ ys) = set ?tb - {(k, h)}" unfolding tb by auto
  also have "\<dots> = {e \<in> set ?tb. snd e \<noteq> h}"
  proof (rule set_eqI)
    fix e
    show "e \<in> set ?tb - {(k, h)} \<longleftrightarrow> e \<in> {e \<in> set ?tb. snd e \<noteq> h}" using hk [of e] by (cases e) auto
  qed
  finally have tb': "set (xs @ ys) = F ` {e \<in> set ?ev. fst (snd e) \<noteq> h}"
    unfolding img using F by auto
  have "table_sorted (xs @ ys)" using srt tb by (auto simp: sorted_wrt_append)
  moreover have "map_contract k' (xs @ ys)" if "k' \<in> fst ` set (xs @ ys)" for k'
    by (rule map_contract_mono [of k ?tb]) (use con kh that tb in force)+
  moreover have "sorted (map fst (filter (\<lambda>e. fst (snd e) \<noteq> h) ?ev))"
    using inv by (simp add: timer_inv_def sorted_filter)
  moreover have "distinct (map (fst \<circ> snd) (filter (\<lambda>e. fst (snd e) \<noteq> h) ?ev))"
    using inv by (simp add: timer_inv_def distinct_map_filter)
  ultimately show ?thesis
    using inv tb' [unfolded F_def] unfolding timer_inv_def drop_event_def er by auto
qed

lemma UnsubscribeEvent_alt:
  "UnsubscribeEvent k t =
     (if cctime_eq_tick (ev_when k) 0 \<or> ev_how k = 0 then Some (False, t)
      else if \<not> map_contract k (m_mapEventsEntry t) then None
      else case omap_find EventId_less k (m_mapEventsEntry t) of
        Some h \<Rightarrow> Some (True, drop_event k h t) | None \<Rightarrow> Some (False, t))"
  unfolding UnsubscribeEvent_def drop_event_def ..

lemma unsubscribe_inv:
  assumes "timer_inv t" "UnsubscribeEvent k t = Some (b, t')"
  shows "timer_inv t'"
  using assms
  by (auto simp: UnsubscribeEvent_alt intro: drop_event_inv omap_find_Some split: if_splits option.splits)

lemma head_drop_event:
  assumes "timer_inv t" "m_mapSubscribedEvents t = (w, h, ev) # rest"
  shows "t\<lparr>m_mapEventsEntry := omap_erase EventId_less (EventId w (callback ev)) (m_mapEventsEntry t),
           m_mapSubscribedEvents := rest\<rparr> = drop_event (EventId w (callback ev)) h t"
    and "(EventId w (callback ev), h) \<in> set (m_mapEventsEntry t)"
proof -
  have "filter (\<lambda>e. fst (snd e) \<noteq> h) rest = rest"
  proof -
    have "h \<notin> (fst \<circ> snd) ` set rest" using assms by (simp add: timer_inv_def)
    then show ?thesis by (auto simp: filter_id_conv image_iff)
  qed
  then show "t\<lparr>m_mapEventsEntry := omap_erase EventId_less (EventId w (callback ev)) (m_mapEventsEntry t),
      m_mapSubscribedEvents := rest\<rparr> = drop_event (EventId w (callback ev)) h t"
    using assms(2) by (simp add: drop_event_def)
  show "(EventId w (callback ev), h) \<in> set (m_mapEventsEntry t)"
    using assms by (auto simp: timer_inv_def)
qed

lemma process_due_eqs:
  "m_mapSubscribedEvents t = [] \<Longrightarrow> process_due clock i t = ([], t)"
  "m_mapSubscribedEvents t = (w, h, ev) # rest \<Longrightarrow> clock i < w \<Longrightarrow> process_due clock i t = ([], t)"
  "m_mapSubscribedEvents t = (w, h, ev) # rest \<Longrightarrow> \<not> clock i < w \<Longrightarrow>
   process_due clock i t =
     (let r = process_due clock (Suc i)
        (t\<lparr>m_mapEventsEntry := omap_erase EventId_less (EventId w (callback ev)) (m_mapEventsEntry t),
           m_mapSubscribedEvents := rest\<rparr>)
      in (ev # fst r, snd r))"
  by (subst process_due.simps, simp add: Let_def split: prod.split)+

lemma process_due_inv: "timer_inv t \<Longrightarrow> timer_inv (snd (process_due clock i t))"
proof (induction "m_mapSubscribedEvents t" arbitrary: t i)
  case Nil
  then show ?case by (simp add: process_due_eqs)
next
  case (Cons e rest)
  obtain w h ev where e: "e = (w, h, ev)" by (cases e) auto
  have ev: "m_mapSubscribedEvents t = (w, h, ev) # rest" using Cons(2) e by simp
  note d = head_drop_event [OF Cons.prems ev]
  show ?case
  proof (cases "clock i < w")
    case False
    let ?t = "drop_event (EventId w (callback ev)) h t"
    have "rest = m_mapSubscribedEvents ?t" unfolding d(1) [symmetric] by simp
    from Cons.hyps(1) [OF this drop_event_inv [OF Cons.prems d(2)], of "Suc i"] show ?thesis
      unfolding process_due_eqs(3) [where clock = clock and i = i, OF ev False] d(1) Let_def snd_conv .
  qed (use Cons.prems in \<open>simp add: process_due_eqs(2) [OF ev]\<close>)
qed

lemma process_due_fires:
  "(\<And>j. clock j = now) \<Longrightarrow>
   fst (process_due clock i t) = map (snd \<circ> snd) (takeWhile (\<lambda>e. fst e \<le> now) (m_mapSubscribedEvents t))
   \<and> m_mapSubscribedEvents (snd (process_due clock i t)) = dropWhile (\<lambda>e. fst e \<le> now) (m_mapSubscribedEvents t)"
proof (induction "m_mapSubscribedEvents t" arbitrary: t i)
  case Nil
  then show ?case by (simp add: process_due_eqs)
next
  case (Cons e rest)
  obtain w h ev where e: "e = (w, h, ev)" by (cases e) auto
  have ev: "m_mapSubscribedEvents t = (w, h, ev) # rest" using Cons(2) e by simp
  show ?case
  proof (cases "clock i < w")
    case True
    then show ?thesis using ev Cons.prems by (simp add: process_due_eqs(2) [OF ev])
  next
    case False
    let ?t = "t\<lparr>m_mapEventsEntry := omap_erase EventId_less (EventId w (callback ev)) (m_mapEventsEntry t),
           m_mapSubscribedEvents := rest\<rparr>"
    have "rest = m_mapSubscribedEvents ?t" by simp
    from Cons.hyps(1) [OF this Cons.prems] False Cons.prems show ?thesis
      by (simp add: process_due_eqs(3) [where clock = clock and i = i, OF ev False] Let_def ev)
  qed
qed

lemma sorted_takeWhile_filter:
  "sorted (map f es) \<Longrightarrow> takeWhile (\<lambda>e. f e \<le> (b :: 'b::linorder)) es = filter (\<lambda>e. f e \<le> b) es
    \<and> dropWhile (\<lambda>e. f e \<le> b) es = filter (\<lambda>e. b < f e) es"
proof (induction es)
  case (Cons a es)
  show ?case
  proof (cases "f a \<le> b")
    case False
    then have "\<forall>x \<in> set es. b < f x" using Cons.prems by (auto simp: not_le dest: less_le_trans)
    then show ?thesis using False by (auto simp: filter_empty_conv filter_id_conv not_le)
  qed (use Cons in simp)
qed simp

section \<open>Properties\<close>

text \<open>Addition of times adds their nanoseconds and keeps them normal, nanoseconds from 0 to 999999999,
  and the comparisons of normal times are those of their nanoseconds.\<close>

theorem cctime_arithmetic:
  assumes "normal a" "normal b"
  shows "get_total_nsecs (cctime_add a b) = get_total_nsecs a + get_total_nsecs b
     \<and> normal (cctime_add a b)
     \<and> (cctime_lt a b \<longleftrightarrow> get_total_nsecs a < get_total_nsecs b)
     \<and> (cctime_le a b \<longleftrightarrow> get_total_nsecs a \<le> get_total_nsecs b)
     \<and> (cctime_eq a b \<longleftrightarrow> get_total_nsecs a = get_total_nsecs b)"
proof -
  note less = normal_less_iff [OF assms] normal_less_iff [OF assms(2,1)]
  then have "a = b \<longleftrightarrow> get_total_nsecs a = get_total_nsecs b" by (metis neq_iff)
  then show ?thesis
    using less cctime_add_total cctime_add_normal [OF assms] by (simp flip: not_less)
qed

theorem cctime_arithmetic_witness:
  "get_total_nsecs (cctime_add (cctime 1 999999999) (cctime 2 2)) = 4000000001
   \<and> normal (cctime_add (cctime 1 999999999) (cctime 2 2))"
  using cctime_arithmetic [of "cctime 1 999999999" "cctime 2 2"]
  by (simp add: normal_def get_total_nsecs_def)

text \<open>C20. One pass of the timer thread at time \<open>now\<close> calls exactly the subscribed events whose time has
  come, in the order of their times and for equal times in the order of their subscription, and leaves
  exactly the others.\<close>

theorem timer_fires_due_events:
  assumes "timer_inv t" "\<forall>i. clock i = now"
  shows "fst (process_due clock 0 t) =
           map (snd \<circ> snd) (filter (\<lambda>e. cctime_le (fst e) now) (m_mapSubscribedEvents t))
       \<and> m_mapSubscribedEvents (snd (process_due clock 0 t)) =
           filter (\<lambda>e. cctime_gt (fst e) now) (m_mapSubscribedEvents t)
       \<and> timer_inv (snd (process_due clock 0 t))"
proof -
  have "sorted (map fst (m_mapSubscribedEvents t))" using assms(1) by (simp add: timer_inv_def)
  from sorted_takeWhile_filter [OF this, of now] process_due_fires [of clock now 0 t] process_due_inv [OF assms(1)]
  show ?thesis using assms(2) by simp
qed

text \<open>A timer with events at 5 s and at 9 s.\<close>

definition timer59 :: Timer where
  "timer59 = \<lparr>m_stop = False,
     m_mapSubscribedEvents = [(cctime 5 0, 0, \<lparr>ev_ctx = 0, callback = 1\<rparr>), (cctime 9 0, 1, \<lparr>ev_ctx = 0, callback = 2\<rparr>)],
     m_mapEventsEntry = [(EventId (cctime 5 0) 1, 0), (EventId (cctime 9 0) 2, 1)],
     m_pWorkThread = True, next_handle = 2\<rparr>"

lemma timer59_inv: "timer_inv timer59"
  by (auto simp: timer_inv_def timer59_def EventId_less_def map_contract_def cctime_less_iff
      cctime_less_eq_iff)

theorem timer_fires_due_events_witness:
  "fst (process_due (\<lambda>i. cctime 6 0) 0 timer59) = [\<lparr>ev_ctx = 0, callback = 1\<rparr>]"
  using timer_fires_due_events [OF timer59_inv, of "\<lambda>i. cctime 6 0" "cctime 6 0"]
  by (simp add: timer59_def cctime_less_eq_iff)

text \<open>A subscription can be taken back: whenever \<open>SubscribeEventAt\<close> accepts an event at a time other
  than 0, \<open>UnsubscribeEvent\<close> of the identifier it gave succeeds and both containers are as before.\<close>

theorem subscribe_unsubscribe:
  assumes "timer_inv t" "SubscribeEventAt w ev t = Some (i, t')" "ev_when i \<noteq> cctime 0 0"
    and "get_total_nsecs w \<noteq> 0"
  shows "\<exists>t''. UnsubscribeEvent i t' = Some (True, t'')
     \<and> m_mapSubscribedEvents t'' = m_mapSubscribedEvents t \<and> m_mapEventsEntry t'' = m_mapEventsEntry t"
  using assms(1,2)
proof (cases rule: subscribe_cases)
  case present
  then show ?thesis using assms(3) by simp
next
  case accepted
  let ?h = "next_handle t"
  have con: "map_contract i (m_mapEventsEntry t')"
    using accepted(3,5) omap_insert_set [OF accepted(4)] by (auto simp: map_contract_def)
  have "filter (\<lambda>e. fst (snd e) \<noteq> ?h) (mmap_insert (<) w (?h, ev) (m_mapSubscribedEvents t))
      = m_mapSubscribedEvents t"
    by (rule mmap_insert_filter) (use fresh_handle [OF assms(1)] in simp_all)
  moreover have "omap_find EventId_less i (m_mapEventsEntry t') = Some ?h"
    using accepted(5) omap_find_insert [OF accepted(4)] by simp
  ultimately show ?thesis
    using accepted con assms(4) omap_erase_insert [OF accepted(4)]
    by (simp add: UnsubscribeEvent_alt drop_event_def cctime_eq_tick_def)
qed

theorem subscribe_unsubscribe_witness:
  "\<exists>i t' t''. SubscribeEventAt (cctime 10 0) \<lparr>ev_ctx = 0, callback = 3\<rparr> timer59 = Some (i, t')
     \<and> UnsubscribeEvent i t' = Some (True, t'') \<and> m_mapSubscribedEvents t'' = m_mapSubscribedEvents timer59"
proof -
  obtain i t' where s: "SubscribeEventAt (cctime 10 0) \<lparr>ev_ctx = 0, callback = 3\<rparr> timer59 = Some (i, t')"
    and w: "ev_when i \<noteq> cctime 0 0"
    by (simp add: SubscribeEventAt_def Let_def timer59_def mmap_find_on_def map_contract_def EventId_less_def
        cctime_less_iff)
  have "get_total_nsecs (cctime 10 0) \<noteq> 0" by (simp add: get_total_nsecs_def)
  from subscribe_unsubscribe [OF timer59_inv s w this] s show ?thesis by blast
qed

text \<open>Two ordinary subscriptions can break the contract of the map of identifiers, whose comparison
  orders a pair of identifiers both ways when the earlier event has the callback at the higher address:
  the second subscription is undefined.\<close>

theorem event_id_order_undefined:
  "\<exists>t i. SubscribeEventAt (cctime 1 0) \<lparr>ev_ctx = 0, callback = 2\<rparr> new_Timer = Some (i, t)
     \<and> SubscribeEventAt (cctime 2 0) \<lparr>ev_ctx = 0, callback = 1\<rparr> t = None
     \<and> EventId_less (EventId (cctime 1 0) 2) (EventId (cctime 2 0) 1)
     \<and> EventId_less (EventId (cctime 2 0) 1) (EventId (cctime 1 0) 2)"
  by (simp add: SubscribeEventAt_def Let_def new_Timer_def mmap_find_on_def mmap_insert_def omap_insert_def
      omap_find_def map_contract_def EventId_less_def cctime_less_iff)

text \<open>An event may be refused although it is not there: the search for a duplicate does not stop at
  the entries of the same time, so a later event with the same callback counts as one.\<close>

theorem subscribe_refuses_new_event:
  "SubscribeEventAt (cctime 5 0) \<lparr>ev_ctx = 0, callback = 2\<rparr> timer59
     = Some (EventId (cctime 0 0) 2, timer59)
   \<and> EventId (cctime 5 0) 2 \<notin> fst ` set (m_mapEventsEntry timer59)"
  by (simp add: SubscribeEventAt_def Let_def timer59_def mmap_find_on_def cctime_less_iff)

text \<open>A stopped timer does not come back: \<open>Start\<close> after \<open>Stop\<close> makes no new thread, and the destructor
  of a timer that was never started joins a thread that does not exist.\<close>

lemma timer_restart_no_thread:
  "m_pWorkThread (Timer_Start (Timer_Stop (Timer_Start new_Timer))) = m_pWorkThread (Timer_Start new_Timer)"
  "Timer_dtor new_Timer = None"
  by (simp_all add: Timer_Start_def Timer_Stop_def UnsubscribeAllEvent_def new_Timer_def Timer_dtor_def Let_def)

lemma timer_life_inv:
  "timer_inv new_Timer" "timer_inv (Timer_Stop t)" "timer_inv t \<Longrightarrow> timer_inv (Timer_Start t)"
  by (auto simp: timer_inv_def new_Timer_def Timer_Stop_def UnsubscribeAllEvent_def Timer_Start_def Let_def)

end
