(* ===== verification/FileIO.thy ===== *)
theory FileIO
  imports Prelude
begin

text \<open>
  The file helpers of \<open>fsio\<close>: the loops around \<open>write\<close>, \<open>read\<close> and \<open>pread\<close> of \<open>io-utils.cc\<close> and the
  directory functions of \<open>file-utils.cc\<close>. The operating system is a parameter: a file is its bytes and
  its position, and how many bytes a call moves, or that it fails, is a function of the number of the
  call and of what it was asked for. A loop that may not end is a partial function, \<open>None\<close> when it does
  not. The lemmas give the result of each loop for every behaviour POSIX allows the calls.
\<close>

section \<open>Files\<close>

record os_file =
  f_data :: bytes
  f_pos :: nat

text \<open>The effect of a \<open>write\<close> that takes the bytes \<open>bs\<close>: they go to the position, a gap behind the end
  is filled with 0, and the position moves behind them.\<close>

definition file_put :: "bytes \<Rightarrow> os_file \<Rightarrow> os_file" where
  "file_put bs f =
     (if bs = [] then f
      else f\<lparr>f_data := take (f_pos f) (f_data f) @ replicate (f_pos f - length (f_data f)) 0 @ bs
                       @ drop (f_pos f + length bs) (f_data f),
             f_pos := f_pos f + length bs\<rparr>)"

lemma file_put_append: "file_put cs (file_put bs f) = file_put (bs @ cs) f"
proof (cases "bs = [] \<or> cs = []")
  case False
  define p where "p = f_pos f"
  define pre where "pre = take p (f_data f) @ replicate (p - length (f_data f)) 0"
  have len: "length pre = p" by (simp add: pre_def)
  have "take (p + length bs) (pre @ bs @ drop (p + length bs) (f_data f)) = pre @ bs"
    using len by simp
  moreover have "drop (p + length bs + length cs) (pre @ bs @ drop (p + length bs) (f_data f))
      = drop (p + length (bs @ cs)) (f_data f)"
    using len by (simp add: ac_simps)
  moreover have "length (pre @ bs @ drop (p + length bs) (f_data f)) \<ge> p + length bs" using len by simp
  ultimately show ?thesis
    using False by (simp add: file_put_def pre_def p_def ac_simps)
qed (auto simp: file_put_def)

section \<open>Writing\<close>

text \<open>\<open>wr i n\<close> is what the \<open>i\<close>-th \<open>write\<close> of \<open>n\<close> bytes returns, \<open>None\<close> for -1.\<close>

partial_function (option) write_loop ::
  "(nat \<Rightarrow> nat \<Rightarrow> nat option) \<Rightarrow> bytes \<Rightarrow> nat \<Rightarrow> nat \<Rightarrow> os_file \<Rightarrow> (int \<times> os_file) option" where
  "write_loop wr buf i left_size f =
     (if left_size = 0 then Some (int (length buf), f)
      else case wr i left_size of
        None \<Rightarrow> Some (-1, f)
      | Some n \<Rightarrow>
          write_loop wr buf (Suc i) (left_size - n)
            (file_put (take n (drop (length buf - left_size) buf)) f))"

text \<open>\<open>buf\<close> is \<open>None\<close> for a null pointer and otherwise the \<open>size\<close> bytes to write.\<close>

definition WriteFully :: "(nat \<Rightarrow> nat \<Rightarrow> nat option) \<Rightarrow> int \<Rightarrow> bytes option \<Rightarrow> os_file \<Rightarrow> (int \<times> os_file) option" where
  "WriteFully wr fd buf f =
     (if fd = -1 then Some (-1, f)
      else case buf of
        None \<Rightarrow> Some (-1, f)
      | Some b \<Rightarrow> if length b = 0 then Some (0, f) else write_loop wr b 0 (length b) f)"

text \<open>What POSIX promises of \<open>write\<close> to a file: it fails, or takes at least one and at most the given
  number of bytes.\<close>

definition write_contract :: "(nat \<Rightarrow> nat \<Rightarrow> nat option) \<Rightarrow> bool" where
  "write_contract wr \<longleftrightarrow> (\<forall>i n m. 0 < n \<longrightarrow> wr i n = Some m \<longrightarrow> 0 < m \<and> m \<le> n)"

lemma write_loop_result:
  assumes "write_contract wr" "k \<le> length buf"
  shows "\<exists>m r. m \<le> k \<and> write_loop wr buf i k (file_put (take (length buf - k) buf) f)
      = Some (r, file_put (take (length buf - k + m) buf) f)
      \<and> (r = int (length buf) \<and> m = k \<or> r = -1 \<and> (\<exists>j n. 0 < n \<and> wr j n = None))"
  using assms(2)
proof (induction k arbitrary: i rule: less_induct)
  case (less k)
  show ?case
  proof (cases "k = 0")
    case True
    then show ?thesis by (simp add: write_loop.simps)
  next
    case k: False
    show ?thesis
    proof (cases "wr i k")
      case None
      then have "write_loop wr buf i k g = Some (-1, g)" for g using k by (simp add: write_loop.simps)
      then show ?thesis using None k by (intro exI [where x = 0] exI [where x = "-1"]) auto
    next
      case (Some n)
      then have n: "0 < n" "n \<le> k" using assms(1) k by (auto simp: write_contract_def)
      have step: "file_put (take n (drop (length buf - k) buf)) (file_put (take (length buf - k) buf) f)
          = file_put (take (length buf - (k - n)) buf) f"
        using n less.prems by (simp add: file_put_append take_add [symmetric])
      have "k - n < k" "k - n \<le> length buf" using n less.prems by auto
      from less.IH [OF this, of "Suc i"] obtain m r where mr: "m \<le> k - n"
        "write_loop wr buf (Suc i) (k - n) (file_put (take (length buf - (k - n)) buf) f)
           = Some (r, file_put (take (length buf - (k - n) + m) buf) f)"
        "r = int (length buf) \<and> m = k - n \<or> r = -1 \<and> (\<exists>j n. 0 < n \<and> wr j n = None)" by blast
      have "write_loop wr buf i k (file_put (take (length buf - k) buf) f)
          = write_loop wr buf (Suc i) (k - n) (file_put (take (length buf - (k - n)) buf) f)"
        using k Some step by (subst write_loop.simps) simp
      also have "\<dots> = Some (r, file_put (take (length buf - k + (n + m)) buf) f)"
      proof -
        have "length buf - (k - n) + m = length buf - k + (n + m)" using n less.prems by simp
        then show ?thesis using mr(2) by (simp add: add.assoc)
      qed
      finally have "write_loop wr buf i k (file_put (take (length buf - k) buf) f)
          = Some (r, file_put (take (length buf - k + (n + m)) buf) f)" .
      moreover have "n + m \<le> k"
        "r = int (length buf) \<and> n + m = k \<or> r = -1 \<and> (\<exists>j n. 0 < n \<and> wr j n = None)"
        using mr(1,3) n by auto
      ultimately show ?thesis by blast
    qed
  qed
qed

section \<open>Reading\<close>

text \<open>\<open>rd i n\<close> bounds what the \<open>i\<close>-th \<open>read\<close> of \<open>n\<close> bytes gives, \<open>None\<close> for -1; the call gives that
  many of the bytes that are left in the file. The result is the return value, the buffer \<open>*buf\<close>, \<open>None\<close>
  when it is not set or has been freed, and the file.\<close>

definition sys_read :: "nat \<Rightarrow> nat \<Rightarrow> nat \<Rightarrow> bytes \<Rightarrow> bytes" where
  "sys_read n req off data = take (min n req) (drop off data)"

partial_function (option) read_loop ::
  "(nat \<Rightarrow> nat \<Rightarrow> nat option) \<Rightarrow> nat \<Rightarrow> nat \<Rightarrow> bytes \<Rightarrow> os_file \<Rightarrow> (int \<times> bytes option \<times> os_file) option" where
  "read_loop rd sz i buf f =
     (if sz \<le> length buf then Some (int sz, Some buf, f)
      else case rd i (sz - length buf) of
        None \<Rightarrow> Some (-1, None, f)
      | Some n \<Rightarrow>
          (let got = sys_read n (sz - length buf) (f_pos f) (f_data f)
           in if got = [] then Some (int (length buf), Some (buf @ replicate (sz - length buf) 0), f)
              else read_loop rd sz (Suc i) (buf @ got) (f\<lparr>f_pos := f_pos f + length got\<rparr>)))"

definition ReadFully ::
  "(nat \<Rightarrow> nat \<Rightarrow> nat option) \<Rightarrow> int \<Rightarrow> nat \<Rightarrow> os_file \<Rightarrow> (int \<times> bytes option \<times> os_file) option" where
  "ReadFully rd fd sz f = (if fd = -1 \<or> sz = 0 then Some (0, None, f) else read_loop rd sz 0 [] f)"

text \<open>\<open>pread\<close> at the offset of what has been read so far, so always from the start of the file.\<close>

partial_function (option) pread_loop ::
  "(nat \<Rightarrow> nat \<Rightarrow> nat option) \<Rightarrow> nat \<Rightarrow> nat \<Rightarrow> bytes \<Rightarrow> bytes \<Rightarrow> (int \<times> bytes option) option" where
  "pread_loop rd sz i buf data =
     (case rd i (sz - length buf) of
        None \<Rightarrow> Some (-1, None)
      | Some n \<Rightarrow>
          (let got = sys_read n (sz - length buf) (length buf) data
           in if got = [] then Some (int (length buf), Some (buf @ replicate (sz - length buf) 0))
              else pread_loop rd sz (Suc i) (buf @ got) data))"

definition ReadFully_V2 ::
  "(nat \<Rightarrow> nat \<Rightarrow> nat option) \<Rightarrow> int \<Rightarrow> nat \<Rightarrow> os_file \<Rightarrow> (int \<times> bytes option) option" where
  "ReadFully_V2 rd fd sz f = (if fd = -1 \<or> sz = 0 then Some (0, None) else pread_loop rd sz 0 [] (f_data f))"

text \<open>What POSIX promises of a successful \<open>read\<close>: at least one byte unless the file is at its end.\<close>

definition read_contract :: "(nat \<Rightarrow> nat \<Rightarrow> nat option) \<Rightarrow> bool" where
  "read_contract rd \<longleftrightarrow> (\<forall>i n m. 0 < n \<longrightarrow> rd i n = Some m \<longrightarrow> 0 < m)"

definition never_fails :: "(nat \<Rightarrow> nat \<Rightarrow> nat option) \<Rightarrow> bool" where
  "never_fails rd \<longleftrightarrow> (\<forall>i n. rd i n \<noteq> None)"

lemma sys_read_progress:
  assumes "0 < n" "0 < req"
  shows "sys_read n req off data = [] \<longleftrightarrow> length data \<le> off"
  using assms by (auto simp: sys_read_def)

text \<open>What a reader that has \<open>buf\<close> returns when it gets \<open>got\<close> more and no more.\<close>

definition read_result :: "nat \<Rightarrow> bytes \<Rightarrow> bytes \<Rightarrow> os_file \<Rightarrow> int \<times> bytes option \<times> os_file" where
  "read_result sz buf got f =
     (int (length (buf @ got)), Some (buf @ got @ replicate (sz - length (buf @ got)) 0),
      f\<lparr>f_pos := f_pos f + length got\<rparr>)"

lemma read_result_append:
  "read_result sz (buf @ a) b (f\<lparr>f_pos := f_pos f + length a\<rparr>) = read_result sz buf (a @ b) f"
  by (simp add: read_result_def ac_simps)

lemma read_loop_result:
  assumes "read_contract rd" "never_fails rd" "length buf \<le> sz"
  shows "read_loop rd sz i buf f
       = Some (read_result sz buf (take (sz - length buf) (drop (f_pos f) (f_data f))) f)"
  using assms(3)
proof (induction "sz - length buf" arbitrary: buf i f rule: less_induct)
  case less
  show ?case
  proof (cases "length buf = sz")
    case True
    then show ?thesis by (simp add: read_loop.simps read_result_def)
  next
    case ne: False
    let ?req = "sz - length buf"
    have req: "0 < ?req" using less.prems ne by simp
    obtain n where n: "rd i ?req = Some n" "0 < n"
      using assms(1,2) req unfolding read_contract_def never_fails_def by (metis not_None_eq)
    define got where "got = sys_read n ?req (f_pos f) (f_data f)"
    show ?thesis
    proof (cases "got = []")
      case True
      then have "length (f_data f) \<le> f_pos f" using sys_read_progress n req by (simp add: got_def)
      then show ?thesis using True n req by (subst read_loop.simps) (simp add: got_def read_result_def)
    next
      case False
      have lg: "length got \<le> ?req" "got = take (length got) (drop (f_pos f) (f_data f))"
        by (simp_all add: got_def sys_read_def min_def)
      have "sz - length (buf @ got) < sz - length buf" "length (buf @ got) \<le> sz"
        using False lg(1) req by (cases got; simp)+
      note IH = less.hyps [OF this, of "Suc i" "f\<lparr>f_pos := f_pos f + length got\<rparr>"]
      have "got @ take (?req - length got) (drop (f_pos f + length got) (f_data f))
          = take ?req (drop (f_pos f) (f_data f))"
      proof -
        have "length got + (?req - length got) = ?req" using lg(1) by simp
        then have "take ?req (drop (f_pos f) (f_data f))
            = take (length got) (drop (f_pos f) (f_data f))
              @ take (?req - length got) (drop (length got) (drop (f_pos f) (f_data f)))"
          by (metis take_add)
        then show ?thesis using lg(2) by (simp only: drop_drop add.commute)
      qed
      moreover have "read_loop rd sz i buf f
          = read_loop rd sz (Suc i) (buf @ got) (f\<lparr>f_pos := f_pos f + length got\<rparr>)"
        using False n req by (subst read_loop.simps) (simp add: got_def Let_def)
      ultimately show ?thesis using IH
        by (simp add: read_result_append diff_diff_left [symmetric] del: diff_diff_left)
    qed
  qed
qed

lemma pread_loop_result:
  assumes "read_contract rd" "never_fails rd" "buf = take k data" "length buf = k" "k \<le> sz"
  shows "pread_loop rd sz i buf data =
     (let got = take sz data in Some (int (length got), Some (got @ replicate (sz - length got) 0)))"
  using assms(3-5)
proof (induction "sz - k" arbitrary: buf k i rule: less_induct)
  case less
  obtain n where n: "rd i (sz - length buf) = Some n" using assms(2) by (auto simp: never_fails_def)
  define got where "got = sys_read n (sz - length buf) (length buf) data"
  show ?case
  proof (cases "got = []")
    case True
    have "k = sz \<or> length data \<le> k"
    proof (rule ccontr)
      assume "\<not> (k = sz \<or> length data \<le> k)"
      moreover from this have "0 < sz - length buf" using less.prems by simp
      with assms(1) n have "0 < n" unfolding read_contract_def by blast
      ultimately show False using True less.prems sys_read_progress [of n "sz - k" k data]
        by (simp add: got_def)
    qed
    then have "take sz data = buf" using less.prems by auto
    then show ?thesis using True n by (subst pread_loop.simps) (simp add: got_def Let_def)
  next
    case False
    have lg: "length got \<le> sz - k" "got = take (length got) (drop k data)"
      using less.prems by (simp_all add: got_def sys_read_def min_def)
    have "0 < length got" using False by simp
    then have "sz - (k + length got) < sz - k" "k + length got \<le> sz" using lg(1) by linarith+
    moreover have "buf @ got = take (k + length got) data" using lg(2) less.prems(1) by (simp add: take_add)
    moreover have "length (buf @ got) = k + length got" using less.prems(2) by simp
    ultimately have "pread_loop rd sz (Suc i) (buf @ got) data =
        (let got = take sz data in Some (int (length got), Some (got @ replicate (sz - length got) 0)))"
      by (intro less.hyps) simp_all
    then show ?thesis
      using False n by (subst pread_loop.simps) (simp add: got_def Let_def)
  qed
qed

section \<open>Directories\<close>

text \<open>The calls on paths, as functions of a state of the file system: the type and the size of a path, and
  \<open>mkdir\<close>, which gives 0 or the error number.\<close>

datatype ftype = IsDirectory | IsRegular | IsOther

record 'fs os_calls =
  os_stat :: "string \<Rightarrow> 'fs \<Rightarrow> (ftype \<times> int) option"
  os_mkdir :: "string \<Rightarrow> 'fs \<Rightarrow> int \<times> 'fs"

definition EEXIST :: int where "EEXIST = 17"

definition PATH_MAX :: nat where "PATH_MAX = 4096"

definition CreateDir :: "'fs os_calls \<Rightarrow> string \<Rightarrow> 'fs \<Rightarrow> int \<times> 'fs" where
  "CreateDir os dir fs =
     (case os_stat os dir fs of
        Some (t, _) \<Rightarrow> if t \<noteq> IsDirectory then (-1, fs) else (0, fs)
      | None \<Rightarrow>
          (case os_mkdir os dir fs of
             (err, fs') \<Rightarrow> if err \<noteq> 0 then (if err = EEXIST then (0, fs') else (-1, fs')) else (0, fs')))"

text \<open>The loop of \<open>CreateDirPath\<close> over the positions of the path; at a slash the path up to it is created.\<close>

fun create_prefixes :: "'fs os_calls \<Rightarrow> string \<Rightarrow> nat list \<Rightarrow> 'fs \<Rightarrow> int \<times> 'fs" where
  "create_prefixes os buffer [] fs = (0, fs)"
| "create_prefixes os buffer (p # ps) fs =
     (if buffer ! p = CHR ''/''
      then (case CreateDir os (take p buffer) fs of
              (rc, fs') \<Rightarrow> if rc = -1 then (-1, fs') else create_prefixes os buffer ps fs')
      else create_prefixes os buffer ps fs)"

definition CreateDirPath :: "'fs os_calls \<Rightarrow> string \<Rightarrow> 'fs \<Rightarrow> int \<times> 'fs" where
  "CreateDirPath os path fs =
     (let buffer = take PATH_MAX path;
          start = (if buffer \<noteq> [] \<and> hd buffer = CHR ''/'' then 1 else 0)
      in case create_prefixes os buffer [start..<length buffer] fs of
           (rc, fs') \<Rightarrow>
             if rc = -1 then (-1, fs')
             else case CreateDir os buffer fs' of (rc, fs'') \<Rightarrow> if rc = -1 then (-1, fs'') else (0, fs''))"

definition GetFileSize_path :: "'fs os_calls \<Rightarrow> string \<Rightarrow> 'fs \<Rightarrow> int" where
  "GetFileSize_path os path fs = (case os_stat os path fs of None \<Rightarrow> -1 | Some (_, n) \<Rightarrow> n)"

text \<open>\<open>fsize\<close> is what \<open>fstat\<close> of the descriptor gives.\<close>

definition GetFileSize_fd :: "int option \<Rightarrow> int \<Rightarrow> int" where
  "GetFileSize_fd fsize fd = (if 0 \<ge> fd then -1 else case fsize of None \<Rightarrow> -1 | Some n \<Rightarrow> n)"

definition IsDir :: "'fs os_calls \<Rightarrow> string \<Rightarrow> 'fs \<Rightarrow> bool" where
  "IsDir os path fs \<longleftrightarrow> (case os_stat os path fs of None \<Rightarrow> False | Some (t, _) \<Rightarrow> t = IsDirectory)"

definition IsFile :: "'fs os_calls \<Rightarrow> string \<Rightarrow> 'fs \<Rightarrow> bool" where
  "IsFile os path fs \<longleftrightarrow> (case os_stat os path fs of None \<Rightarrow> False | Some (t, _) \<Rightarrow> t = IsRegular)"

text \<open>The tree below a directory, the entries \<open>.\<close> and \<open>..\<close> left out: files, directories, and names that
  cannot be examined.\<close>

datatype node = Leaf | Stale | Dir "(string \<times> node) list"

datatype dir_call = Opendir | Stat | Unlink | Rmdir

text \<open>\<open>err path c\<close> is the error number of the call \<open>c\<close> on the path, 0 when it succeeds. The result is the
  return code and what is left of the directory; a directory that is gone leaves no entries.\<close>

function RemoveDirectory :: "(string \<Rightarrow> dir_call \<Rightarrow> int) \<Rightarrow> string \<Rightarrow> (string \<times> node) list \<Rightarrow> int \<times> (string \<times> node) list option"
  and CleanDirectory :: "(string \<Rightarrow> dir_call \<Rightarrow> int) \<Rightarrow> string \<Rightarrow> (string \<times> node) list \<Rightarrow> int \<times> (string \<times> node) list"
  and clean_entries :: "(string \<Rightarrow> dir_call \<Rightarrow> int) \<Rightarrow> string \<Rightarrow> (string \<times> node) list \<Rightarrow> int \<times> (string \<times> node) list" where
  "RemoveDirectory err path es =
     (case CleanDirectory err path es of
        (rc, es') \<Rightarrow>
          if rc = 0
          then (let rc = err path Rmdir in if rc \<noteq> 0 then (rc, Some es') else (0, None))
          else (rc, Some es'))"
| "CleanDirectory err path es =
     (if err path Opendir \<noteq> 0 then (err path Opendir, es) else clean_entries err path es)"
| "clean_entries err path [] = (0, [])"
| "clean_entries err path ((nm, x) # es) =
     (let buf = path @ ''/'' @ nm
      in case x of
           Stale \<Rightarrow> (err buf Stat, (nm, x) # es)
         | Leaf \<Rightarrow> if err buf Unlink \<noteq> 0 then (err buf Unlink, (nm, x) # es) else clean_entries err path es
         | Dir sub \<Rightarrow>
             (case RemoveDirectory err buf sub of
                (rc, None) \<Rightarrow> clean_entries err path es
              | (rc, Some sub') \<Rightarrow> (rc, (nm, Dir sub') # es)))"
  by pat_completeness auto
termination
  by (relation "measure (\<lambda>s. case s of
        Inl (err, path, es) \<Rightarrow> 3 * size_list (size_prod (\<lambda>x. 0) size) es + 2
      | Inr (Inl (err, path, es)) \<Rightarrow> 3 * size_list (size_prod (\<lambda>x. 0) size) es + 1
      | Inr (Inr (err, path, es)) \<Rightarrow> 3 * size_list (size_prod (\<lambda>x. 0) size) es)") (auto)

declare RemoveDirectory.simps [simp del] CleanDirectory.simps [simp del]

text \<open>What the directory functions rely on: a directory that \<open>mkdir\<close> makes is a directory, it refuses
  with \<open>EEXIST\<close> only what is there, and what is there stays.\<close>

definition mkdir_contract :: "'fs os_calls \<Rightarrow> bool" where
  "mkdir_contract os \<longleftrightarrow>
     (\<forall>d fs fs'. os_mkdir os d fs = (0, fs') \<longrightarrow> (\<exists>n. os_stat os d fs' = Some (IsDirectory, n)))
   \<and> (\<forall>d fs fs'. os_mkdir os d fs = (EEXIST, fs') \<longrightarrow> os_stat os d fs \<noteq> None)
   \<and> (\<forall>d fs e fs' p t. os_mkdir os d fs = (e, fs') \<longrightarrow> os_stat os p fs = Some t \<longrightarrow> os_stat os p fs' = Some t)"

lemma CreateDir_keeps:
  assumes "mkdir_contract os" "CreateDir os d fs = (rc, fs')" "os_stat os p fs = Some t"
  shows "os_stat os p fs' = Some t"
proof (cases "os_stat os d fs")
  case None
  obtain e fs1 where m: "os_mkdir os d fs = (e, fs1)" by (cases "os_mkdir os d fs") auto
  then have "fs' = fs1" using assms(2) None by (auto simp: CreateDir_def split: if_splits)
  then show ?thesis using assms(1,3) m unfolding mkdir_contract_def by blast
next
  case (Some a)
  then show ?thesis using assms(2,3) by (auto simp: CreateDir_def split: if_splits prod.splits)
qed

lemma CreateDir_ok:
  assumes con: "mkdir_contract os" and cd: "CreateDir os d fs = (rc, fs')" and "rc \<noteq> -1"
  shows "IsDir os d fs'"
proof (cases "os_stat os d fs")
  case None
  obtain e fs1 where m: "os_mkdir os d fs = (e, fs1)" by (cases "os_mkdir os d fs") auto
  have "e \<noteq> EEXIST" using con m None unfolding mkdir_contract_def by blast
  then have "e = 0" "fs' = fs1" using cd None m assms(3) by (auto simp: CreateDir_def split: if_splits)
  then show ?thesis using con m unfolding mkdir_contract_def IsDir_def by fastforce
next
  case (Some a)
  then show ?thesis using assms by (auto simp: CreateDir_def IsDir_def split: if_splits prod.splits)
qed

lemma IsDir_keeps:
  "mkdir_contract os \<Longrightarrow> CreateDir os d fs = (rc, fs') \<Longrightarrow> IsDir os p fs \<Longrightarrow> IsDir os p fs'"
  by (auto simp: IsDir_def CreateDir_keeps split: option.splits)

lemma create_prefixes_ok:
  assumes con: "mkdir_contract os" and "create_prefixes os b ps fs = (rc, fs')"
  shows "(\<forall>p t. os_stat os p fs = Some t \<longrightarrow> os_stat os p fs' = Some t)
       \<and> (rc = 0 \<or> rc = -1) \<and> (rc = 0 \<longrightarrow> (\<forall>i \<in> set ps. b ! i = CHR ''/'' \<longrightarrow> IsDir os (take i b) fs'))"
  using assms(2)
proof (induction ps arbitrary: fs)
  case (Cons p ps)
  show ?case
  proof (cases "b ! p = CHR ''/''")
    case True
    obtain r fs1 where c: "CreateDir os (take p b) fs = (r, fs1)" by fastforce
    show ?thesis
    proof (cases "r = -1")
      case True
      then show ?thesis using Cons.prems c \<open>b ! p = CHR ''/''\<close> CreateDir_keeps [OF con c] by auto
    next
      case False
      then have rest: "create_prefixes os b ps fs1 = (rc, fs')" using Cons.prems c True by simp
      have d: "IsDir os (take p b) fs1" using CreateDir_ok [OF con c False] .
      note IH = Cons.IH [OF rest]
      have "IsDir os (take p b) fs'" using d IH by (auto simp: IsDir_def split: option.splits)
      then show ?thesis using IH CreateDir_keeps [OF con c] by simp
    qed
  next
    case False
    then have rest: "create_prefixes os b ps fs = (rc, fs')" using Cons.prems by simp
    show ?thesis using Cons.IH [OF rest] False by auto
  qed
qed simp

lemma clean_zero:
  "fst (RemoveDirectory err path es) = 0 \<Longrightarrow> (\<forall>p. err p Stat \<noteq> 0) \<Longrightarrow> snd (RemoveDirectory err path es) = None"
  "fst (CleanDirectory err path es) = 0 \<Longrightarrow> (\<forall>p. err p Stat \<noteq> 0) \<Longrightarrow> snd (CleanDirectory err path es) = []"
  "fst (clean_entries err path es) = 0 \<Longrightarrow> (\<forall>p. err p Stat \<noteq> 0) \<Longrightarrow> snd (clean_entries err path es) = []"
proof (induction err path es and err path es and err path es
    rule: RemoveDirectory_CleanDirectory_clean_entries.induct)
  case (1 err path es)
  then show ?case by (auto simp: RemoveDirectory.simps Let_def split: prod.splits if_splits)
next
  case (2 err path es)
  then show ?case by (auto simp: CleanDirectory.simps split: if_splits)
next
  case (4 err path nm x es)
  then show ?case
    by (cases x) (fastforce simp: Let_def split: prod.splits option.splits if_splits)+
qed simp

section \<open>Properties\<close>

text \<open>C21. \<open>WriteFully\<close> returns, however the system splits the writes: it has written the whole buffer and
  returns its size, or a write has failed, it returns -1 and has written a prefix of the buffer.\<close>

theorem write_fully_correct:
  assumes "write_contract wr" "fd \<noteq> -1"
  shows "\<exists>m r. m \<le> length b \<and> WriteFully wr fd (Some b) f = Some (r, file_put (take m b) f)
     \<and> (r = int (length b) \<and> m = length b \<or> r = -1 \<and> (\<exists>j n. 0 < n \<and> wr j n = None))"
proof (cases "b = []")
  case True
  then show ?thesis using assms(2) by (simp add: WriteFully_def file_put_def)
next
  case False
  have "file_put [] f = f" by (simp add: file_put_def)
  then show ?thesis
    using write_loop_result [OF assms(1), of "length b" b 0 f] assms(2) False by (simp add: WriteFully_def)
qed

text \<open>A system that moves at most two bytes per call.\<close>

definition two_bytes :: "nat \<Rightarrow> nat \<Rightarrow> nat option" where
  "two_bytes i n = Some (min 2 n)"

lemma two_bytes_contract: "write_contract two_bytes" "read_contract two_bytes" "never_fails two_bytes"
  by (auto simp: two_bytes_def write_contract_def read_contract_def never_fails_def)

theorem write_fully_correct_witness:
  "WriteFully two_bytes 3 (Some [1, 2, 3]) \<lparr>f_data = [9, 9, 9, 9], f_pos = 1\<rparr>
     = Some (3, \<lparr>f_data = [9, 1, 2, 3], f_pos = 4\<rparr>)"
proof -
  have n: "\<nexists>j n. 0 < n \<and> two_bytes j n = None" by (simp add: two_bytes_def)
  obtain m r where "WriteFully two_bytes 3 (Some [1, 2, 3]) \<lparr>f_data = [9, 9, 9, 9], f_pos = 1\<rparr>
       = Some (r, file_put (take m [1, 2, 3]) \<lparr>f_data = [9, 9, 9, 9], f_pos = 1\<rparr>)" "r = 3" "m = 3"
    using write_fully_correct [OF two_bytes_contract(1), of 3 "[1, 2, 3]" "\<lparr>f_data = [9, 9, 9, 9], f_pos = 1\<rparr>"] n
    by auto
  then show ?thesis by (simp add: file_put_def)
qed

text \<open>C22. Without a failing call \<open>ReadFully\<close> returns the bytes from the position of the file on, as many
  as asked for or as the file has, followed by zeros, and moves the position behind them;
  \<open>ReadFully_V2\<close> returns the bytes from the start of the file, whatever the position.\<close>

theorem read_fully_correct:
  assumes "read_contract rd" "never_fails rd" "fd \<noteq> -1" "0 < sz"
  shows "ReadFully rd fd sz f =
      (let got = take sz (drop (f_pos f) (f_data f))
       in Some (int (length got), Some (got @ replicate (sz - length got) 0), f\<lparr>f_pos := f_pos f + length got\<rparr>))
   \<and> ReadFully_V2 rd fd sz f =
      (let got = take sz (f_data f) in Some (int (length got), Some (got @ replicate (sz - length got) 0)))"
  using read_loop_result [OF assms(1,2), of "[]" sz 0 f] pread_loop_result [OF assms(1,2), of "[]" 0 "f_data f" sz 0]
    assms(3,4)
  by (simp add: ReadFully_def ReadFully_V2_def read_result_def Let_def)

theorem read_fully_correct_witness:
  "ReadFully two_bytes 3 3 \<lparr>f_data = [5, 6, 7, 8], f_pos = 2\<rparr>
     = Some (2, Some [7, 8, 0], \<lparr>f_data = [5, 6, 7, 8], f_pos = 4\<rparr>)
   \<and> ReadFully_V2 two_bytes 3 3 \<lparr>f_data = [5, 6, 7, 8], f_pos = 2\<rparr> = Some (3, Some [5, 6, 7])"
  using read_fully_correct [OF two_bytes_contract(2,3), of 3 3 "\<lparr>f_data = [5, 6, 7, 8], f_pos = 2\<rparr>"]
  by (simp add: numeral_3_eq_3)

text \<open>When \<open>CreateDirPath\<close> returns 0 the path and every directory on the way to it exist, and nothing
  that existed has changed.\<close>

theorem create_dir_path_correct:
  assumes "mkdir_contract os" "CreateDirPath os path fs = (0, fs')" "length path < PATH_MAX"
  shows "IsDir os path fs'
     \<and> (\<forall>i. 0 < i \<and> i < length path \<and> path ! i = CHR ''/'' \<longrightarrow> IsDir os (take i path) fs')
     \<and> (\<forall>p t. os_stat os p fs = Some t \<longrightarrow> os_stat os p fs' = Some t)"
proof -
  define st :: nat where "st = (if path \<noteq> [] \<and> hd path = CHR ''/'' then 1 else 0)"
  have b: "take PATH_MAX path = path" using assms(3) by simp
  obtain rc fs1 where c: "create_prefixes os path [st..<length path] fs = (rc, fs1)" by fastforce
  note pre = create_prefixes_ok [OF assms(1) c]
  obtain rc2 fs2 where d: "CreateDir os path fs1 = (rc2, fs2)" by fastforce
  have "rc \<noteq> -1" "rc2 \<noteq> -1" "fs' = fs2"
    using assms(2) c d unfolding CreateDirPath_def Let_def b st_def [symmetric] by (auto split: if_splits)
  then have d': "IsDir os path fs'" and rc: "rc = 0" using CreateDir_ok [OF assms(1) d] pre by auto
  have "IsDir os (take i path) fs'" if "0 < i" "i < length path" "path ! i = CHR ''/''" for i
  proof -
    have "i \<in> set [st..<length path]" using that by (auto simp: st_def)
    then show ?thesis using pre rc that IsDir_keeps [OF assms(1) d] \<open>fs' = fs2\<close> by auto
  qed
  moreover have "os_stat os p fs' = Some t" if "os_stat os p fs = Some t" for p t
    using conjunct1 [OF pre] that CreateDir_keeps [OF assms(1) d] \<open>fs' = fs2\<close> by metis
  ultimately show ?thesis using d' by blast
qed

text \<open>A file system that is the list of its directories.\<close>

definition dir_list_os :: "string list os_calls" where
  "dir_list_os = \<lparr>os_stat = (\<lambda>p fs. if p \<in> set fs then Some (IsDirectory, 0) else None),
                  os_mkdir = (\<lambda>d fs. if d \<in> set fs then (EEXIST, fs) else (0, d # fs))\<rparr>"

theorem create_dir_path_correct_witness:
  "\<exists>fs'. CreateDirPath dir_list_os ''a/b'' [] = (0, fs') \<and> IsDir dir_list_os ''a/b'' fs' \<and> IsDir dir_list_os ''a'' fs'"
proof -
  have con: "mkdir_contract dir_list_os"
    by (auto simp: mkdir_contract_def dir_list_os_def EEXIST_def split: if_splits)
  have run: "CreateDirPath dir_list_os ''a/b'' [] = (0, [''a/b'', ''a''])"
    by (simp add: CreateDirPath_def Let_def PATH_MAX_def upt_rec dir_list_os_def CreateDir_def)
  show ?thesis
    using create_dir_path_correct [OF con run] run by (force simp: PATH_MAX_def dest: spec [of _ 1])
qed

text \<open>\<open>RemoveDirectory\<close> returns 0 only when the whole directory is gone.\<close>

theorem remove_directory_zero:
  assumes "fst (RemoveDirectory err path es) = 0" "\<forall>p. err p Stat \<noteq> 0"
  shows "snd (RemoveDirectory err path es) = None"
  using clean_zero(1) [OF assms] .

theorem remove_directory_zero_witness:
  "snd (RemoveDirectory (\<lambda>p c. if c = Stat then 2 else 0) ''d'' [(''x'', Leaf), (''y'', Dir [(''z'', Leaf)])]) = None"
  by (rule remove_directory_zero) (simp_all add: RemoveDirectory.simps CleanDirectory.simps Let_def)

end
