(* ===== verification/Peers.thy ===== *)
theory Peers
  imports Hash
begin

text \<open>
  Addresses and peers of the network layer, \<open>net/common-def.h\<close>, the notifications of
  \<open>net/notify-message.h\<close>, and the hash by which the tables of peers find their entries. The key that is
  hashed is the text \<open>addr:port-protocol\<close>; the lemmas show that it identifies the peer.
\<close>

section \<open>Peers\<close>

datatype SocketProtocol = SP_None | Tcp | Udp

fun protocol_no :: "SocketProtocol \<Rightarrow> nat" where
  "protocol_no SP_None = 0" | "protocol_no Tcp = 1" | "protocol_no Udp = 2"

record net_addr =
  addr :: string
  port :: u16

record net_peer_info =
  peer_nat :: net_addr
  sp :: SocketProtocol

text \<open>The default constructor leaves the port uninitialised; no code reads it, and 0 stands for it.\<close>

definition new_net_peer_info0 :: net_peer_info where
  "new_net_peer_info0 = \<lparr>peer_nat = \<lparr>addr = [], port = 0\<rparr>, sp = SP_None\<rparr>"

definition new_net_peer_info :: "string \<Rightarrow> u16 \<Rightarrow> SocketProtocol \<Rightarrow> net_peer_info" where
  "new_net_peer_info a p s = \<lparr>peer_nat = \<lparr>addr = a, port = p\<rparr>, sp = s\<rparr>"

definition peer_eq :: "net_peer_info \<Rightarrow> net_peer_info \<Rightarrow> bool" where
  "peer_eq a b \<longleftrightarrow> sp a = sp b \<and> port (peer_nat a) = port (peer_nat b) \<and> addr (peer_nat a) = addr (peer_nat b)"

text \<open>An unsigned number printed in decimal.\<close>

definition digit :: "nat \<Rightarrow> char" where
  "digit n = char_of (48 + n)"

fun dec :: "nat \<Rightarrow> string" where
  "dec n = (if n < 10 then [digit n] else dec (n div 10) @ [digit (n mod 10)])"

declare dec.simps [simp del]

definition peer_key :: "net_peer_info \<Rightarrow> string" where
  "peer_key npit =
     addr (peer_nat npit) @ '':'' @ dec (unat (port (peer_nat npit))) @ ''-'' @ dec (protocol_no (sp npit))"

text \<open>The text \<open>operator<<\<close> prints; the address is printed as a C string, up to its first 0.\<close>

definition peer_print :: "net_peer_info \<Rightarrow> string" where
  "peer_print peer =
     ''peer{protocol = '' @ dec (protocol_no (sp peer)) @ '', addr = ''
     @ takeWhile (\<lambda>c. c \<noteq> char_of (0 :: nat)) (addr (peer_nat peer)) @ '':''
     @ dec (unat (port (peer_nat peer))) @ ''}''"

definition str_bytes :: "string \<Rightarrow> bytes" where
  "str_bytes s = map of_char s"

definition peer_hash :: "endian \<Rightarrow> net_peer_info \<Rightarrow> u32" where
  "peer_hash e npit =
     (let key = str_bytes (peer_key npit) in MurmurHash3_x86_32 e key (length key) 22)"

section \<open>Notifications\<close>

datatype ServerNotifyMessageCode = ServerOK | ServerError

datatype WorkerNotifyMessageCode = WorkerOK | ClosedByPeer | WorkerError

text \<open>The three notifications; \<open>'m\<close> is the received message. A message notification has a release
  handle, which its destructor calls when it is set.\<close>

datatype 'm NotifyMessage =
    ServerNotify ServerNotifyMessageCode string
  | WorkerNotify WorkerNotifyMessageCode net_peer_info string
  | MessageNotify 'm "('m \<Rightarrow> 'm) option"

text \<open>The constructor takes a release handle and does not store it.\<close>

definition new_MessageNotifyMessage :: "'m \<Rightarrow> ('m \<Rightarrow> 'm) \<Rightarrow> 'm NotifyMessage" where
  "new_MessageNotifyMessage rm releaseHandle = MessageNotify rm None"

text \<open>What the destructor releases.\<close>

fun dtor_NotifyMessage :: "'m NotifyMessage \<Rightarrow> 'm list" where
  "dtor_NotifyMessage (MessageNotify m (Some h)) = [m]"
| "dtor_NotifyMessage (MessageNotify m None) = []"
| "dtor_NotifyMessage (ServerNotify c s) = []"
| "dtor_NotifyMessage (WorkerNotify c p s) = []"

section \<open>The key identifies the peer\<close>

lemma of_char_digit: "n < 10 \<Longrightarrow> (of_char (digit n) :: nat) = 48 + n"
  unfolding digit_def of_char_of by (rule mod_less) simp

lemma digit_inj: "m < 10 \<Longrightarrow> n < 10 \<Longrightarrow> digit m = digit n \<Longrightarrow> m = n"
  by (metis add_left_cancel of_char_digit)

lemma dec_not_Nil [simp]: "dec n \<noteq> []"
  by (subst dec.simps) simp

lemma dec_digits: "set (dec n) \<subseteq> digit ` {..<10}"
proof (induction n rule: dec.induct)
  case (1 n)
  show ?case
  proof (cases "n < 10")
    case False
    then show ?thesis using 1 by (subst dec.simps) auto
  qed (simp add: dec.simps)
qed

lemma dec_inj: "dec m = dec n \<Longrightarrow> m = n"
proof (induction m arbitrary: n rule: dec.induct)
  case (1 m)
  have single: "\<not> k < 10 \<Longrightarrow> length (dec k) \<noteq> 1" for k
    by (subst dec.simps) (simp add: dec_not_Nil)
  consider "m < 10" "n < 10" | "\<not> m < 10" "\<not> n < 10" | "m < 10 \<longleftrightarrow> \<not> n < 10" by blast
  then show ?case
  proof cases
    case 1
    then show ?thesis using "1.prems" digit_inj by (simp add: dec.simps)
  next
    case 2
    then have "dec (m div 10) @ [digit (m mod 10)] = dec (n div 10) @ [digit (n mod 10)]"
      using "1.prems" by (simp add: dec.simps [of m] dec.simps [of n])
    then have "m div 10 = n div 10" "m mod 10 = n mod 10"
      using "1.IH" 2 digit_inj [of "m mod 10" "n mod 10"] by auto
    then show ?thesis by (metis div_mult_mod_eq)
  next
    case 3
    then have "length (dec m) \<noteq> length (dec n)"
      using single [of m] single [of n] by (auto simp: dec.simps [of m] dec.simps [of n])
    then show ?thesis using "1.prems" by simp
  qed
qed

lemma digit_not_sep: "c \<in> set (dec n) \<Longrightarrow> c \<noteq> CHR ''-'' \<and> c \<noteq> CHR '':''"
proof -
  assume "c \<in> set (dec n)"
  then obtain d where d: "d < 10" "c = digit d" using dec_digits by blast
  then have "of_char c = 48 + d" by (simp add: of_char_digit)
  then have "of_char c \<noteq> (45 :: nat)" "of_char c \<noteq> (58 :: nat)" using d(1) by linarith+
  then show ?thesis by auto
qed

lemma split_last:
  assumes "xs @ c # ys = xs' @ c # ys'" "c \<notin> set ys" "c \<notin> set ys'"
  shows "xs = xs' \<and> ys = ys'"
proof -
  have r: "rev ys @ c # rev xs = rev ys' @ c # rev xs'" using assms(1) by (metis append.assoc rev.simps(2) rev_append append_Cons append_Nil)
  have t: "takeWhile (\<lambda>x. x \<noteq> c) (rev zs @ c # ws) = rev zs" if "c \<notin> set zs" for zs ws
    using that by (subst takeWhile_append2) auto
  have "rev ys = rev ys'" using arg_cong [OF r, of "takeWhile (\<lambda>x. x \<noteq> c)"] t assms(2,3) by simp
  then show ?thesis using r by simp
qed

lemma protocol_no_inj: "protocol_no a = protocol_no b \<Longrightarrow> a = b"
  by (cases a; cases b) simp_all

section \<open>Properties\<close>

text \<open>Two peers have the same key exactly when \<open>operator==\<close> holds of them, and then the same hash: the
  hash is consistent with the equality the hash tables use, and nothing of a peer is lost in its key,
  whatever characters the address holds.\<close>

theorem peer_key_identifies_peer:
  "(peer_key a = peer_key b \<longleftrightarrow> peer_eq a b) \<and> (peer_eq a b \<longrightarrow> peer_hash e a = peer_hash e b)"
proof -
  have "peer_eq a b" if k: "peer_key a = peer_key b"
  proof -
    have "addr (peer_nat a) @ '':'' @ dec (unat (port (peer_nat a))) = addr (peer_nat b) @ '':'' @ dec (unat (port (peer_nat b)))
        \<and> dec (protocol_no (sp a)) = dec (protocol_no (sp b))"
      by (rule split_last [where c = "CHR ''-''"]) (use k digit_not_sep in \<open>auto simp: peer_key_def\<close>)
    then have "addr (peer_nat a) = addr (peer_nat b) \<and> dec (unat (port (peer_nat a))) = dec (unat (port (peer_nat b)))"
      "sp a = sp b"
      using split_last [of "addr (peer_nat a)" "CHR '':''" "dec (unat (port (peer_nat a)))" "addr (peer_nat b)"
          "dec (unat (port (peer_nat b)))"] digit_not_sep dec_inj protocol_no_inj by auto
    then show ?thesis using dec_inj by (auto simp: peer_eq_def word_unat_eq_iff)
  qed
  moreover have "peer_key a = peer_key b" if "peer_eq a b" using that by (simp add: peer_eq_def peer_key_def)
  ultimately show ?thesis by (auto simp: peer_hash_def)
qed

theorem peer_key_identifies_peer_witness:
  "peer_key (new_net_peer_info ''h:1'' 2 Tcp) \<noteq> peer_key (new_net_peer_info ''h'' 12 Tcp)"
  using peer_key_identifies_peer [of "new_net_peer_info ''h:1'' 2 Tcp" "new_net_peer_info ''h'' 12 Tcp" LittleEnd]
  by (simp add: peer_eq_def new_net_peer_info_def)

text \<open>A message notification never releases its message: the constructor drops the release handle it is
  given, so the destructor has none to call.\<close>

theorem message_notification_leaks:
  "dtor_NotifyMessage (new_MessageNotifyMessage rm releaseHandle) = []"
  by (simp add: new_MessageNotifyMessage_def)

end
