(* ===== verification/NetWorker.thy ===== *)
theory NetWorker
  imports WireMessages Queues Peers
begin

text \<open>
  The TCP message worker, \<open>net-stack-worker.cc\<close> with its base \<open>net-stack-msg-worker.cc\<close> and the reads and
  writes of \<open>connection-socket.cc\<close>: the receive state machine that cuts the byte stream of a connection
  into messages, the send loop, and the handshake that both sides run before a connection is used. The
  header and the payload buffer are the bytes received into them so far; \<open>receive_buffer_refines\<close> connects
  this to the buffers of theory \<open>Buffers\<close>. The socket is a list of what the system does next on it. A
  call \<open>Aborts\<close> when an assertion or an uncaught exception ends the process or a read is undefined; the
  receive loop and the handshake call each other and run on fuel, \<open>Recv_fuel\<close> shows how much is enough.
\<close>

section \<open>The socket\<close>

text \<open>What the next reads find: bytes, an interrupted call, nothing yet, the end of the stream, an error.
  After the list nothing more arrives.\<close>

datatype rx_event = Chunk bytes | RxIntr | RxWouldBlock | RxClosed | RxError int

datatype rd_result = Got bytes | RdFail int

definition EAGAIN_no :: int where "EAGAIN_no = 11"

fun sock_read :: "nat \<Rightarrow> rx_event list \<Rightarrow> rd_result \<times> rx_event list" where
  "sock_read nbytes [] = (RdFail EAGAIN_no, [])"
| "sock_read nbytes (RxIntr # evs) = sock_read nbytes evs"
| "sock_read nbytes (Chunk bs # evs) =
     (Got (take nbytes bs), if drop nbytes bs = [] then evs else Chunk (drop nbytes bs) # evs)"
| "sock_read nbytes (RxWouldBlock # evs) = (RdFail EAGAIN_no, evs)"
| "sock_read nbytes (RxClosed # evs) = (Got [], RxClosed # evs)"
| "sock_read nbytes (RxError err # evs) = (RdFail err, RxError err # evs)"

datatype tx_event = Accept nat | TxIntr | TxWouldBlock | TxError int

datatype wr_result = Wrote nat | WrFail int

fun sock_write :: "bytes \<Rightarrow> tx_event list \<Rightarrow> wr_result \<times> tx_event list" where
  "sock_write bs [] = (WrFail EAGAIN_no, [])"
| "sock_write bs (TxIntr # evs) = sock_write bs evs"
| "sock_write bs (Accept n # evs) = (Wrote (min n (length bs)), evs)"
| "sock_write bs (TxWouldBlock # evs) = (WrFail EAGAIN_no, evs)"
| "sock_write bs (TxError err # evs) = (WrFail err, TxError err # evs)"

section \<open>The worker\<close>

datatype NetWorkerState = StartToRcvHeader | RcvingHeader | StartToRcvPayload | RcvingPayload

datatype ConnectionState = Connecting | ConnectSe | ConnectingRe | WaitLastACK | Connected

datatype CreatorType = Client | Server

text \<open>A message to send is its id and its payload; its frame is what \<open>SndMessage::Encode\<close> puts into the
  buffer, which throws on a payload it does not accept.\<close>

record SndMessage =
  sm_id :: u64
  sm_body :: bytes

definition frame_header :: "SndMessage \<Rightarrow> Header" where
  "frame_header m = \<lparr>magic = MESSAGE_MAGIC_NO, msg_id = sm_id m, len = of_nat (length (sm_body m))\<rparr>"

definition frame :: "SndMessage \<Rightarrow> bytes" where
  "frame m = header_bytes (frame_header m) @ sm_body m"

definition encodable :: "SndMessage \<Rightarrow> bool" where
  "encodable m \<longleftrightarrow> 0 < length (sm_body m) \<and> length (sm_body m) \<le> unat MAX_MSG_PAYLOAD_SIZE"

record RcvMessage =
  rm_peer :: net_peer_info
  rm_header :: Header
  rm_data :: bytes

text \<open>The worker with its socket: \<open>w_wire\<close> are the bytes written to the socket, \<open>w_notes\<close> the notifications
  given to the callback, \<open>w_err\<close> the local variable \<open>err\<close>, \<open>s_lastId\<close> the counter of \<open>SndMessage\<close>, and
  \<open>w_payload_gets\<close> counts the payload buffers taken from the pool.\<close>

record Worker =
  m_ct :: CreatorType
  m_rcvState :: NetWorkerState
  m_pHeaderBuffer :: bytes
  m_header :: Header
  m_payloadBuffer :: "bytes option"
  m_pSendingBuffer :: "bytes option"
  m_connState :: ConnectionState
  m_bConnHandShakeCompleted :: bool
  m_iLogicPort :: u16
  m_bqMessages :: "SndMessage BlockingQueue"
  real_peer :: net_peer_info
  logic_peer :: net_peer_info
  s_lastId :: u64
  w_err :: int
  w_rx :: "rx_event list"
  w_tx :: "tx_event list"
  w_wire :: bytes
  w_notes :: "RcvMessage NotifyMessage list"
  w_payload_gets :: nat

text \<open>What the worker gets from outside: the byte order, the texts of error numbers and the answer of
  \<open>m_onLogicConnect\<close>.\<close>

record worker_env =
  env_endian :: endian
  env_strerror :: "int \<Rightarrow> string"
  env_logic_connect :: "Worker \<Rightarrow> bool"

definition new_PosixTcpNetStackWorker ::
  "CreatorType \<Rightarrow> u32 \<Rightarrow> net_peer_info \<Rightarrow> net_peer_info \<Rightarrow> u16 \<Rightarrow> u64 \<Rightarrow> rx_event list \<Rightarrow> tx_event list \<Rightarrow> Worker" where
  "new_PosixTcpNetStackWorker ct maxCacheMessageCnt realPeer logicPeer logicPort lastId rx tx =
     \<lparr>m_ct = ct, m_rcvState = StartToRcvHeader, m_pHeaderBuffer = [],
      m_header = \<lparr>magic = 0, msg_id = 0, len = 0\<rparr>, m_payloadBuffer = None, m_pSendingBuffer = None,
      m_connState = Connecting, m_bConnHandShakeCompleted = False, m_iLogicPort = logicPort,
      m_bqMessages = new_BlockingQueue maxCacheMessageCnt, real_peer = realPeer, logic_peer = logicPeer,
      s_lastId = lastId, w_err = 0, w_rx = rx, w_tx = tx, w_wire = [], w_notes = [], w_payload_gets = 0\<rparr>"

definition HandleMessage :: "RcvMessage NotifyMessage \<Rightarrow> Worker \<Rightarrow> Worker" where
  "HandleMessage m w = w\<lparr>w_notes := w_notes w @ [m]\<rparr>"

definition InsertMessage :: "SndMessage \<Rightarrow> Worker \<Rightarrow> bool \<times> Worker" where
  "InsertMessage m w = (case TryPush m (m_bqMessages w) of (ok, q) \<Rightarrow> (ok, w\<lparr>m_bqMessages := q\<rparr>))"

definition ClearMessage :: "Worker \<Rightarrow> Worker" where
  "ClearMessage w = w\<lparr>m_bqMessages := Clear (m_bqMessages w)\<rparr>"

text \<open>\<open>SendMessage\<close>; the last result is whether it adds a write event and wakes the event worker.\<close>

definition SendMessage :: "SndMessage \<Rightarrow> Worker \<Rightarrow> bool \<times> Worker \<times> bool" where
  "SendMessage m w =
     (let previousSize = Size (m_bqMessages w);
          (rc, q) = TryPush m (m_bqMessages w)
      in (rc, w\<lparr>m_bqMessages := q\<rparr>, rc \<and> 0 = previousSize))"

definition getNewRcvMessage :: "net_peer_info \<Rightarrow> Header \<Rightarrow> bytes \<Rightarrow> RcvMessage" where
  "getNewRcvMessage peerInfo h buffer = \<lparr>rm_peer = peerInfo, rm_header = h, rm_data = buffer\<rparr>"

definition get_closed_by_peer_worker_message :: "net_peer_info \<Rightarrow> string \<Rightarrow> RcvMessage NotifyMessage" where
  "get_closed_by_peer_worker_message peer msg = WorkerNotify ClosedByPeer peer msg"

definition get_broken_worker_message :: "net_peer_info \<Rightarrow> string \<Rightarrow> RcvMessage NotifyMessage" where
  "get_broken_worker_message peer msg = WorkerNotify WorkerError peer msg"

definition NotifyWorkerBrokenMessage :: "worker_env \<Rightarrow> Worker \<Rightarrow> Worker" where
  "NotifyWorkerBrokenMessage env w =
     HandleMessage (get_broken_worker_message (real_peer w) (env_strerror env (w_err w))) w"

definition NotifyWorkerPeerClosedMessage :: "Worker \<Rightarrow> Worker" where
  "NotifyWorkerPeerClosedMessage w =
     (let peer = real_peer w;
          ss = ''Closed by peer = '' @ addr (peer_nat peer) @ '':'' @ dec (unat (port (peer_nat peer)))
      in HandleMessage (get_closed_by_peer_worker_message peer ss) w)"

section \<open>Receiving\<close>

text \<open>The header buffer when it is full. The steps give the worker, \<open>rc\<close> and \<open>interrupt\<close>.\<close>

definition header_buffer :: Buffer where
  "header_buffer = new_Buffer 1 16 1 16 None"

definition ParseHeader :: "worker_env \<Rightarrow> Worker \<Rightarrow> Worker \<times> bool \<times> bool" where
  "ParseHeader env w =
     (if length (m_pHeaderBuffer w) = 16
      then let (headerRc, h) = DecodeMsgHeader (env_endian env) header_buffer (m_pHeaderBuffer w) (m_header w);
               w = w\<lparr>m_header := h\<rparr>
           in if \<not> headerRc then (NotifyWorkerBrokenMessage env w, False, False)
              else (w\<lparr>m_rcvState := StartToRcvPayload\<rparr>, True, False)
      else (w\<lparr>m_rcvState := RcvingHeader\<rparr>, True, True))"

definition ProcessAfterRcvHeader :: "worker_env \<Rightarrow> rd_result \<Rightarrow> Worker \<Rightarrow> Worker \<times> bool \<times> bool" where
  "ProcessAfterRcvHeader env n w =
     (case n of
        Got bs \<Rightarrow>
          if bs = [] then (NotifyWorkerPeerClosedMessage w, False, False)
          else ParseHeader env (w\<lparr>m_pHeaderBuffer := m_pHeaderBuffer w @ bs\<rparr>)
      | RdFail err \<Rightarrow>
          let w = w\<lparr>w_err := err\<rparr>
          in if EAGAIN_no \<noteq> err then (NotifyWorkerBrokenMessage env w, False, True) else (w, True, True))"

text \<open>\<open>CheckPayload\<close> on the payload received so far; the last result is the message \<open>handshake\<close> has to
  process, when the connection is not yet established.\<close>

definition CheckPayload :: "bool \<Rightarrow> bytes \<Rightarrow> Worker \<Rightarrow> Worker \<times> bool \<times> bool \<times> RcvMessage option" where
  "CheckPayload breakWhenRecvOne bs w =
     (if of_nat (length bs) = len (m_header w)
      then let w = w\<lparr>m_rcvState := StartToRcvHeader\<rparr>;
               rcvMessage = getNewRcvMessage (logic_peer w) (m_header w) bs
           in if m_connState w = Connected
              then ((HandleMessage (new_MessageNotifyMessage rcvMessage id) w)\<lparr>m_payloadBuffer := None\<rparr>,
                    True, breakWhenRecvOne, None)
              else (w, True, breakWhenRecvOne, Some rcvMessage)
      else (w\<lparr>m_rcvState := RcvingPayload\<rparr>, True, True, None))"

definition ProcessAfterRcvPayload ::
  "worker_env \<Rightarrow> bool \<Rightarrow> rd_result \<Rightarrow> bytes \<Rightarrow> Worker \<Rightarrow> Worker \<times> bool \<times> bool \<times> RcvMessage option" where
  "ProcessAfterRcvPayload env breakWhenRecvOne n already w =
     (case n of
        Got bs \<Rightarrow>
          if bs = [] then (NotifyWorkerPeerClosedMessage w, False, False, None)
          else CheckPayload breakWhenRecvOne (already @ bs) (w\<lparr>m_payloadBuffer := Some (already @ bs)\<rparr>)
      | RdFail err \<Rightarrow>
          let w = w\<lparr>w_err := err\<rparr>
          in if EAGAIN_no \<noteq> err then (NotifyWorkerBrokenMessage env w, False, True, None) else (w, True, True, None))"

text \<open>One pass of the loop of \<open>Recv\<close>. \<open>None\<close>: a payload of length 0 fails the assertion of the memory
  pool, and the payload pointer is null in state \<open>RcvingPayload\<close>.\<close>

definition recv_pass ::
  "worker_env \<Rightarrow> bool \<Rightarrow> Worker \<Rightarrow> (Worker \<times> bool \<times> bool \<times> RcvMessage option) option" where
  "recv_pass env breakWhenRecvOne w =
     (case m_rcvState w of
        StartToRcvHeader \<Rightarrow>
          let (n, evs) = sock_read 16 (w_rx w);
              (w, rc, interrupt) = ProcessAfterRcvHeader env n (w\<lparr>m_pHeaderBuffer := [], w_rx := evs\<rparr>)
          in Some (w, rc, interrupt, None)
      | RcvingHeader \<Rightarrow>
          let (n, evs) = sock_read (16 - length (m_pHeaderBuffer w)) (w_rx w);
              (w, rc, interrupt) = ProcessAfterRcvHeader env n (w\<lparr>w_rx := evs\<rparr>)
          in Some (w, rc, interrupt, None)
      | StartToRcvPayload \<Rightarrow>
          if len (m_header w) = 0 then None
          else
            let w = w\<lparr>w_payload_gets := w_payload_gets w + 1, m_payloadBuffer := Some []\<rparr>;
                (n, evs) = sock_read (unat (len (m_header w))) (w_rx w)
            in Some (ProcessAfterRcvPayload env breakWhenRecvOne n [] (w\<lparr>w_rx := evs\<rparr>))
      | RcvingPayload \<Rightarrow>
          (case m_payloadBuffer w of
             None \<Rightarrow> None
           | Some already \<Rightarrow>
               let (n, evs) = sock_read (unat (len (m_header w)) - length already) (w_rx w)
               in Some (ProcessAfterRcvPayload env breakWhenRecvOne n already (w\<lparr>w_rx := evs\<rparr>))))"

section \<open>The receive buffers\<close>

text \<open>What \<open>Recv\<close> does to a header or payload buffer when a read returns the bytes \<open>bs\<close>: they are stored
  behind the last byte, the position is set on the first bytes, and the tail moves.\<close>

definition CheckAndInitBufferPos :: "Buffer \<Rightarrow> Buffer" where
  "CheckAndInitBufferPos b = (if m_pPos b = 0 then SetPos (m_pStart b) b else b)"

definition rcv_pos :: "Buffer \<Rightarrow> nat" where
  "rcv_pos b = (if m_pLast b \<noteq> 0 then m_pLast b + 1 else m_pStart b)"

definition buffer_rcv :: "bytes \<Rightarrow> Buffer \<times> bytes \<Rightarrow> Buffer \<times> bytes" where
  "buffer_rcv bs bm =
     (let (b, mem) = bm; mem = put_bytes (rcv_pos b - m_pStart b) bs mem; b = CheckAndInitBufferPos b
      in (MoveTailBack (of_nat (length bs)) b, mem))"

text \<open>The buffer and its memory hold the received bytes \<open>xs\<close> of at most \<open>cap\<close>.\<close>

definition holds_bytes :: "nat \<Rightarrow> bytes \<Rightarrow> Buffer \<times> bytes \<Rightarrow> bool" where
  "holds_bytes cap xs bm \<longleftrightarrow> (case bm of (b, mem) \<Rightarrow>
     0 < m_pStart b \<and> 0 < cap \<and> cap < 2 ^ 31 \<and> m_pEnd b = m_pStart b + cap - 1 \<and> length mem = cap
     \<and> length xs \<le> cap \<and> take (length xs) mem = xs
     \<and> (if xs = [] then m_pPos b = 0 \<and> m_pLast b = 0
        else m_pPos b = m_pStart b \<and> m_pLast b = m_pStart b + length xs - 1 \<and> m_bAvailable b))"

lemma holds_bytes_wf: "holds_bytes cap xs (b, mem) \<Longrightarrow> xs \<noteq> [] \<Longrightarrow> buffer_wf b"
  by (cases xs) (auto simp: holds_bytes_def buffer_wf_def)

lemma buffer_rcv_holds:
  assumes "holds_bytes cap xs (b, mem)" "bs \<noteq> []" "length xs + length bs \<le> cap"
  shows "holds_bytes cap (xs @ bs) (buffer_rcv bs (b, mem))"
proof -
  have n: "unat (of_nat (length bs) :: u32) = length bs"
    using assms by (auto simp: holds_bytes_def unat_of_nat intro!: take_bit_nat_eq_self)
  have pos: "rcv_pos b - m_pStart b = length xs" using assms(1) by (cases xs) (auto simp: holds_bytes_def rcv_pos_def)
  have bs: "0 < length bs" using assms(2) by simp
  have mem: "take (length xs + length bs) (put_bytes (length xs) bs mem) = xs @ bs" "length (put_bytes (length xs) bs mem) = cap"
    using assms by (simp_all add: holds_bytes_def put_bytes_def)
  note defs = buffer_rcv_def holds_bytes_def CheckAndInitBufferPos_def SetPos_def MoveTailBack_def Let_def
  show ?thesis
  proof (cases "xs = []")
    case True
    then show ?thesis using assms n pos mem by (auto simp: defs, (use bs in linarith)+)
  next
    case False
    then have "0 < length xs" by simp
    then show ?thesis using assms n pos mem False by (auto simp: defs, (use bs in linarith)+)
  qed
qed

text \<open>The buffers of a worker in the pool: the constructor of the base class takes the header buffer, the
  destructors give back the payload and the sending buffer, when there are any, to the recycled buffers,
  and delete the header buffer (and what is left in the queue, which holds no pool objects).\<close>

definition new_ANetStackMessageWorker ::
  "nat placement \<Rightarrow> (u32 \<Rightarrow> u32 \<Rightarrow> nat) \<Rightarrow> pool \<Rightarrow> message_error + Buffer \<times> pool" where
  "new_ANetStackMessageWorker h ma st =
     (case Get h ma MSG_HEADER_SIZE st of
        Inl err \<Rightarrow> Inl (Pool_error err)
      | Inr (None, st) \<Rightarrow> Inl Null_object
      | Inr (Some headerMemObj, st) \<Rightarrow> Inr (CommonUtils_GetNewBuffer headerMemObj MSG_HEADER_SIZE, st))"

definition put_if_any :: "nat placement \<Rightarrow> Buffer option \<Rightarrow> pool \<times> free_buffers \<Rightarrow> pool_error + pool \<times> free_buffers" where
  "put_if_any h b ps =
     (case b of
        None \<Rightarrow> Inr ps
      | Some b \<Rightarrow>
          let (st, s) = ps; (rel, s) = PutBuffer b s
          in case apply_release h rel st of Inl err \<Rightarrow> Inl err | Inr st \<Rightarrow> Inr (st, s))"

definition delete_PosixTcpNetStackWorker ::
  "nat placement \<Rightarrow> Buffer option \<Rightarrow> Buffer option \<Rightarrow> Buffer \<Rightarrow> pool \<times> free_buffers \<Rightarrow> pool_error + pool \<times> free_buffers" where
  "delete_PosixTcpNetStackWorker h payload sendingb header ps =
     (case put_if_any h payload ps of
        Inl err \<Rightarrow> Inl err
      | Inr ps \<Rightarrow>
          (case put_if_any h sendingb ps of
             Inl err \<Rightarrow> Inl err
           | Inr (st, s) \<Rightarrow>
               (case apply_release h (snd (Buffer_Put header)) st of Inl err \<Rightarrow> Inl err | Inr st \<Rightarrow> Inr (st, s))))"

definition buffer_objs :: "Buffer option \<Rightarrow> MemObject set" where
  "buffer_objs b = (case b of None \<Rightarrow> {} | Some b \<Rightarrow> set_option (m_pMpObject b))"

lemma put_if_any_ok:
  assumes "pool_inv st live" "all_clean s" "buffer_objs b \<subseteq> live" "\<And>x. b = Some x \<Longrightarrow> m_pMpObject x \<noteq> None"
  shows "\<exists>st' s'. put_if_any h b (st, s) = Inr (st', s') \<and> pool_inv st' (live - buffer_objs b) \<and> all_clean s'"
proof (cases b)
  case None
  then show ?thesis using assms by (simp add: put_if_any_def buffer_objs_def)
next
  case (Some x)
  then obtain mo where mo: "m_pMpObject x = Some mo" using assms(4) by blast
  then have "mo \<in> live" using assms(3) Some by (simp add: buffer_objs_def)
  from mem_pool.release_ok [OF assms(1) this, of h] obtain st' where "Put h (Some mo) st = Inr st'" "pool_inv st' (live - {mo})"
    by blast
  then show ?thesis
    using assms(2) Some mo by (auto simp: put_if_any_def buffer_objs_def PutBuffer_eq Buffer_Put_object apply_release_def all_clean_def)
qed

text \<open>A worker takes one object when it is made and at its end the pool has the objects held by others: the
  header, payload and sending buffers are each given back once.\<close>

lemma worker_buffers_returned:
  assumes inv: "pool_inv st live" "fresh_pages st ma" "16 \<le> m_bulk_obj_threshold st"
    and new: "new_ANetStackMessageWorker h ma st = Inr (hb, st1)"
    and used: "pool_inv st2 (live \<union> buffer_objs (Some hb) \<union> buffer_objs p \<union> buffer_objs q)"
      "buffer_objs p \<inter> buffer_objs q = {}" "buffer_objs (Some hb) \<inter> (buffer_objs p \<union> buffer_objs q) = {}"
      "live \<inter> (buffer_objs p \<union> buffer_objs q) = {}"
      "\<And>x. p = Some x \<Longrightarrow> m_pMpObject x \<noteq> None" "\<And>x. q = Some x \<Longrightarrow> m_pMpObject x \<noteq> None" "all_clean s"
  shows "pool_inv st1 (live \<union> buffer_objs (Some hb))"
    and "\<exists>st' s'. delete_PosixTcpNetStackWorker h p q hb (st2, s) = Inr (st', s') \<and> pool_inv st' live \<and> all_clean s'"
proof -
  obtain mo where mo: "Get h ma 16 st = Inr (Some mo, st1)" "hb = CommonUtils_GetNewBuffer mo 16"
    using new by (auto simp: new_ANetStackMessageWorker_def split: sum.splits option.splits prod.splits)
  have env: "0 < (16 :: u32) \<and> 16 \<le> m_bulk_obj_threshold st \<and> fresh_pages st ma" using inv by simp
  have hb: "m_pMpObject hb = Some mo" by (simp add: mo CommonUtils_GetNewBuffer_def new_Buffer_def Let_def)
  have fresh: "mo \<notin> live" using mem_pool.acquire_ok [OF inv(1) env, of h] mo(1) by auto
  have o: "buffer_objs (Some hb) = {mo}" by (simp add: buffer_objs_def hb)
  show "pool_inv st1 (live \<union> buffer_objs (Some hb))"
    using mem_pool.acquire_apart(1) [OF inv(1) env mo(1)] by (simp add: o)
  let ?l = "live \<union> {mo} \<union> buffer_objs p \<union> buffer_objs q"
  obtain st3 s3 where 3: "put_if_any h p (st2, s) = Inr (st3, s3)" "pool_inv st3 (?l - buffer_objs p)" "all_clean s3"
    using put_if_any_ok [OF used(1) used(7), of p h] used(5) by (auto simp: o)
  obtain st4 s4 where 4: "put_if_any h q (st3, s3) = Inr (st4, s4)" "pool_inv st4 (?l - buffer_objs p - buffer_objs q)" "all_clean s4"
    using put_if_any_ok [OF 3(2,3), of q h] used(2,6) by auto
  have l: "?l - buffer_objs p - buffer_objs q = insert mo live" using used(2-4) by (auto simp: o)
  from mem_pool.release_ok [OF 4(2), of mo h] l fresh
  obtain st5 where "Put h (Some mo) st4 = Inr st5" "pool_inv st5 live" by auto
  then show "\<exists>st' s'. delete_PosixTcpNetStackWorker h p q hb (st2, s) = Inr (st', s') \<and> pool_inv st' live \<and> all_clean s'"
    using 3(1) 4(1,3) by (auto simp: delete_PosixTcpNetStackWorker_def Buffer_Put_object [OF hb] apply_release_def)
qed

section \<open>Sending\<close>

lemma sock_write_wrote: "sock_write bs evs = (Wrote n, evs') \<Longrightarrow> length evs' < length evs \<and> n \<le> length bs"
  by (induction bs evs rule: sock_write.induct) auto

text \<open>\<open>None\<close> when \<open>Encode\<close> throws.\<close>

function Send :: "worker_env \<Rightarrow> Worker \<Rightarrow> (bool \<times> Worker) option" where
  "Send env w =
     (let buffered = (case m_pSendingBuffer w of None \<Rightarrow> [] | Some bs \<Rightarrow> bs)
      in if 0 < length buffered
         then (case sock_write buffered (w_tx w) of
                 (Wrote n, evs) \<Rightarrow>
                   if n = 0
                   then Some (False, NotifyWorkerPeerClosedMessage (w\<lparr>w_tx := evs, m_pSendingBuffer := None\<rparr>))
                   else Send env (w\<lparr>w_tx := evs, w_wire := w_wire w @ take n buffered,
                          m_pSendingBuffer := (if drop n buffered = [] then None else Some (drop n buffered))\<rparr>)
               | (WrFail err, evs) \<Rightarrow>
                   let w = w\<lparr>w_tx := evs, w_err := err\<rparr>
                   in if EAGAIN_no \<noteq> err
                      then Some (False, NotifyWorkerBrokenMessage env (w\<lparr>m_pSendingBuffer := None\<rparr>))
                      else Some (True, w))
         else (case TryPop (m_bqMessages w) of
                 (Some sm, q) \<Rightarrow>
                   if encodable sm
                   then Send env (w\<lparr>m_bqMessages := q, m_pSendingBuffer := Some (frame sm)\<rparr>)
                   else None
               | (None, q) \<Rightarrow> Some (True, w)))"
  by pat_completeness auto

termination Send
  by (relation "measure (\<lambda>(env, w). length (w_tx w) + length (m_queue (m_bqMessages w)))")
     (auto simp: TryPop_def split: list.splits dest: sock_write_wrote [OF sym])

declare Send.simps [simp del]

section \<open>Handshake\<close>

datatype 'a run = Ret 'a | Aborts | NoFuel

fun run_bind :: "'a run \<Rightarrow> ('a \<Rightarrow> 'b run) \<Rightarrow> 'b run" where
  "run_bind (Ret x) f = f x"
| "run_bind Aborts f = Aborts"
| "run_bind NoFuel f = NoFuel"

definition send_run :: "worker_env \<Rightarrow> Worker \<Rightarrow> (bool \<times> Worker) run" where
  "send_run env w = (case Send env w of None \<Rightarrow> Aborts | Some r \<Rightarrow> Ret r)"

text \<open>The handshake messages; each takes a new id.\<close>

definition new_ConnectRequestMessage :: "Worker \<Rightarrow> SndMessage \<times> Worker" where
  "new_ConnectRequestMessage w =
     (let (h, l) = new_SndMessage (s_lastId w)
      in (\<lparr>sm_id = msg_id h, sm_body = host_bytes BigEnd 2 (m_iLogicPort w)\<rparr>, w\<lparr>s_lastId := l\<rparr>))"

definition new_ConnectResponseMessage :: "ConnectStatus \<Rightarrow> bytes \<Rightarrow> Worker \<Rightarrow> SndMessage \<times> Worker" where
  "new_ConnectResponseMessage stat what w =
     (let (h, l) = new_SndMessage (s_lastId w)
      in (\<lparr>sm_id = msg_id h, sm_body = host_bytes BigEnd 2 (status_no stat) @ what\<rparr>, w\<lparr>s_lastId := l\<rparr>))"

definition COMPLETE_AND_FIRE :: "Worker \<Rightarrow> Worker" where
  "COMPLETE_AND_FIRE w = w\<lparr>m_bConnHandShakeCompleted := True\<rparr>"

text \<open>\<open>InsertMessage\<close> of a response, then \<open>Send\<close>; the result is \<open>ok\<close>.\<close>

definition answer :: "worker_env \<Rightarrow> ConnectStatus \<Rightarrow> bytes \<Rightarrow> Worker \<Rightarrow> (bool \<times> Worker) run" where
  "answer env stat what w =
     (let (crm, w) = new_ConnectResponseMessage stat what w;
          (ok, w) = InsertMessage crm w
      in if \<not> ok then Ret (False, w) else send_run env w)"

text \<open>\<open>handshake\<close>; \<open>recv\<close> is the call \<open>Recv(true)\<close>.\<close>

definition handshake ::
  "(Worker \<Rightarrow> (bool \<times> Worker) run) \<Rightarrow> worker_env \<Rightarrow> RcvMessage \<Rightarrow> Worker \<Rightarrow> Worker run" where
  "handshake recv env rm w =
     (case m_connState w of
        ConnectSe \<Rightarrow>
          if length (rm_data rm) < 2 then Aborts
          else if ReadUInt16 (env_endian env) (rm_data rm) \<noteq> status_no Status_OK
          then Ret (COMPLETE_AND_FIRE w)
          else run_bind (answer env Status_OK [] w) (\<lambda>(ok, w).
            if \<not> ok then Ret (COMPLETE_AND_FIRE w)
            else run_bind (recv (w\<lparr>m_connState := WaitLastACK\<rparr>)) (\<lambda>(rc, w).
              Ret (if rc then w else COMPLETE_AND_FIRE w)))
      | WaitLastACK \<Rightarrow>
          if length (rm_data rm) < 2 then Aborts
          else if ReadUInt16 (env_endian env) (rm_data rm) = status_no Status_OK \<and> env_logic_connect env w
          then Ret (COMPLETE_AND_FIRE (w\<lparr>m_connState := Connected\<rparr>))
          else Ret (COMPLETE_AND_FIRE w)
      | Connecting \<Rightarrow>
          if length (rm_data rm) \<noteq> 2
          then run_bind (answer env Status_ERROR [] w) (\<lambda>(ok, w). Ret (COMPLETE_AND_FIRE w))
          else
            let lport = ReadUInt16 (env_endian env) (rm_data rm);
                addrStr = addr (peer_nat (real_peer w));
                npt = new_net_peer_info addrStr lport Tcp
            in run_bind (answer env Status_OK [] (w\<lparr>logic_peer := npt\<rparr>)) (\<lambda>(ok, w).
                 if \<not> ok then Ret (COMPLETE_AND_FIRE w)
                 else run_bind (recv (w\<lparr>m_connState := ConnectingRe\<rparr>)) (\<lambda>(rc, w).
                   Ret (if rc then w else COMPLETE_AND_FIRE w)))
      | ConnectingRe \<Rightarrow>
          let ok = env_logic_connect env w
          in run_bind (answer env (if ok then Status_OK else Status_ERROR) [] w) (\<lambda>(sent, w).
               Ret (COMPLETE_AND_FIRE (if ok \<and> sent then w\<lparr>m_connState := Connected\<rparr> else w)))
      | Connected \<Rightarrow>
          run_bind (answer env Status_ERROR (str_bytes ''handshake recv unexpected state.'') w) (\<lambda>(ok, w).
            Ret (COMPLETE_AND_FIRE w)))"

fun Recv :: "nat \<Rightarrow> worker_env \<Rightarrow> bool \<Rightarrow> Worker \<Rightarrow> (bool \<times> Worker) run" where
  "Recv 0 env breakWhenRecvOne w = NoFuel"
| "Recv (Suc fuel) env breakWhenRecvOne w =
     (case recv_pass env breakWhenRecvOne w of
        None \<Rightarrow> Aborts
      | Some (w, rc, interrupt, None) \<Rightarrow>
          if rc \<and> \<not> interrupt then Recv fuel env breakWhenRecvOne w else Ret (rc, w)
      | Some (w, rc, interrupt, Some rcvMessage) \<Rightarrow>
          run_bind (handshake (Recv fuel env True) env rcvMessage w) (\<lambda>w.
            let w = w\<lparr>m_payloadBuffer := None\<rparr>
            in if rc \<and> \<not> interrupt then Recv fuel env breakWhenRecvOne w else Ret (rc, w)))"

text \<open>\<open>Initialize\<close>. The worker is not yet known to the event manager while it waits for the handshake to
  complete, so nobody else runs its \<open>Recv\<close>: it waits for ever when the flag is not set.\<close>

datatype init_result = Initialized bool Worker | Waits_forever Worker

definition Initialize :: "nat \<Rightarrow> worker_env \<Rightarrow> Worker \<Rightarrow> init_result run" where
  "Initialize fuel env w =
     (let w = w\<lparr>m_connState := Connecting\<rparr>
      in run_bind
           (if m_ct w = Client
            then let (crm, w) = new_ConnectRequestMessage w;
                     (ok, w) = InsertMessage crm w
                 in if \<not> ok then Ret (False, w)
                    else run_bind (send_run env w) (\<lambda>(ok, w).
                           Ret (ok, if ok then w\<lparr>m_connState := ConnectSe\<rparr> else w))
            else Ret (True, w))
           (\<lambda>(ok, w).
             if \<not> ok then Ret (Initialized False w)
             else run_bind (Recv fuel env True w) (\<lambda>(rc, w).
               if \<not> rc then Ret (Initialized False w)
               else if m_bConnHandShakeCompleted w then Ret (Initialized (m_connState w = Connected) w)
               else Ret (Waits_forever w))))"

section \<open>The stream a worker sends\<close>

text \<open>What is on the wire, what waits in the sending buffer and what waits in the queue, as one stream.\<close>

definition sending :: "Worker \<Rightarrow> bytes" where
  "sending w = (case m_pSendingBuffer w of None \<Rightarrow> [] | Some bs \<Rightarrow> bs)"

definition out_stream :: "Worker \<Rightarrow> bytes" where
  "out_stream w = w_wire w @ sending w @ concat (map frame (m_queue (m_bqMessages w)))"

definition popped :: "SndMessage \<Rightarrow> SndMessage list \<Rightarrow> Worker \<Rightarrow> Worker" where
  "popped sm q w = w\<lparr>m_bqMessages := (m_bqMessages w)\<lparr>m_queue := q\<rparr>, m_pSendingBuffer := Some (frame sm)\<rparr>"

definition written :: "nat \<Rightarrow> tx_event list \<Rightarrow> Worker \<Rightarrow> Worker" where
  "written n evs w = w\<lparr>w_tx := evs, w_wire := w_wire w @ take n (sending w),
     m_pSendingBuffer := (if drop n (sending w) = [] then None else Some (drop n (sending w)))\<rparr>"

lemma Send_pop:
  "sending w = [] \<Longrightarrow> Send env w = (case m_queue (m_bqMessages w) of
     [] \<Rightarrow> Some (True, w) | sm # q \<Rightarrow> if encodable sm then Send env (popped sm q w) else None)"
  by (subst Send.simps) (simp add: sending_def TryPop_def popped_def Let_def split: list.splits)

lemma Send_write:
  "sending w \<noteq> [] \<Longrightarrow> Send env w = (case sock_write (sending w) (w_tx w) of
     (Wrote n, evs) \<Rightarrow>
       if n = 0 then Some (False, NotifyWorkerPeerClosedMessage (w\<lparr>w_tx := evs, m_pSendingBuffer := None\<rparr>))
       else Send env (written n evs w)
   | (WrFail err, evs) \<Rightarrow>
       if EAGAIN_no \<noteq> err
       then Some (False, NotifyWorkerBrokenMessage env (w\<lparr>w_tx := evs, w_err := err, m_pSendingBuffer := None\<rparr>))
       else Some (True, w\<lparr>w_tx := evs, w_err := err\<rparr>))"
  by (subst Send.simps)
     (auto simp: sending_def written_def Let_def split: option.splits prod.splits wr_result.splits)

lemma sending_moves [simp]:
  "sending (popped sm q w) = frame sm" "sending (written n evs w) = drop n (sending w)"
  "w_wire (popped sm q w) = w_wire w" "w_wire (written n evs w) = w_wire w @ take n (sending w)"
  "m_queue (m_bqMessages (popped sm q w)) = q" "m_bqMessages (written n evs w) = m_bqMessages w"
  "w_tx (popped sm q w) = w_tx w" "w_tx (written n evs w) = evs"
  by (simp_all add: sending_def popped_def written_def)

lemma length_frame: "length (frame m) = 16 + length (sm_body m)"
  by (simp add: frame_def)

lemma frame_nonempty [simp]: "frame m \<noteq> []"
  using length_frame [of m] by auto

lemma notify_frame [simp]:
  "w_wire (NotifyWorkerPeerClosedMessage w) = w_wire w" "w_wire (NotifyWorkerBrokenMessage env w) = w_wire w"
  by (simp_all add: NotifyWorkerPeerClosedMessage_def NotifyWorkerBrokenMessage_def HandleMessage_def Let_def)

text \<open>A property of the result of \<open>Send\<close> follows from the ends of the loop and the two steps.\<close>

lemma Send_induct [case_names empty unencodable pop closed broken again wrote]:
  assumes "\<And>w. sending w = [] \<Longrightarrow> m_queue (m_bqMessages w) = [] \<Longrightarrow> P w (Some (True, w))"
    and "\<And>w sm q. sending w = [] \<Longrightarrow> m_queue (m_bqMessages w) = sm # q \<Longrightarrow> \<not> encodable sm \<Longrightarrow> P w None"
    and "\<And>w sm q r. sending w = [] \<Longrightarrow> m_queue (m_bqMessages w) = sm # q \<Longrightarrow> encodable sm
           \<Longrightarrow> P (popped sm q w) r \<Longrightarrow> P w r"
    and "\<And>w evs. sending w \<noteq> [] \<Longrightarrow> sock_write (sending w) (w_tx w) = (Wrote 0, evs)
           \<Longrightarrow> P w (Some (False, NotifyWorkerPeerClosedMessage (w\<lparr>w_tx := evs, m_pSendingBuffer := None\<rparr>)))"
    and "\<And>w err evs. sending w \<noteq> [] \<Longrightarrow> sock_write (sending w) (w_tx w) = (WrFail err, evs) \<Longrightarrow> EAGAIN_no \<noteq> err
           \<Longrightarrow> P w (Some (False, NotifyWorkerBrokenMessage env (w\<lparr>w_tx := evs, w_err := err, m_pSendingBuffer := None\<rparr>)))"
    and "\<And>w evs. sending w \<noteq> [] \<Longrightarrow> sock_write (sending w) (w_tx w) = (WrFail EAGAIN_no, evs)
           \<Longrightarrow> P w (Some (True, w\<lparr>w_tx := evs, w_err := EAGAIN_no\<rparr>))"
    and "\<And>w n evs r. sending w \<noteq> [] \<Longrightarrow> sock_write (sending w) (w_tx w) = (Wrote n, evs) \<Longrightarrow> 0 < n
           \<Longrightarrow> P (written n evs w) r \<Longrightarrow> P w r"
  shows "P w (Send env w)"
proof (induction "length (w_tx w) + length (m_queue (m_bqMessages w))" arbitrary: w rule: less_induct)
  case less
  show ?case
  proof (cases "sending w")
    case Nil
    then show ?thesis
      using assms(1-3) [of w] less by (simp add: Send_pop split: list.splits)
  next
    case Cons
    then have ne: "sending w \<noteq> []" by simp
    obtain r evs where r: "sock_write (sending w) (w_tx w) = (r, evs)" by (cases rule: prod.exhaust)
    show ?thesis
    proof (cases r)
      case (Wrote n)
      then show ?thesis
        using assms(4,7) [OF ne] less [of "written n evs w"] sock_write_wrote [of "sending w" "w_tx w" n evs] r
        by (simp add: Send_write [OF ne])
    next
      case (WrFail err)
      then show ?thesis using assms(5,6) [OF ne] r by (simp add: Send_write [OF ne])
    qed
  qed
qed

lemma Send_stream:
  "Send env w = Some (rc, w') \<Longrightarrow>
   (if rc then out_stream w' = out_stream w else \<exists>cut. w_wire w' @ cut = out_stream w)"
proof -
  have "case Send env w of None \<Rightarrow> True | Some (rc, w') \<Rightarrow>
      (if rc then out_stream w' = out_stream w else \<exists>cut. w_wire w' @ cut = out_stream w)"
  proof (induction rule: Send_induct)
    case (wrote w n evs r)
    have "out_stream (written n evs w) = out_stream w" by (simp add: out_stream_def)
    with wrote show ?case by (simp only:)
  next
    case (pop w sm q r)
    then have "out_stream (popped sm q w) = out_stream w" by (simp add: out_stream_def)
    with pop show ?case by (simp only:)
  qed (auto simp: out_stream_def sending_def)
  then show "Send env w = Some (rc, w') \<Longrightarrow> ?thesis" by simp
qed

text \<open>A call without an error stops only when nothing is left or the socket takes no more.\<close>

lemma Send_stops:
  "Send env w = Some (True, w') \<Longrightarrow> out_stream w' = w_wire w' \<or> w_err w' = EAGAIN_no"
proof -
  have "case Send env w of Some (True, w') \<Rightarrow> out_stream w' = w_wire w' \<or> w_err w' = EAGAIN_no | _ \<Rightarrow> True"
    by (induction rule: Send_induct) (simp_all add: out_stream_def)
  then show "Send env w = Some (True, w') \<Longrightarrow> ?thesis" by simp
qed

lemma Send_encodable:
  "list_all encodable (m_queue (m_bqMessages w)) \<Longrightarrow> Send env w \<noteq> None"
proof -
  have "list_all encodable (m_queue (m_bqMessages w)) \<longrightarrow> Send env w \<noteq> None"
    by (induction rule: Send_induct) simp_all
  then show "list_all encodable (m_queue (m_bqMessages w)) \<Longrightarrow> ?thesis" by simp
qed

text \<open>The frame is what \<open>Encode\<close> leaves in the readable part of the buffer, for every message class that
  keeps the contract of theory \<open>Messages\<close>.\<close>

context payload_encoder
begin

lemma Encode_sends:
  assumes enc: "Encode e h ma mem_of n encodeDerive hdr st s = Inr ((buf, mem), hdr', st', s')"
    and env: "pool_inv st live" "fresh_pages st ma" "16 + n \<le> m_bulk_obj_threshold st"
      "unat n = length payload" "all_clean s" "\<And>mo. length (mem_of mo) = unat (m_slot_size mo)"
  shows "take (nat (AvailableLength buf)) (pos_mem buf 0 mem) = frame \<lparr>sm_id = msg_id hdr, sm_body = payload\<rparr>"
    and "encodable \<lparr>sm_id = msg_id hdr, sm_body = payload\<rparr>"
proof -
  note fr = Encode_frame [OF enc env]
  have n: "n = of_nat (length payload)" unfolding env(4) [symmetric] by simp
  have "AvailableLength buf = 16 + uint n" using fr by blast
  moreover have "uint n = int (length payload)" using env(4) by (metis of_nat_unat)
  ultimately have "nat (AvailableLength buf) = 16 + length payload" by linarith
  then show "take (nat (AvailableLength buf)) (pos_mem buf 0 mem) = frame \<lparr>sm_id = msg_id hdr, sm_body = payload\<rparr>"
    using fr n by (cases hdr) (simp add: pos_mem_def frame_def frame_header_def)
  show "encodable \<lparr>sm_id = msg_id hdr, sm_body = payload\<rparr>"
    using fr env(4) by (simp add: encodable_def word_le_nat_alt word_less_nat_alt)
qed

end

section \<open>The stream a worker receives\<close>

fun rx_bytes :: "rx_event list \<Rightarrow> bytes" where
  "rx_bytes [] = []"
| "rx_bytes (Chunk bs # evs) = bs @ rx_bytes evs"
| "rx_bytes (_ # evs) = rx_bytes evs"

text \<open>The connection stays up: bytes arrive in pieces of any size, calls are interrupted or find nothing.\<close>

fun live_event :: "rx_event \<Rightarrow> bool" where
  "live_event (Chunk bs) = (bs \<noteq> [])"
| "live_event RxIntr = True"
| "live_event RxWouldBlock = True"
| "live_event _ = False"

lemma sock_read_live:
  assumes "list_all live_event evs" "0 < n" "sock_read n evs = (r, evs')"
  shows "list_all live_event evs' \<and> length evs' \<le> length evs
    \<and> (case r of
         Got bs \<Rightarrow> bs \<noteq> [] \<and> length bs \<le> n \<and> rx_bytes evs = bs @ rx_bytes evs'
           \<and> (length bs < n \<longrightarrow> length evs' < length evs)
       | RdFail err \<Rightarrow> err = EAGAIN_no \<and> rx_bytes evs' = rx_bytes evs \<and> (length evs' < length evs \<or> evs' = []))"
  using assms
proof (induction n evs rule: sock_read.induct)
  case (3 nbytes bs evs)
  have "rx_bytes (Chunk bs # evs) = take nbytes bs @ drop nbytes bs @ rx_bytes evs" by simp
  with 3 show ?case by (auto simp del: append_take_drop_id)
qed (auto split: rd_result.splits)

text \<open>The bytes of the message a worker is receiving.\<close>

definition pending :: "Worker \<Rightarrow> bytes" where
  "pending w = (case m_rcvState w of
     StartToRcvHeader \<Rightarrow> [] | RcvingHeader \<Rightarrow> m_pHeaderBuffer w | StartToRcvPayload \<Rightarrow> m_pHeaderBuffer w
   | RcvingPayload \<Rightarrow> m_pHeaderBuffer w @ (case m_payloadBuffer w of None \<Rightarrow> [] | Some p \<Rightarrow> p))"

definition rcv_inv :: "Worker \<Rightarrow> bool" where
  "rcv_inv w = (case m_rcvState w of
     StartToRcvHeader \<Rightarrow> True
   | RcvingHeader \<Rightarrow> 0 < length (m_pHeaderBuffer w) \<and> length (m_pHeaderBuffer w) < 16
   | StartToRcvPayload \<Rightarrow> m_pHeaderBuffer w = header_bytes (m_header w)
   | RcvingPayload \<Rightarrow> m_pHeaderBuffer w = header_bytes (m_header w)
       \<and> (\<exists>p. m_payloadBuffer w = Some p \<and> length p < unat (len (m_header w))))"

lemma err_frame [simp]:
  "rcv_inv (w\<lparr>w_err := err\<rparr>) = rcv_inv w" "pending (w\<lparr>w_err := err\<rparr>) = pending w"
  by (cases "m_rcvState w"; simp add: rcv_inv_def pending_def)+

text \<open>What a connected worker has received and will receive is the sequence of frames \<open>ms\<close>.\<close>

definition stream_inv :: "Worker \<Rightarrow> bytes \<Rightarrow> SndMessage list \<Rightarrow> bool" where
  "stream_inv w future ms \<longleftrightarrow> m_connState w = Connected \<and> list_all live_event (w_rx w) \<and> list_all encodable ms
     \<and> rcv_inv w \<and> pending w @ rx_bytes (w_rx w) @ future = concat (map frame ms)"

definition received :: "Worker \<Rightarrow> SndMessage \<Rightarrow> RcvMessage" where
  "received w m = getNewRcvMessage (logic_peer w) (frame_header m) (sm_body m)"

lemma header_bytes_inj: "header_bytes h = header_bytes h' \<Longrightarrow> h = h'"
  using read_header_bytes [of 0 "header_bytes h" h LittleEnd] read_header_bytes [of 0 "header_bytes h'" h' LittleEnd]
  by (cases h; cases h') (simp add: get_bytes_def)

lemma unat_of_nat_le: "unat (of_nat n :: u32) \<le> n"
  by (simp add: unat_of_nat)

lemma encodable_len: "encodable m \<Longrightarrow> unat (len (frame_header m)) = length (sm_body m)"
  by (simp add: encodable_def frame_header_def unat_of_nat take_bit_nat_eq_self)

lemma decode_frame_header:
  assumes "encodable m"
  shows "DecodeMsgHeader e header_buffer (header_bytes (frame_header m)) h0 = (True, frame_header m)"
proof -
  have "AvailableLength header_buffer = 16"
    by (subst buffer_wf_lengths) (simp_all add: header_buffer_def buffer_wf_def new_Buffer_def)
  moreover have "m_pPos header_buffer = m_pStart header_buffer" by (simp add: header_buffer_def new_Buffer_def)
  moreover have "len (frame_header m) \<le> MAX_MSG_PAYLOAD_SIZE"
    using assms encodable_len [OF assms] by (simp add: word_le_nat_alt encodable_def)
  ultimately show ?thesis
    using DecodeMsgHeader_eq [of header_buffer "header_bytes (frame_header m)" "frame_header m" e h0]
    by (simp add: get_bytes_def frame_header_def)
qed

lemma concat_frames_head:
  assumes "xs @ rest = concat (map frame ms)" "xs \<noteq> []"
  obtains m ms' where "ms = m # ms'" "xs @ rest = header_bytes (frame_header m) @ sm_body m @ concat (map frame ms')"
  using assms by (cases ms) (auto simp: frame_def)

text \<open>The bytes of a header arrive.\<close>

lemma header_step:
  assumes "(m_pHeaderBuffer w @ bs) @ rest = concat (map frame ms)" "list_all encodable ms"
    and "bs \<noteq> []" "length (m_pHeaderBuffer w) + length bs \<le> 16"
  obtains w' intr where "ProcessAfterRcvHeader env (Got bs) w = (w', True, intr)"
    "rcv_inv w'" "pending w' = m_pHeaderBuffer w @ bs" "intr \<longleftrightarrow> length (m_pHeaderBuffer w) + length bs < 16"
    "w_rx w' = w_rx w" "w_notes w' = w_notes w" "m_connState w' = m_connState w" "logic_peer w' = logic_peer w"
proof (cases "length (m_pHeaderBuffer w) + length bs = 16")
  case True
  obtain m ms' where m: "ms = m # ms'"
    "(m_pHeaderBuffer w @ bs) @ rest = header_bytes (frame_header m) @ sm_body m @ concat (map frame ms')"
    using concat_frames_head [OF assms(1)] assms(3) by blast
  then have h: "m_pHeaderBuffer w @ bs = header_bytes (frame_header m)"
    using True by (metis append_eq_append_conv length_append length_header_bytes)
  have "encodable m" using assms(2) m by simp
  then show ?thesis
    using that [of "w\<lparr>m_pHeaderBuffer := header_bytes (frame_header m), m_header := frame_header m,
                     m_rcvState := StartToRcvPayload\<rparr>" False] True assms(3)
    by (simp add: ProcessAfterRcvHeader_def ParseHeader_def h decode_frame_header rcv_inv_def pending_def)
next
  case False
  then show ?thesis
    using that [of "w\<lparr>m_pHeaderBuffer := m_pHeaderBuffer w @ bs, m_rcvState := RcvingHeader\<rparr>" True] assms(3,4)
    by (simp add: ProcessAfterRcvHeader_def ParseHeader_def rcv_inv_def pending_def)
qed

text \<open>The bytes of a payload arrive; \<open>ms1\<close> is the message when they complete it.\<close>

lemma payload_step:
  assumes "m_connState w = Connected" "m_pHeaderBuffer w = header_bytes (m_header w)"
    and "m_header w = frame_header m" "encodable m"
    and "(already @ bs) @ rest = sm_body m @ rest'" "bs \<noteq> []" "length already + length bs \<le> length (sm_body m)"
  obtains w' intr ms1 where "ProcessAfterRcvPayload env False (Got bs) already w = (w', True, intr, None)"
    "rcv_inv w'" "concat (map frame ms1) @ pending w' = header_bytes (m_header w) @ already @ bs"
    "ms1 = [] \<or> ms1 = [m]" "intr \<longleftrightarrow> length already + length bs < length (sm_body m)"
    "w_rx w' = w_rx w" "w_notes w' = w_notes w @ map (\<lambda>m. MessageNotify (received w m) None) ms1"
    "m_connState w' = m_connState w" "logic_peer w' = logic_peer w"
proof -
  have len: "unat (len (m_header w)) = length (sm_body m)" using assms(3,4) by (simp add: encodable_len)
  show ?thesis
  proof (cases "length already + length bs = length (sm_body m)")
    case True
    then have b: "already @ bs = sm_body m" using assms(5) by (metis append_eq_append_conv length_append)
    have "of_nat (length (already @ bs)) = len (m_header w)" unfolding b len [symmetric] by simp
    then show ?thesis
      using that [of "w\<lparr>w_notes := w_notes w @ [MessageNotify (received w m) None], m_payloadBuffer := None,
          m_rcvState := StartToRcvHeader\<rparr>" False "[m]"] True assms b
      by (simp add: ProcessAfterRcvPayload_def CheckPayload_def HandleMessage_def new_MessageNotifyMessage_def
          rcv_inv_def pending_def received_def frame_def Let_def)
  next
    case False
    then have lt: "length (already @ bs) < length (sm_body m)" using assms(7) by simp
    have "of_nat (length (already @ bs)) \<noteq> len (m_header w)"
    proof
      assume "of_nat (length (already @ bs)) = len (m_header w)"
      then have "unat (of_nat (length (already @ bs)) :: u32) = length (sm_body m)" using len by simp
      then show False using lt unat_of_nat_le [of "length (already @ bs)"] by linarith
    qed
    then show ?thesis
      using that [of "w\<lparr>m_payloadBuffer := Some (already @ bs), m_rcvState := RcvingPayload\<rparr>" True "[]"] lt assms len
      by (simp add: ProcessAfterRcvPayload_def CheckPayload_def rcv_inv_def pending_def Let_def)
  qed
qed

text \<open>One pass of the loop on a stream of frames: it delivers the messages \<open>ms1\<close> it completes, stops only
  when what has arrived is used up, and otherwise consumes bytes.\<close>

definition progress :: "Worker \<Rightarrow> bytes \<Rightarrow> SndMessage list \<Rightarrow> Worker \<Rightarrow> bool" where
  "progress w future ms w' \<longleftrightarrow> (\<exists>ms1 ms2. ms = ms1 @ ms2 \<and> stream_inv w' future ms2
     \<and> w_notes w' = w_notes w @ map (\<lambda>m. MessageNotify (received w m) None) ms1
     \<and> logic_peer w' = logic_peer w \<and> length (w_rx w') \<le> length (w_rx w))"

lemma progressI:
  assumes "stream_inv w' future ms2" "ms = ms1 @ ms2" "logic_peer w' = logic_peer w" "length (w_rx w') \<le> length (w_rx w)"
    and "w_notes w' = w_notes w @ map (\<lambda>m. MessageNotify (received w m) None) ms1"
  shows "progress w future ms w'"
  using assms by (auto simp: progress_def)

lemma progress_trans:
  assumes "progress w future ms w1" "\<And>ms2. stream_inv w1 future ms2 \<Longrightarrow> progress w1 future ms2 w2"
  shows "progress w future ms w2"
proof -
  obtain ms1 ms2 where 1: "ms = ms1 @ ms2" "stream_inv w1 future ms2"
    "w_notes w1 = w_notes w @ map (\<lambda>m. MessageNotify (received w m) None) ms1"
    "logic_peer w1 = logic_peer w" "length (w_rx w1) \<le> length (w_rx w)"
    using assms(1) by (auto simp: progress_def)
  obtain ms3 ms4 where 2: "ms2 = ms3 @ ms4" "stream_inv w2 future ms4"
    "w_notes w2 = w_notes w1 @ map (\<lambda>m. MessageNotify (received w1 m) None) ms3"
    "logic_peer w2 = logic_peer w1" "length (w_rx w2) \<le> length (w_rx w1)"
    using assms(2) [OF 1(2)] by (auto simp: progress_def)
  have "received w1 = received w" using 1(4) by (simp add: received_def fun_eq_iff)
  then show ?thesis using 1 2 by (intro progressI [of _ _ ms4 _ "ms1 @ ms3"]) simp_all
qed

definition pass_ok :: "Worker \<Rightarrow> bytes \<Rightarrow> SndMessage list \<Rightarrow> (Worker \<times> bool \<times> bool \<times> RcvMessage option) option \<Rightarrow> bool" where
  "pass_ok w future ms r \<longleftrightarrow> (\<exists>w' intr. r = Some (w', True, intr, None) \<and> progress w future ms w'
     \<and> (if intr then length (w_rx w') < length (w_rx w) \<or> w_rx w' = []
        else length (rx_bytes (w_rx w')) < length (rx_bytes (w_rx w))))"

lemma header_pass:
  assumes inv: "stream_inv w future ms" and hdr: "pending w = m_pHeaderBuffer w1" "length (m_pHeaderBuffer w1) < 16"
    and read: "sock_read (16 - length (m_pHeaderBuffer w1)) (w_rx w) = (n, evs)"
    and w1: "w_rx w1 = evs" "w_notes w1 = w_notes w" "m_connState w1 = m_connState w" "logic_peer w1 = logic_peer w"
      "rcv_inv w1" "pending w1 = m_pHeaderBuffer w1"
  shows "pass_ok w future ms
    (let (w', rc, interrupt) = ProcessAfterRcvHeader env n w1 in Some (w', rc, interrupt, None))"
proof -
  have live: "list_all live_event (w_rx w)" and enc: "list_all encodable ms" and c: "m_connState w = Connected"
    and st: "m_pHeaderBuffer w1 @ rx_bytes (w_rx w) @ future = concat (map frame ms)"
    using inv hdr(1) by (simp_all add: stream_inv_def)
  note r = sock_read_live [OF live _ read]
  show ?thesis
  proof (cases n)
    case (Got bs)
    with r hdr(2) have g: "list_all live_event evs" "bs \<noteq> []" "length (m_pHeaderBuffer w1) + length bs \<le> 16"
      "rx_bytes (w_rx w) = bs @ rx_bytes evs" "length evs \<le> length (w_rx w)"
      "length (m_pHeaderBuffer w1) + length bs < 16 \<Longrightarrow> length evs < length (w_rx w)"
      by auto
    have s: "(m_pHeaderBuffer w1 @ bs) @ rx_bytes evs @ future = concat (map frame ms)" using st g(4) by simp
    obtain w' intr where w': "ProcessAfterRcvHeader env n w1 = (w', True, intr)"
      "rcv_inv w'" "pending w' = m_pHeaderBuffer w1 @ bs" "intr \<longleftrightarrow> length (m_pHeaderBuffer w1) + length bs < 16"
      "w_rx w' = w_rx w1" "w_notes w' = w_notes w1" "m_connState w' = m_connState w1" "logic_peer w' = logic_peer w1"
      using header_step [OF s enc g(2,3), of env] Got by metis
    have "stream_inv w' future ms" using w' w1 c g(1) enc s by (simp add: stream_inv_def)
    then have "progress w future ms w'" using w' w1 g(5) by (intro progressI [of _ _ ms _ "[]"]) simp_all
    then show ?thesis using w' w1 g by (auto simp: pass_ok_def)
  next
    case (RdFail err)
    let ?w = "w1\<lparr>w_err := err\<rparr>"
    from RdFail r hdr(2) have g: "list_all live_event evs" "err = EAGAIN_no" "rx_bytes evs = rx_bytes (w_rx w)"
      "length evs \<le> length (w_rx w)" "length evs < length (w_rx w) \<or> evs = []" by auto
    have "stream_inv ?w future ms" using w1 c g(1,3) enc st by (simp add: stream_inv_def)
    then have "progress w future ms ?w" using w1 g(4) by (intro progressI [of _ _ ms _ "[]"]) simp_all
    then show ?thesis using w1 g by (auto simp: pass_ok_def RdFail ProcessAfterRcvHeader_def)
  qed
qed

lemma payload_pass:
  assumes inv: "stream_inv w future ms" and pend: "pending w = m_pHeaderBuffer w1 @ already"
    and read: "sock_read (unat (len (m_header w1)) - length already) (w_rx w) = (n, evs)"
    and h: "m_pHeaderBuffer w1 = header_bytes (m_header w1)"
      "\<And>m. encodable m \<Longrightarrow> m_header w1 = frame_header m \<Longrightarrow> length already < length (sm_body m)"
    and w1: "w_rx w1 = evs" "w_notes w1 = w_notes w" "m_connState w1 = m_connState w" "logic_peer w1 = logic_peer w"
      "rcv_inv w1" "pending w1 = m_pHeaderBuffer w1 @ already"
  shows "pass_ok w future ms (Some (ProcessAfterRcvPayload env False n already w1))"
proof -
  have live: "list_all live_event (w_rx w)" and enc: "list_all encodable ms" and c: "m_connState w = Connected"
    and st: "m_pHeaderBuffer w1 @ already @ rx_bytes (w_rx w) @ future = concat (map frame ms)"
    using inv pend by (simp_all add: stream_inv_def)
  obtain m ms' where m: "ms = m # ms'"
    "m_pHeaderBuffer w1 @ already @ rx_bytes (w_rx w) @ future
       = header_bytes (frame_header m) @ sm_body m @ concat (map frame ms')"
    using concat_frames_head [OF st] h(1) length_header_bytes [of "m_header w1"] by (metis list.size(3) zero_neq_numeral)
  have hm: "m_header w1 = frame_header m"
    using m(2) h(1) header_bytes_inj by (metis append_eq_append_conv length_header_bytes)
  have s: "already @ rx_bytes (w_rx w) @ future = sm_body m @ concat (map frame ms')"
    using m(2) by (simp add: h(1) hm)
  have em: "encodable m" "list_all encodable ms'" using enc m(1) by simp_all
  note lt = h(2) [OF em(1) hm]
  note read' = read [unfolded hm encodable_len [OF em(1)]]
  note r = sock_read_live [OF live _ read']
  show ?thesis
  proof (cases n)
    case (Got bs)
    with r lt have g: "list_all live_event evs" "bs \<noteq> []" "length already + length bs \<le> length (sm_body m)"
      "rx_bytes (w_rx w) = bs @ rx_bytes evs" "length evs \<le> length (w_rx w)"
      "length already + length bs < length (sm_body m) \<Longrightarrow> length evs < length (w_rx w)"
      by auto
    have s1: "(already @ bs) @ rx_bytes evs @ future = sm_body m @ concat (map frame ms')" using s g(4) by simp
    have c1: "m_connState w1 = Connected" using c w1(3) by simp
    obtain w' intr ms1 where w': "ProcessAfterRcvPayload env False n already w1 = (w', True, intr, None)"
      "rcv_inv w'" "concat (map frame ms1) @ pending w' = header_bytes (m_header w1) @ already @ bs"
      "ms1 = [] \<or> ms1 = [m]" "intr \<longleftrightarrow> length already + length bs < length (sm_body m)"
      "w_rx w' = w_rx w1" "w_notes w' = w_notes w1 @ map (\<lambda>m. MessageNotify (received w1 m) None) ms1"
      "m_connState w' = m_connState w1" "logic_peer w' = logic_peer w1"
      using payload_step [OF c1 h(1) hm em(1) s1 g(2,3), of env] unfolding Got by blast
    have rcv: "received w1 = received w" using w1(4) by (simp add: received_def fun_eq_iff)
    define ms2 where "ms2 = drop (length ms1) ms"
    have ms: "ms = ms1 @ ms2" using w'(4) m(1) by (auto simp: ms2_def)
    have "(concat (map frame ms1) @ pending w') @ rx_bytes evs @ future = concat (map frame ms)"
      unfolding w'(3) using st g(4) h(1) by simp
    then have "pending w' @ rx_bytes evs @ future = concat (map frame ms2)" by (simp add: ms)
    then have "stream_inv w' future ms2" using w' w1 c g(1) enc ms by (simp add: stream_inv_def)
    then have "progress w future ms w'" using w' w1 g(5) ms rcv by (intro progressI [of _ _ ms2 _ ms1]) simp_all
    then show ?thesis using w' w1 g by (auto simp: pass_ok_def)
  next
    case (RdFail err)
    let ?w = "w1\<lparr>w_err := err\<rparr>"
    from RdFail r lt have g: "list_all live_event evs" "err = EAGAIN_no" "rx_bytes evs = rx_bytes (w_rx w)"
      "length evs \<le> length (w_rx w)" "length evs < length (w_rx w) \<or> evs = []" by auto
    have "stream_inv ?w future ms" using w1 c g(1,3) enc st by (simp add: stream_inv_def)
    then have "progress w future ms ?w" using w1 g(4) by (intro progressI [of _ _ ms _ "[]"]) simp_all
    then show ?thesis using w1 g by (auto simp: pass_ok_def RdFail ProcessAfterRcvPayload_def)
  qed
qed

text \<open>A pending message is not complete.\<close>

lemma pending_incomplete:
  assumes "stream_inv w future ms" "ms = m # ms'"
  shows "length (pending w) < length (frame m)" and "m_rcvState w = StartToRcvPayload \<Longrightarrow> m_header w = frame_header m"
proof -
  have s: "pending w @ rx_bytes (w_rx w) @ future = header_bytes (frame_header m) @ sm_body m @ concat (map frame ms')"
    and inv: "rcv_inv w" and em: "encodable m" using assms by (simp_all add: stream_inv_def frame_def)
  have h: "m_header w = frame_header m"
    if "m_rcvState w = StartToRcvPayload \<or> m_rcvState w = RcvingPayload"
  proof -
    define xs where "xs = drop 16 (pending w)"
    have "pending w = header_bytes (m_header w) @ xs"
      using inv that by (auto simp: rcv_inv_def pending_def xs_def)
    then have "header_bytes (m_header w) @ (xs @ rx_bytes (w_rx w) @ future)
        = header_bytes (frame_header m) @ (sm_body m @ concat (map frame ms'))" using s by simp
    then have "header_bytes (m_header w) = header_bytes (frame_header m)"
      by (subst (asm) append_eq_append_conv) simp_all
    then show ?thesis by (rule header_bytes_inj)
  qed
  then show "m_rcvState w = StartToRcvPayload \<Longrightarrow> m_header w = frame_header m" by simp
  show "length (pending w) < length (frame m)"
    using inv h em encodable_len [OF em]
    by (cases "m_rcvState w") (auto simp: pending_def rcv_inv_def length_frame encodable_def)
qed

lemma header_nonzero:
  assumes "stream_inv w future ms" "m_rcvState w = StartToRcvPayload"
  shows "len (m_header w) \<noteq> 0"
proof -
  have "m_pHeaderBuffer w = header_bytes (m_header w)" "pending w = m_pHeaderBuffer w"
    using assms by (simp_all add: stream_inv_def rcv_inv_def pending_def)
  then have "length (pending w) = 16" by simp
  then have "pending w \<noteq> []" by auto
  then obtain m ms' where m: "ms = m # ms'" using assms(1) by (cases ms) (auto simp: stream_inv_def)
  then have "m_header w = frame_header m" "encodable m"
    using pending_incomplete(2) [OF assms(1) m assms(2)] assms(1) by (simp_all add: stream_inv_def)
  then have "0 < unat (len (m_header w))" using encodable_len [of m] by (simp add: encodable_def)
  then show ?thesis by auto
qed

lemma recv_pass_ok:
  assumes "stream_inv w future ms"
  shows "pass_ok w future ms (recv_pass env False w)"
proof -
  have inv: "rcv_inv w" using assms by (simp add: stream_inv_def)
  show ?thesis
  proof (cases "m_rcvState w")
    case StartToRcvHeader
    obtain n evs where r: "sock_read 16 (w_rx w) = (n, evs)" by (cases rule: prod.exhaust)
    show ?thesis
      using header_pass [OF assms, of "w\<lparr>m_pHeaderBuffer := [], w_rx := evs\<rparr>" n evs env] r StartToRcvHeader
      by (simp add: recv_pass_def pending_def rcv_inv_def)
  next
    case RcvingHeader
    obtain n evs where r: "sock_read (16 - length (m_pHeaderBuffer w)) (w_rx w) = (n, evs)"
      by (cases rule: prod.exhaust)
    show ?thesis
      using header_pass [OF assms, of "w\<lparr>w_rx := evs\<rparr>" n evs env] r RcvingHeader inv
      by (simp add: recv_pass_def pending_def rcv_inv_def)
  next
    case StartToRcvPayload
    let ?w = "w\<lparr>w_payload_gets := w_payload_gets w + 1, m_payloadBuffer := Some []\<rparr>"
    obtain n evs where r: "sock_read (unat (len (m_header w))) (w_rx w) = (n, evs)" by (cases rule: prod.exhaust)
    have ne: "len (m_header w) \<noteq> 0" by (rule header_nonzero [OF assms StartToRcvPayload])
    have pos: "\<And>m. encodable m \<Longrightarrow> 0 < length (sm_body m)" by (simp add: encodable_def)
    show ?thesis
      using payload_pass [OF assms, of "?w\<lparr>w_rx := evs\<rparr>" "[]" n evs env] r StartToRcvPayload inv ne pos
      by (simp add: recv_pass_def pending_def rcv_inv_def)
  next
    case RcvingPayload
    then obtain p where p: "m_payloadBuffer w = Some p" "length p < unat (len (m_header w))"
      using inv by (auto simp: rcv_inv_def)
    obtain n evs where r: "sock_read (unat (len (m_header w)) - length p) (w_rx w) = (n, evs)"
      by (cases rule: prod.exhaust)
    have pos: "\<And>m. encodable m \<Longrightarrow> m_header w = frame_header m \<Longrightarrow> length p < length (sm_body m)"
      using p(2) by (simp add: encodable_len)
    show ?thesis
      using payload_pass [OF assms, of "w\<lparr>w_rx := evs\<rparr>" p n evs env] r RcvingPayload inv p pos
      by (simp add: recv_pass_def pending_def rcv_inv_def)
  qed
qed

text \<open>A call of \<open>Recv\<close> with more fuel than bytes that have arrived returns.\<close>

lemma Recv_fuel:
  assumes "stream_inv w future ms" "length (rx_bytes (w_rx w)) < fuel"
  shows "\<exists>w'. Recv fuel env False w = Ret (True, w') \<and> progress w future ms w'
    \<and> (length (w_rx w') < length (w_rx w) \<or> w_rx w' = [])"
  using assms
proof (induction fuel arbitrary: w ms)
  case (Suc fuel)
  obtain w1 intr where p: "recv_pass env False w = Some (w1, True, intr, None)" "progress w future ms w1"
    "if intr then length (w_rx w1) < length (w_rx w) \<or> w_rx w1 = []
     else length (rx_bytes (w_rx w1)) < length (rx_bytes (w_rx w))"
    using recv_pass_ok [OF Suc.prems(1), of env] by (auto simp: pass_ok_def)
  show ?case
  proof (cases intr)
    case True
    then show ?thesis using p by simp
  next
    case False
    with p Suc.prems(2) have f: "length (rx_bytes (w_rx w1)) < fuel" by simp
    obtain ms2 where ms2: "stream_inv w1 future ms2" "length (w_rx w1) \<le> length (w_rx w)"
      using p(2) by (auto simp: progress_def)
    obtain w2 where w2: "Recv fuel env False w1 = Ret (True, w2)"
      "length (w_rx w2) < length (w_rx w1) \<or> w_rx w2 = []"
      using Suc.IH [OF ms2(1) f] by blast
    have "progress w future ms w2"
    proof (rule progress_trans [OF p(2)])
      fix ms2 assume "stream_inv w1 future ms2"
      from Suc.IH [OF this f] w2(1) show "progress w1 future ms2 w2" by auto
    qed
    then show ?thesis using p(1) w2 ms2(2) False by auto
  qed
qed simp

text \<open>The event manager calls \<open>Recv\<close> as often as the socket becomes readable.\<close>

fun recv_calls :: "nat \<Rightarrow> nat \<Rightarrow> worker_env \<Rightarrow> Worker \<Rightarrow> (bool \<times> Worker) run" where
  "recv_calls 0 fuel env w = Ret (True, w)"
| "recv_calls (Suc k) fuel env w =
     run_bind (Recv fuel env False w) (\<lambda>(rc, w). if rc then recv_calls k fuel env w else Ret (False, w))"

lemma recv_calls_ok:
  assumes "stream_inv w future ms" "length (concat (map frame ms)) < fuel" "length (w_rx w) \<le> k"
  shows "\<exists>w'. recv_calls k fuel env w = Ret (True, w') \<and> progress w future ms w' \<and> w_rx w' = []"
  using assms
proof (induction k arbitrary: w ms)
  case 0
  then show ?case by (auto intro: progressI [of _ _ ms _ "[]"])
next
  case (Suc k)
  have "length (pending w @ rx_bytes (w_rx w) @ future) = length (concat (map frame ms))"
    using Suc.prems(1) by (simp only: stream_inv_def)
  then have f: "length (rx_bytes (w_rx w)) < fuel" using Suc.prems(2) by simp
  obtain w1 where w1: "Recv fuel env False w = Ret (True, w1)" "progress w future ms w1"
    "length (w_rx w1) < length (w_rx w) \<or> w_rx w1 = []"
    using Recv_fuel [OF Suc.prems(1) f, of env] by blast
  have k: "length (w_rx w1) \<le> k" using w1(3) Suc.prems(3) by auto
  obtain ms1 ms2 where ms: "ms = ms1 @ ms2" "stream_inv w1 future ms2" using w1(2) by (auto simp: progress_def)
  have f2: "length (concat (map frame ms2)) < fuel" using Suc.prems(2) ms(1) by simp
  obtain w2 where w2: "recv_calls k fuel env w1 = Ret (True, w2)" "w_rx w2 = []"
    using Suc.IH [OF ms(2) f2 k] by blast
  have "progress w future ms w2"
  proof (rule progress_trans [OF w1(2)])
    fix ms3 assume a: "stream_inv w1 future ms3"
    then have "concat (map frame ms3) = concat (map frame ms2)" using ms(2) by (simp add: stream_inv_def)
    with Suc.IH [OF a _ k] f2 w2(1) show "progress w1 future ms3 w2" by auto
  qed
  then show ?case using w1(1) w2 by auto
qed

text \<open>The messages whose frames lie completely within the first \<open>n\<close> bytes of the stream.\<close>

fun complete :: "nat \<Rightarrow> SndMessage list \<Rightarrow> SndMessage list" where
  "complete n [] = []"
| "complete n (m # ms) = (if length (frame m) \<le> n then m # complete (n - length (frame m)) ms else [])"

lemma complete_append:
  "complete (length (concat (map frame ms1)) + n) (ms1 @ ms2) = ms1 @ complete n ms2"
  by (induction ms1) (simp_all add: add.assoc)

lemma complete_all: "complete (length (concat (map frame ms))) ms = ms"
  using complete_append [of ms 0 "[]"] by simp

lemma complete_pending:
  assumes "stream_inv w future ms" "w_rx w = []"
  shows "complete (length (pending w)) ms = []"
  using pending_incomplete(1) [OF assms(1)] by (cases ms) auto

lemma recv_calls_stream:
  assumes "m_connState w = Connected" "m_rcvState w = StartToRcvHeader" "list_all live_event (w_rx w)"
    and "list_all encodable ms" "rx_bytes (w_rx w) @ future = concat (map frame ms)"
    and "length (concat (map frame ms)) < fuel"
  shows "\<exists>w'. recv_calls (length (w_rx w)) fuel env w = Ret (True, w')
    \<and> w_notes w' = w_notes w @ map (\<lambda>m. MessageNotify (received w m) None) (complete (length (rx_bytes (w_rx w))) ms)"
proof -
  have inv: "stream_inv w future ms" using assms by (simp add: stream_inv_def rcv_inv_def pending_def)
  obtain w' where w': "recv_calls (length (w_rx w)) fuel env w = Ret (True, w')" "progress w future ms w'" "w_rx w' = []"
    using recv_calls_ok [OF inv assms(6) order_refl] by blast
  obtain ms1 ms2 where ms: "ms = ms1 @ ms2" "stream_inv w' future ms2"
    "w_notes w' = w_notes w @ map (\<lambda>m. MessageNotify (received w m) None) ms1"
    using w'(2) by (auto simp: progress_def)
  have "rx_bytes (w_rx w) @ future = (concat (map frame ms1) @ pending w') @ future"
    using assms(5) ms w'(3) by (simp add: stream_inv_def)
  then have "rx_bytes (w_rx w) = concat (map frame ms1) @ pending w'" by (simp only: append_same_eq)
  then have "complete (length (rx_bytes (w_rx w))) ms = ms1"
    using complete_append [of ms1 "length (pending w')" ms2] complete_pending [OF ms(2) w'(3)] ms(1) by simp
  then show ?thesis using w'(1) ms(3) by simp
qed

section \<open>The handshake\<close>

lemma Send_conn [simp]: "Send env w = Some (rc, w') \<Longrightarrow> m_connState w' = m_connState w"
proof -
  have "case Send env w of None \<Rightarrow> True | Some (rc, w') \<Rightarrow> m_connState w' = m_connState w"
    by (induction rule: Send_induct)
       (auto simp: NotifyWorkerPeerClosedMessage_def NotifyWorkerBrokenMessage_def HandleMessage_def Let_def
         popped_def written_def split: option.splits)
  then show "Send env w = Some (rc, w') \<Longrightarrow> ?thesis" by simp
qed

lemma answer_conn: "answer env st what w = Ret (ok, w') \<Longrightarrow> m_connState w' = m_connState w"
  by (auto simp: answer_def new_ConnectResponseMessage_def InsertMessage_def send_run_def new_SndMessage_def Let_def
      split: prod.splits if_splits option.splits)

lemmas pass_defs = recv_pass_def ProcessAfterRcvHeader_def ParseHeader_def ProcessAfterRcvPayload_def CheckPayload_def
  NotifyWorkerPeerClosedMessage_def NotifyWorkerBrokenMessage_def HandleMessage_def

lemma recv_pass_conn: "recv_pass env b w = Some (w', r) \<Longrightarrow> m_connState w' = m_connState w"
  by (cases "m_rcvState w")
     (auto simp: pass_defs Let_def split: prod.splits rd_result.splits if_splits option.splits)

lemma run_bind_Ret: "run_bind r f = Ret y \<longleftrightarrow> (\<exists>x. r = Ret x \<and> f x = Ret y)"
  by (cases r) auto

text \<open>A worker becomes connected only when \<open>m_onLogicConnect\<close> accepts it.\<close>

lemma handshake_not_accepted:
  assumes "\<And>v. \<not> env_logic_connect env v"
    and "\<And>w rc w'. recv w = Ret (rc, w') \<Longrightarrow> m_connState w \<noteq> Connected \<Longrightarrow> m_connState w' \<noteq> Connected"
    and "handshake recv env rm w = Ret w'" "m_connState w \<noteq> Connected"
  shows "m_connState w' \<noteq> Connected"
  using assms
  by (cases "m_connState w")
     (auto simp: handshake_def run_bind_Ret COMPLETE_AND_FIRE_def Let_def split: if_splits dest!: answer_conn)

lemma not_accepted:
  assumes "\<And>v. \<not> env_logic_connect env v"
  shows "Recv fuel env b w = Ret (rc, w') \<Longrightarrow> m_connState w \<noteq> Connected \<Longrightarrow> m_connState w' \<noteq> Connected"
proof (induction fuel arbitrary: b rc w w')
  case (Suc fuel)
  obtain w1 rc1 intr hs where p: "recv_pass env b w = Some (w1, rc1, intr, hs)"
    using Suc.prems(1) by (auto split: option.splits)
  have w1: "m_connState w1 \<noteq> Connected" using recv_pass_conn [OF p] Suc.prems(2) by simp
  show ?case
  proof (cases hs)
    case None
    then show ?thesis using Suc p w1 by (auto split: if_splits)
  next
    case (Some m)
    then obtain w2 where w2: "handshake (Recv fuel env True) env m w1 = Ret w2"
      and r: "(if rc1 \<and> \<not> intr then Recv fuel env b (w2\<lparr>m_payloadBuffer := None\<rparr>)
               else Ret (rc1, w2\<lparr>m_payloadBuffer := None\<rparr>)) = Ret (rc, w')"
      using Suc.prems(1) p by (auto simp: run_bind_Ret Let_def)
    have "m_connState w2 \<noteq> Connected" by (rule handshake_not_accepted [OF assms Suc.IH w2 w1])
    then show ?thesis using r Suc.IH [of b "w2\<lparr>m_payloadBuffer := None\<rparr>"] by (auto split: if_splits)
  qed
qed simp

text \<open>A whole frame for a worker that is not connected goes to \<open>handshake\<close>.\<close>

definition took_frame :: "SndMessage \<Rightarrow> rx_event list \<Rightarrow> Worker \<Rightarrow> Worker" where
  "took_frame m evs w = w\<lparr>m_rcvState := StartToRcvHeader, m_pHeaderBuffer := header_bytes (frame_header m),
     m_header := frame_header m, m_payloadBuffer := Some (sm_body m), w_rx := evs,
     w_payload_gets := w_payload_gets w + 1\<rparr>"

lemma frame_split [simp]: "take 16 (frame m) = header_bytes (frame_header m)" "drop 16 (frame m) = sm_body m"
  by (simp_all add: frame_def)

lemma Recv_frame:
  assumes "m_rcvState w = StartToRcvHeader" "m_connState w \<noteq> Connected" "w_rx w = Chunk (frame m) # evs" "encodable m"
  shows "Recv (Suc (Suc fuel)) env True w =
    run_bind (handshake (Recv fuel env True) env (received w m) (took_frame m evs w)) (\<lambda>w. Ret (True, w\<lparr>m_payloadBuffer := None\<rparr>))"
proof -
  have b: "sm_body m \<noteq> []" "len (frame_header m) \<noteq> 0" using assms(4) encodable_len [OF assms(4)]
    by (auto simp: encodable_def)
  have h: "header_bytes (frame_header m) \<noteq> []" using length_header_bytes [of "frame_header m"] by fastforce
  have l: "of_nat (length (sm_body m)) = len (frame_header m)" by (simp add: frame_header_def)
  let ?w1 = "w\<lparr>m_pHeaderBuffer := header_bytes (frame_header m), m_header := frame_header m,
      m_rcvState := StartToRcvPayload, w_rx := Chunk (sm_body m) # evs\<rparr>"
  have 1: "recv_pass env True w = Some (?w1, True, False, None)"
    using assms b h by (simp add: recv_pass_def ProcessAfterRcvHeader_def ParseHeader_def decode_frame_header)
  have 2: "recv_pass env True ?w1 = Some (took_frame m evs w, True, True, Some (received w m))"
    using assms b l by (simp add: recv_pass_def ProcessAfterRcvPayload_def CheckPayload_def took_frame_def received_def
        encodable_len getNewRcvMessage_def Let_def)
  show ?thesis by (simp add: 1 2 Let_def)
qed

text \<open>The response with status OK the \<open>n\<close>-th new message id gives.\<close>

definition ok_response :: "u64 \<Rightarrow> SndMessage" where
  "ok_response i = \<lparr>sm_id = i, sm_body = host_bytes BigEnd 2 (status_no Status_OK)\<rparr>"

lemma answer_ok:
  assumes "m_bqMessages w = \<lparr>m_iQueueMaxSize = mx, m_queue = []\<rparr>" "m_pSendingBuffer w = None"
    and "w_tx w = Accept a # tx" "18 \<le> a"
  shows "answer env Status_OK [] w = Ret (True, w\<lparr>s_lastId := nth_id 1 (s_lastId w), w_tx := tx,
    w_wire := w_wire w @ frame (ok_response (nth_id 1 (s_lastId w)))\<rparr>)"
proof -
  let ?m = "ok_response (nth_id 1 (s_lastId w))"
  have room: "\<not> bq_full (m_bqMessages w)"
    using assms(1) by (auto simp: bq_full_def unat_eq_0)
  have enc: "encodable ?m" by (simp add: encodable_def ok_response_def)
  have l: "length (frame ?m) = 18" by (simp add: length_frame ok_response_def)
  let ?w1 = "w\<lparr>s_lastId := nth_id 1 (s_lastId w), m_bqMessages := \<lparr>m_iQueueMaxSize = mx, m_queue = [?m]\<rparr>\<rparr>"
  let ?w2 = "popped ?m [] ?w1"
  have s0: "sending ?w1 = []" "sending w = []" using assms(2) by (simp_all add: sending_def)
  have w: "sock_write (frame ?m) (w_tx w) = (Wrote 18, tx)" using assms(3,4) l by simp
  have e: "sending (written 18 tx ?w2) = []" "m_queue (m_bqMessages (written 18 tx ?w2)) = []"
    using l by (simp_all add: drop_all)
  have "Send env ?w1 = Send env ?w2" using s0 enc by (subst Send_pop) simp_all
  also have "\<dots> = Send env (written 18 tx ?w2)" using w by (subst Send_write) simp_all
  also have "\<dots> = Some (True, written 18 tx ?w2)" using e by (subst Send_pop) simp_all
  also have "written 18 tx ?w2 = w\<lparr>s_lastId := nth_id 1 (s_lastId w), w_tx := tx, w_wire := w_wire w @ frame ?m\<rparr>"
    using l assms(1,2) by (cases w) (simp add: written_def popped_def sending_def take_all)
  finally show ?thesis
    using room assms(1)
    by (simp add: answer_def new_ConnectResponseMessage_def new_SndMessage_def InsertMessage_def TryPush_def send_run_def
        GetNewId_def ok_response_def Let_def)
qed

declare recv_calls.simps [simp del] Recv.simps [simp del]

section \<open>Properties\<close>

text \<open>C24. The receive buffers implement the byte lists of the model: storing the bytes of any sequence of reads
  in a fresh buffer of capacity \<open>cap\<close> keeps exactly the concatenation of what was read, its available
  length is the number of bytes read, and the room left for the next read is the rest of the capacity.\<close>

theorem receive_buffer_refines:
  assumes "0 < start" "0 < cap" "cap < 2 ^ 31" "length mem = cap"
    and "list_all (\<lambda>bs. bs \<noteq> []) reads" "reads \<noteq> []" "length (concat reads) \<le> cap"
    and "foldl (\<lambda>bm bs. buffer_rcv bs bm) (new_Buffer 0 0 start (start + cap - 1) mpo, mem) reads = (b, mem')"
  shows "AvailableLength b = int (length (concat reads)) \<and> UnusedSize b = cap - length (concat reads)
    \<and> take (length (concat reads)) (drop (m_pPos b - m_pStart b) mem') = concat reads"
proof -
  have "holds_bytes cap (ys @ concat rs) (foldl (\<lambda>bm bs. buffer_rcv bs bm) bm rs)"
    if "holds_bytes cap ys bm" "list_all (\<lambda>bs. bs \<noteq> []) rs" "length ys + length (concat rs) \<le> cap" for ys bm rs
    using that
  proof (induction rs arbitrary: ys bm)
    case (Cons r rs)
    then have "holds_bytes cap (ys @ r) (buffer_rcv r bm)"
      using buffer_rcv_holds [of cap ys "fst bm" "snd bm" r] by simp
    with Cons show ?case by fastforce
  qed simp
  from this [of "[]" "(new_Buffer 0 0 start (start + cap - 1) mpo, mem)" reads]
  have h: "holds_bytes cap (concat reads) (b, mem')"
    using assms by (simp add: holds_bytes_def new_Buffer_def)
  have ne: "concat reads \<noteq> []" using assms(5,6) by (cases reads) auto
  have wf: "buffer_wf b" by (rule holds_bytes_wf [OF h ne])
  have "length (concat reads) \<ge> 1" using ne by (cases "concat reads") auto
  then show ?thesis
    using h ne buffer_wf_lengths [OF wf] by (auto simp: holds_bytes_def)
qed

theorem receive_buffer_refines_witness:
  "AvailableLength (fst (foldl (\<lambda>bm bs. buffer_rcv bs bm) (new_Buffer 0 0 100 115 None, replicate 16 0) [[1, 2], [3]])) = 3
   \<and> UnusedSize (fst (foldl (\<lambda>bm bs. buffer_rcv bs bm) (new_Buffer 0 0 100 115 None, replicate 16 0) [[1, 2], [3]])) = 13"
  using receive_buffer_refines [of 100 16 "replicate 16 0" "[[1, 2], [3]]" None, OF _ _ _ _ _ _ _ prod.collapse [symmetric]]
  by simp

text \<open>A connected worker cuts the byte stream into messages whatever the pieces it arrives in: after one
  call of \<open>Recv\<close> per event of the socket exactly the messages whose frames have arrived completely have
  been delivered, each once, in the order sent, with its id and its payload, and no call fails.\<close>

theorem recv_delivers_in_order:
  assumes "m_connState w = Connected" "m_rcvState w = StartToRcvHeader" "list_all live_event (w_rx w)"
    and "list_all encodable ms" "rx_bytes (w_rx w) @ future = concat (map frame ms)"
    and "length (concat (map frame ms)) < fuel"
  shows "\<exists>w'. recv_calls (length (w_rx w)) fuel env w = Ret (True, w')
    \<and> w_notes w' = w_notes w @ map (\<lambda>m. MessageNotify (received w m) None) (complete (length (rx_bytes (w_rx w))) ms)"
  by (rule recv_calls_stream [OF assms])

definition demo_worker :: "rx_event list \<Rightarrow> tx_event list \<Rightarrow> Worker" where
  "demo_worker rx tx = new_PosixTcpNetStackWorker Server 0 (new_net_peer_info ''10.0.0.1'' 4000 Tcp)
     (new_net_peer_info ''10.0.0.1'' 0 Tcp) 0 0 rx tx"

definition demo_env :: worker_env where
  "demo_env = \<lparr>env_endian = LittleEnd, env_strerror = (\<lambda>_. []), env_logic_connect = (\<lambda>_. True)\<rparr>"

definition demo_msg :: SndMessage where
  "demo_msg = \<lparr>sm_id = 5, sm_body = [1, 2]\<rparr>"

lemma demo_facts [simp]:
  "encodable demo_msg" "length (frame demo_msg) = 18"
  "m_rcvState (demo_worker rx tx) = StartToRcvHeader" "w_rx (demo_worker rx tx) = rx"
  "w_tx (demo_worker rx tx) = tx" "w_notes (demo_worker rx tx) = []" "w_wire (demo_worker rx tx) = []"
  "m_ct (demo_worker rx tx) = Server" "env_logic_connect demo_env v"
  by (simp_all add: encodable_def demo_msg_def length_frame demo_worker_def new_PosixTcpNetStackWorker_def demo_env_def)

theorem recv_delivers_in_order_witness:
  "\<exists>w'. recv_calls 3 19 demo_env ((demo_worker [Chunk (take 5 (frame demo_msg)), RxWouldBlock,
       Chunk (drop 5 (frame demo_msg))] [])\<lparr>m_connState := Connected\<rparr>) = Ret (True, w')
     \<and> w_notes w' = [MessageNotify (received (demo_worker [] []) demo_msg) None]"
proof -
  let ?w = "(demo_worker [Chunk (take 5 (frame demo_msg)), RxWouldBlock, Chunk (drop 5 (frame demo_msg))] [])
      \<lparr>m_connState := Connected\<rparr>"
  have "take 5 (frame demo_msg) \<noteq> []" "drop 5 (frame demo_msg) \<noteq> []" using demo_facts(2) by auto
  moreover have "received ?w demo_msg = received (demo_worker [] []) demo_msg"
    by (simp add: received_def demo_worker_def new_PosixTcpNetStackWorker_def)
  ultimately show ?thesis
    using recv_delivers_in_order [of ?w "[demo_msg]" "[]" 19 demo_env] by (simp add: numeral_3_eq_3)
qed

lemma connection_delivers_all:
  assumes "w_wire s = []" "m_pSendingBuffer s = None" "list_all encodable (m_queue (m_bqMessages s))"
    and "Send env s = Some (True, s')" "w_err s' \<noteq> EAGAIN_no"
    and "m_connState r = Connected" "m_rcvState r = StartToRcvHeader" "list_all live_event (w_rx r)"
    and "rx_bytes (w_rx r) = w_wire s'" "length (w_wire s') < fuel"
  shows "\<exists>r'. recv_calls (length (w_rx r)) fuel env' r = Ret (True, r')
    \<and> w_notes r' = w_notes r @ map (\<lambda>m. MessageNotify (received r m) None) (m_queue (m_bqMessages s))"
proof -
  have "w_wire s' = concat (map frame (m_queue (m_bqMessages s)))"
    using Send_stream [OF assms(4)] Send_stops [OF assms(4)] assms(1,2,5) by (simp add: out_stream_def sending_def)
  then show ?thesis
    using recv_calls_stream [OF assms(6-8,3), of "[]" fuel env'] assms(9,10) by (simp add: complete_all)
qed

text \<open>C2. End to end: what one call of \<open>Send\<close> puts on the wire, cut by the network into any pieces, gives the
  receiver exactly the queued messages whose frames are completely on the wire, in the order of the queue,
  on hosts of any byte order; unless the socket refuses bytes, these are all of them.\<close>

theorem connection_delivers:
  assumes "w_wire s = []" "m_pSendingBuffer s = None" "list_all encodable (m_queue (m_bqMessages s))"
    and "Send env s = Some (True, s')"
    and "m_connState r = Connected" "m_rcvState r = StartToRcvHeader" "list_all live_event (w_rx r)"
    and "rx_bytes (w_rx r) = w_wire s'"
    and "length (concat (map frame (m_queue (m_bqMessages s)))) < fuel"
  shows "\<exists>r'. recv_calls (length (w_rx r)) fuel env' r = Ret (True, r')
    \<and> w_notes r' = w_notes r @ map (\<lambda>m. MessageNotify (received r m) None)
        (complete (length (w_wire s')) (m_queue (m_bqMessages s)))
    \<and> (w_err s' = EAGAIN_no \<or> complete (length (w_wire s')) (m_queue (m_bqMessages s)) = m_queue (m_bqMessages s))"
proof -
  have out: "out_stream s' = concat (map frame (m_queue (m_bqMessages s)))"
    using Send_stream [OF assms(4)] assms(1,2) by (simp add: out_stream_def sending_def)
  then obtain future where f: "rx_bytes (w_rx r) @ future = concat (map frame (m_queue (m_bqMessages s)))"
    using assms(8) by (auto simp: out_stream_def)
  have all: "w_err s' = EAGAIN_no \<or> complete (length (w_wire s')) (m_queue (m_bqMessages s)) = m_queue (m_bqMessages s)"
    using Send_stops [OF assms(4)] out complete_all by (metis (no_types))
  show ?thesis using recv_calls_stream [OF assms(5-7,3) f assms(9), of env'] all assms(8) by simp
qed

definition demo_sender :: Worker where
  "demo_sender = (demo_worker [] [Accept 7, TxIntr, Accept 100])\<lparr>m_bqMessages := \<lparr>m_iQueueMaxSize = 0, m_queue = [demo_msg]\<rparr>\<rparr>"

lemma demo_send: "\<exists>s'. Send demo_env demo_sender = Some (True, s') \<and> w_wire s' = frame demo_msg"
proof -
  let ?s = demo_sender
  have s0: "sending ?s = []" "m_queue (m_bqMessages ?s) = [demo_msg]" "w_wire ?s = []" "w_tx ?s = [Accept 7, TxIntr, Accept 100]"
    by (simp_all add: demo_sender_def sending_def demo_worker_def new_PosixTcpNetStackWorker_def)
  let ?s1 = "popped demo_msg [] ?s" let ?s2 = "written 7 [TxIntr, Accept 100] ?s1" let ?s3 = "written 11 [] ?s2"
  have "Send demo_env ?s = Send demo_env ?s1" using s0 by (subst Send_pop) simp_all
  also have "\<dots> = Send demo_env ?s2" using s0 by (subst Send_write) simp_all
  also have "\<dots> = Send demo_env ?s3"
  proof -
    have "sending ?s2 \<noteq> []" using demo_facts(2) by auto
    then show ?thesis by (subst Send_write) simp_all
  qed
  also have "\<dots> = Some (True, ?s3)" by (subst Send_pop) simp_all
  finally have "Send demo_env ?s = Some (True, ?s3)" .
  moreover have "w_wire ?s3 = frame demo_msg" using s0 by (simp add: take_all)
  ultimately show ?thesis by blast
qed

theorem connection_delivers_witness:
  "\<exists>s' r'. Send demo_env demo_sender = Some (True, s')
     \<and> recv_calls 1 19 demo_env ((demo_worker [Chunk (w_wire s')] [])\<lparr>m_connState := Connected\<rparr>) = Ret (True, r')
     \<and> length (w_notes r') = 1"
proof -
  obtain s' where s': "Send demo_env demo_sender = Some (True, s')" "w_wire s' = frame demo_msg" using demo_send by blast
  have q: "w_wire demo_sender = []" "m_pSendingBuffer demo_sender = None" "m_queue (m_bqMessages demo_sender) = [demo_msg]"
    by (simp_all add: demo_sender_def demo_worker_def new_PosixTcpNetStackWorker_def)
  show ?thesis
    using connection_delivers [of demo_sender demo_env s' "(demo_worker [Chunk (w_wire s')] [])\<lparr>m_connState := Connected\<rparr>" 19 demo_env]
      s' q by auto
qed

text \<open>A server worker whose client sends a connect request with logic port \<open>p\<close> and then its response
  completes the handshake: it is connected, its logic peer is the client's address with port \<open>p\<close>, and it
  has sent two OK responses with consecutive ids.\<close>

theorem server_handshake_connects:
  assumes "w = new_PosixTcpNetStackWorker Server mx rp lp 0 i [Chunk (frame m1), Chunk (frame m2)] [Accept a, Accept b]"
    and "sm_body m1 = host_bytes BigEnd 2 p" "encodable m2" "18 \<le> a" "18 \<le> b"
    and "\<And>v. env_logic_connect env v"
  shows "\<exists>w'. Initialize (fuel + 4) env w = Ret (Initialized True w') \<and> m_connState w' = Connected
    \<and> logic_peer w' = new_net_peer_info (addr (peer_nat rp)) p Tcp
    \<and> w_wire w' = frame (ok_response (nth_id 1 i)) @ frame (ok_response (nth_id 2 i))"
proof -
  let ?np = "new_net_peer_info (addr (peer_nat rp)) p Tcp" and ?r1 = "frame (ok_response (nth_id 1 i))"
  note [simp] = new_PosixTcpNetStackWorker_def new_BlockingQueue_def took_frame_def
  have e1: "encodable m1" by (simp add: encodable_def assms(2))
  have rd: "ReadUInt16 (env_endian env) (sm_body m1) = p"
    using u16c.rd_enc [of "env_endian env" p "[]"] by (simp add: assms(2))
  define w0 where "w0 = w\<lparr>m_connState := Connecting\<rparr>"
  define w1 where "w1 = took_frame m1 [Chunk (frame m2)] w0"
  define w2 where "w2 = w1\<lparr>logic_peer := ?np, s_lastId := nth_id 1 i, w_tx := [Accept b], w_wire := ?r1,
      m_connState := ConnectingRe\<rparr>"
  define w3 where "w3 = took_frame m2 [] w2"
  define w4 where "w4 = w3\<lparr>s_lastId := nth_id 2 i, w_tx := [], w_wire := ?r1 @ frame (ok_response (nth_id 2 i)),
      m_connState := Connected, m_bConnHandShakeCompleted := True\<rparr>"
  have h2: "handshake (Recv fuel env True) env (received w2 m2) w3 = Ret w4"
    using answer_ok [of w3 mx b "[]" env] assms
    by (simp add: handshake_def w3_def w2_def w1_def w0_def w4_def COMPLETE_AND_FIRE_def numeral_2_eq_2)
  have r2: "Recv (Suc (Suc fuel)) env True w2 = Ret (True, w4\<lparr>m_payloadBuffer := None\<rparr>)"
    using Recv_frame [of w2 m2 "[]" fuel env] h2 assms by (simp add: w2_def w1_def w0_def w3_def)
  have h1: "handshake (Recv (Suc (Suc fuel)) env True) env (received w0 m1) w1 = Ret (w4\<lparr>m_payloadBuffer := None\<rparr>)"
    using answer_ok [of "w1\<lparr>logic_peer := ?np\<rparr>" mx a "[Accept b]" env] assms rd r2
    by (simp add: handshake_def w2_def w1_def w0_def received_def getNewRcvMessage_def)
  have r1: "Recv (fuel + 4) env True w0 = Ret (True, w4\<lparr>m_payloadBuffer := None\<rparr>)"
    using Recv_frame [of w0 m1 "[Chunk (frame m2)]" "Suc (Suc fuel)" env] h1 assms e1
    by (simp add: w1_def w0_def eval_nat_numeral)
  show ?thesis using r1 assms
    by (simp add: Initialize_def w0_def [symmetric]) (simp add: w4_def w3_def w2_def w1_def w0_def)
qed

theorem server_handshake_connects_witness:
  "\<exists>w'. Initialize 4 demo_env (new_PosixTcpNetStackWorker Server 0 (new_net_peer_info ''h'' 9 Tcp) new_net_peer_info0 0 0
       [Chunk (frame \<lparr>sm_id = 1, sm_body = host_bytes BigEnd 2 (80 :: u16)\<rparr>), Chunk (frame (ok_response 2))]
       [Accept 18, Accept 18]) = Ret (Initialized True w')
     \<and> logic_peer w' = new_net_peer_info ''h'' 80 Tcp"
proof -
  have "encodable (ok_response 2)" by (simp add: encodable_def ok_response_def)
  then show ?thesis
    using server_handshake_connects [OF refl, of "\<lparr>sm_id = 1, sm_body = host_bytes BigEnd 2 (80 :: u16)\<rparr>" 80
        "ok_response 2" 18 18 demo_env 0 0 "new_net_peer_info ''h'' 9 Tcp" new_net_peer_info0 0]
    by (auto simp: new_net_peer_info_def)
qed

text \<open>No handshake succeeds against the connection manager: when \<open>m_onLogicConnect\<close> accepts no worker,
  \<open>Initialize\<close> never reports success, whatever the peer sends.\<close>

theorem handshake_needs_acceptance:
  assumes "\<And>v. \<not> env_logic_connect env v"
  shows "Initialize fuel env w \<noteq> Ret (Initialized True w')"
proof
  assume i: "Initialize fuel env w = Ret (Initialized True w')"
  then obtain w1 rc w2 where r: "Recv fuel env True w1 = Ret (rc, w2)" "m_connState w2 = Connected" "m_connState w1 \<noteq> Connected"
    by (auto simp: Initialize_def run_bind_Ret new_ConnectRequestMessage_def InsertMessage_def send_run_def
        new_SndMessage_def Let_def split: if_splits prod.splits option.splits)
  with not_accepted [OF assms r(1,3)] show False by simp
qed

theorem handshake_needs_acceptance_witness:
  "Initialize 6 (demo_env\<lparr>env_logic_connect := (\<lambda>_. False)\<rparr>) (demo_worker [Chunk (frame demo_msg)] [Accept 18])
     \<noteq> Ret (Initialized True (demo_worker [] []))"
  using handshake_needs_acceptance [of "demo_env\<lparr>env_logic_connect := (\<lambda>_. False)\<rparr>"] by simp

text \<open>A server handshake does not survive a split header: when the first read returns some but not all of
  the 16 header bytes, \<open>Recv\<close> returns and \<open>Initialize\<close> waits for ever, whatever arrives later.\<close>

theorem handshake_hangs_on_split_header:
  assumes "m_ct w = Server" "m_rcvState w = StartToRcvHeader" "\<not> m_bConnHandShakeCompleted w"
    and "w_rx w = Chunk bs # evs" "bs \<noteq> []" "length bs < 16"
  shows "\<exists>w'. Initialize (Suc fuel) env w = Ret (Waits_forever w') \<and> w_rx w' = evs"
  using assms
  by (simp add: Initialize_def Recv.simps recv_pass_def ProcessAfterRcvHeader_def ParseHeader_def Let_def)

theorem handshake_hangs_on_split_header_witness:
  "\<exists>w'. Initialize 6 demo_env (demo_worker [Chunk (take 4 (frame demo_msg)), Chunk (drop 4 (frame demo_msg))] [Accept 18])
     = Ret (Waits_forever w') \<and> w_rx w' = [Chunk (drop 4 (frame demo_msg))]"
proof -
  have "take 4 (frame demo_msg) \<noteq> []" using demo_facts(2) by auto
  moreover have "\<not> m_bConnHandShakeCompleted (demo_worker rx tx)" for rx tx
    by (simp add: demo_worker_def new_PosixTcpNetStackWorker_def)
  ultimately show ?thesis
    using handshake_hangs_on_split_header [of "demo_worker [Chunk (take 4 (frame demo_msg)), Chunk (drop 4 (frame demo_msg))] [Accept 18]"
        "take 4 (frame demo_msg)" "[Chunk (drop 4 (frame demo_msg))]" 5 demo_env]
    by (simp add: eval_nat_numeral)
qed

text \<open>A peer can end the process: a header with the right magic number and length 0 passes
  \<open>DecodeMsgHeader\<close>, and asking the memory pool for 0 bytes fails its assertion.\<close>

theorem zero_length_message_aborts:
  assumes "m_rcvState w = StartToRcvHeader" "w_rx w = Chunk (header_bytes \<lparr>magic = MESSAGE_MAGIC_NO, msg_id = i, len = 0\<rparr>) # evs"
  shows "Recv (Suc (Suc fuel)) env b w = Aborts"
proof -
  let ?h = "\<lparr>magic = MESSAGE_MAGIC_NO, msg_id = i, len = 0\<rparr> :: Header"
  have "AvailableLength header_buffer = 16"
    by (subst buffer_wf_lengths) (simp_all add: header_buffer_def buffer_wf_def new_Buffer_def)
  then have d: "DecodeMsgHeader (env_endian env) header_buffer (header_bytes ?h) h0 = (True, ?h)" for h0
    using DecodeMsgHeader_eq [of header_buffer "header_bytes ?h" ?h "env_endian env" h0]
    by (simp add: get_bytes_def header_buffer_def new_Buffer_def)
  have "header_bytes ?h \<noteq> []" using length_header_bytes [of ?h] by fastforce
  then show ?thesis using assms
    by (simp add: Recv.simps recv_pass_def ProcessAfterRcvHeader_def ParseHeader_def d)
qed

theorem zero_length_message_aborts_witness:
  "Recv 2 demo_env False (demo_worker [Chunk (header_bytes \<lparr>magic = MESSAGE_MAGIC_NO, msg_id = 1, len = 0\<rparr>)] []) = Aborts"
  using zero_length_message_aborts [of "demo_worker [Chunk (header_bytes \<lparr>magic = MESSAGE_MAGIC_NO, msg_id = 1, len = 0\<rparr>)] []"
      1 "[]" 0 demo_env False] by (simp add: numeral_2_eq_2)

text \<open>Each call of \<open>Recv\<close> that finds the payload not yet there takes another payload buffer from the pool
  and overwrites the pointer to the one before.\<close>

lemma payload_buffer_lost:
  assumes "m_rcvState w = StartToRcvPayload" "len (m_header w) \<noteq> 0" "w_rx w = replicate n RxWouldBlock @ evs"
  shows "\<exists>w'. recv_calls n (Suc fuel) env w = Ret (True, w') \<and> w_payload_gets w' = w_payload_gets w + n
    \<and> w_rx w' = evs \<and> m_rcvState w' = StartToRcvPayload"
  using assms
proof (induction n arbitrary: w)
  case (Suc n)
  let ?w = "w\<lparr>w_payload_gets := w_payload_gets w + 1, m_payloadBuffer := Some [], w_rx := replicate n RxWouldBlock @ evs,
      w_err := EAGAIN_no\<rparr>"
  have "Recv (Suc fuel) env False w = Ret (True, ?w)"
    using Suc.prems by (simp add: Recv.simps recv_pass_def ProcessAfterRcvPayload_def)
  then show ?case using Suc.IH [of ?w] Suc.prems by (auto simp: recv_calls.simps)
qed (simp add: recv_calls.simps)

end
