(* ===== verification/Connections.thy ===== *)
theory Connections
  imports NetWorker Resources
begin

text \<open>
  The connections of a node: the manager that keeps one connection per logic peer,
  \<open>unique-worker-manager.cc\<close>, and the socket service on top of it, \<open>nb-socket-service.cc\<close>. Handlers are
  addresses into a heap; the manager holds an address together with the peers its socket descriptor
  gives. The locale \<open>worker_registry\<close> states what the service relies on: the first connection of a logic
  peer wins, and a connection that was not registered cannot remove the one that is. A use of a deleted
  handler and of the null manager are errors.
\<close>

section \<open>The worker manager\<close>

record conn_ref =
  ptr :: nat
  logic_of :: net_peer_info
  real_of :: net_peer_info

record UniqueWorkerManager =
  m_hmap_workers :: "net_peer_info \<rightharpoonup> conn_ref"
  m_hmap_rp_lp :: "net_peer_info \<rightharpoonup> net_peer_info"
  m_hmap_handler_rp :: "nat \<rightharpoonup> net_peer_info"

definition new_UniqueWorkerManager :: UniqueWorkerManager where
  "new_UniqueWorkerManager = \<lparr>m_hmap_workers = Map.empty, m_hmap_rp_lp = Map.empty, m_hmap_handler_rp = Map.empty\<rparr>"

text \<open>The destructor deletes the handlers of the registered connections.\<close>

definition delete_UniqueWorkerManager :: "UniqueWorkerManager \<Rightarrow> nat set" where
  "delete_UniqueWorkerManager m = ptr ` ran (m_hmap_workers m)"

definition lookup_worker :: "UniqueWorkerManager \<Rightarrow> net_peer_info \<Rightarrow> conn_ref option" where
  "lookup_worker m logicNpt = m_hmap_workers m logicNpt"

definition GetWorkerEventHandler :: "net_peer_info \<Rightarrow> UniqueWorkerManager \<Rightarrow> conn_ref option" where
  "GetWorkerEventHandler logicNpt m = lookup_worker m logicNpt"

definition PutWorkerEventHandler :: "conn_ref \<Rightarrow> UniqueWorkerManager \<Rightarrow> bool \<times> UniqueWorkerManager" where
  "PutWorkerEventHandler h m =
     (let lnpt = logic_of h; rnpt = real_of h
      in case lookup_worker m lnpt of
           Some handler \<Rightarrow> (False, m)
         | None \<Rightarrow>
             (True, m\<lparr>m_hmap_workers := (m_hmap_workers m)(lnpt \<mapsto> h),
                      m_hmap_rp_lp := (m_hmap_rp_lp m)(rnpt \<mapsto> lnpt),
                      m_hmap_handler_rp := (m_hmap_handler_rp m)(ptr h \<mapsto> rnpt)\<rparr>))"

text \<open>The two overloads of \<open>RemoveWorkerEventHandler\<close>, for a connection the peer has closed and for one
  closed by this side. \<open>m_hmap_handler_rp[h]\<close> gives a default peer for an unknown key.\<close>

definition RemoveWorkerEventHandler2 ::
  "net_peer_info \<Rightarrow> net_peer_info \<Rightarrow> UniqueWorkerManager \<Rightarrow> conn_ref option \<times> UniqueWorkerManager" where
  "RemoveWorkerEventHandler2 logicNpt realNpt m =
     (if m_hmap_rp_lp m realNpt = None then (None, m)
      else
        let m = m\<lparr>m_hmap_rp_lp := (m_hmap_rp_lp m)(realNpt := None)\<rparr>
        in case lookup_worker m logicNpt of
             Some handler \<Rightarrow> (Some handler, m\<lparr>m_hmap_workers := (m_hmap_workers m)(logicNpt := None)\<rparr>)
           | None \<Rightarrow> (None, m))"

definition RemoveWorkerEventHandler1 ::
  "net_peer_info \<Rightarrow> UniqueWorkerManager \<Rightarrow> conn_ref option \<times> UniqueWorkerManager" where
  "RemoveWorkerEventHandler1 logicNpt m =
     (case lookup_worker m logicNpt of
        Some handler \<Rightarrow>
          let m = m\<lparr>m_hmap_workers := (m_hmap_workers m)(logicNpt := None)\<rparr>;
              realNpt = (case m_hmap_handler_rp m (ptr handler) of Some r \<Rightarrow> r | None \<Rightarrow> new_net_peer_info0);
              m = m\<lparr>m_hmap_handler_rp := (m_hmap_handler_rp m)(ptr handler := None)\<rparr>
          in (Some handler, m\<lparr>m_hmap_rp_lp := (m_hmap_rp_lp m)(realNpt := None)\<rparr>)
      | None \<Rightarrow> (None, m))"

section \<open>What the service relies on\<close>

text \<open>A registry of connections. \<open>closed\<close> is told the peers of any connection, \<open>apart\<close> says that the
  connection shares its real peer and its address with no other registered one.\<close>

locale worker_registry =
  fixes inv :: "'m \<Rightarrow> bool"
    and lookup :: "'m \<Rightarrow> net_peer_info \<Rightarrow> conn_ref option"
    and put :: "conn_ref \<Rightarrow> 'm \<Rightarrow> bool \<times> 'm"
    and closed :: "net_peer_info \<Rightarrow> net_peer_info \<Rightarrow> 'm \<Rightarrow> conn_ref option \<times> 'm"
    and remove :: "net_peer_info \<Rightarrow> 'm \<Rightarrow> conn_ref option \<times> 'm"
  assumes keyed: "inv m \<Longrightarrow> lookup m l = Some h \<Longrightarrow> logic_of h = l"
    and put_taken: "lookup m (logic_of h) = Some h' \<Longrightarrow> put h m = (False, m)"
    and put_free: "inv m \<Longrightarrow> lookup m (logic_of h) = None
        \<Longrightarrow> (\<And>l h'. lookup m l = Some h' \<Longrightarrow> real_of h' \<noteq> real_of h \<and> ptr h' \<noteq> ptr h)
        \<Longrightarrow> \<exists>m'. put h m = (True, m') \<and> inv m' \<and> lookup m' = (lookup m)(logic_of h \<mapsto> h)"
    and closed_registered: "inv m \<Longrightarrow> lookup m (logic_of h) = Some h
        \<Longrightarrow> \<exists>m'. closed (logic_of h) (real_of h) m = (Some h, m') \<and> inv m' \<and> lookup m' = (lookup m)(logic_of h := None)"
    and closed_other: "inv m \<Longrightarrow> (\<And>l h'. lookup m l = Some h' \<Longrightarrow> real_of h' \<noteq> real_of h)
        \<Longrightarrow> closed (logic_of h) (real_of h) m = (None, m)"
    and remove_lookup: "inv m \<Longrightarrow>
        \<exists>m'. remove l m = (lookup m l, m') \<and> inv m' \<and> lookup m' = (lookup m)(l := None)"
begin

text \<open>What happens to a registry: a connection finishes its handshake, a connection breaks, this side
  disconnects from a peer.\<close>

definition do_put :: "conn_ref \<Rightarrow> 'm \<Rightarrow> 'm" where
  "do_put h m = snd (put h m)"

definition do_closed :: "conn_ref \<Rightarrow> 'm \<Rightarrow> 'm" where
  "do_closed h m = snd (closed (logic_of h) (real_of h) m)"

lemma closed_keeps_others:
  assumes "inv m" "lookup m l = Some h'" "h' \<noteq> h"
    and "\<And>l h''. lookup m l = Some h'' \<Longrightarrow> real_of h'' = real_of h \<Longrightarrow> h'' = h"
  shows "lookup (do_closed h m) l = Some h' \<and> inv (do_closed h m)"
proof (cases "lookup m (logic_of h) = Some h")
  case True
  have "l \<noteq> logic_of h" using assms(2,3) True by auto
  then show ?thesis using closed_registered [OF assms(1) True] assms(2) by (auto simp: do_closed_def)
next
  case False
  have "real_of h'' \<noteq> real_of h" if "lookup m l' = Some h''" for l' h''
    using assms(4) [OF that] False that keyed [OF assms(1) that] by auto
  then show ?thesis using closed_other [OF assms(1), of h] assms(1,2) by (simp add: do_closed_def)
qed

lemma first_wins:
  assumes "inv m" "lookup m (logic_of h) = Some h'"
  shows "fst (put h m) = False \<and> do_put h m = m"
  using put_taken [OF assms(2)] by (simp add: do_put_def)

end

definition mgr_inv :: "UniqueWorkerManager \<Rightarrow> bool" where
  "mgr_inv m \<longleftrightarrow>
     (\<forall>l h. m_hmap_workers m l = Some h \<longrightarrow> logic_of h = l \<and> m_hmap_handler_rp m (ptr h) = Some (real_of h))
   \<and> (\<forall>r l. m_hmap_rp_lp m r = Some l \<longleftrightarrow> (\<exists>h. m_hmap_workers m l = Some h \<and> real_of h = r))"

lemma mgr_inv_new: "mgr_inv new_UniqueWorkerManager"
  by (simp add: mgr_inv_def new_UniqueWorkerManager_def)

lemma mgr_invD:
  assumes "mgr_inv m" "m_hmap_workers m l = Some h"
  shows "logic_of h = l" "m_hmap_handler_rp m (ptr h) = Some (real_of h)" "m_hmap_rp_lp m (real_of h) = Some l"
  using assms unfolding mgr_inv_def by blast+

lemma mgr_inv_rp:
  assumes "mgr_inv m" "m_hmap_rp_lp m r = Some l"
  obtains h where "m_hmap_workers m l = Some h" "real_of h = r"
  using assms unfolding mgr_inv_def by blast

lemma mgr_invI:
  assumes "\<And>l h. m_hmap_workers m l = Some h \<Longrightarrow>
      logic_of h = l \<and> m_hmap_handler_rp m (ptr h) = Some (real_of h) \<and> m_hmap_rp_lp m (real_of h) = Some l"
    and "\<And>r l. m_hmap_rp_lp m r = Some l \<Longrightarrow> \<exists>h. m_hmap_workers m l = Some h \<and> real_of h = r"
  shows "mgr_inv m"
  unfolding mgr_inv_def using assms by blast

text \<open>Registered connections have different real peers and addresses.\<close>

lemma mgr_inv_unique:
  assumes "mgr_inv m" "m_hmap_workers m l = Some h" "m_hmap_workers m l' = Some h'"
    and "real_of h' = real_of h \<or> ptr h' = ptr h"
  shows "l' = l"
  using mgr_invD(2,3) [OF assms(1,2)] mgr_invD(2,3) [OF assms(1,3)] assms(4) by auto

lemma mgr_inv_remove:
  assumes "mgr_inv m" "m_hmap_workers m l = Some h"
    and m': "m_hmap_workers m' = (m_hmap_workers m)(l := None)" "m_hmap_rp_lp m' = (m_hmap_rp_lp m)(real_of h := None)"
      "m_hmap_handler_rp m' = m_hmap_handler_rp m \<or> m_hmap_handler_rp m' = (m_hmap_handler_rp m)(ptr h := None)"
  shows "mgr_inv m'"
proof (rule mgr_invI, goal_cases)
  case (1 a k)
  then have k: "m_hmap_workers m a = Some k" "a \<noteq> l" by (auto simp: m' split: if_splits)
  then have "real_of k \<noteq> real_of h" "ptr k \<noteq> ptr h" using mgr_inv_unique [OF assms(1,2) k(1)] by blast+
  then show ?case using mgr_invD [OF assms(1) k(1)] m' by auto
next
  case (2 r a)
  then have r: "m_hmap_rp_lp m r = Some a" "r \<noteq> real_of h" by (auto simp: m' split: if_splits)
  obtain k where k: "m_hmap_workers m a = Some k" "real_of k = r" by (rule mgr_inv_rp [OF assms(1) r(1)])
  then show ?case using r(2) assms(2) m'(1) by auto
qed

lemma mgr_put_free:
  assumes "mgr_inv m" "lookup_worker m (logic_of h) = None"
    and "\<And>l h'. lookup_worker m l = Some h' \<Longrightarrow> real_of h' \<noteq> real_of h \<and> ptr h' \<noteq> ptr h"
  shows "\<exists>m'. PutWorkerEventHandler h m = (True, m') \<and> mgr_inv m' \<and> lookup_worker m' = (lookup_worker m)(logic_of h \<mapsto> h)"
proof -
  let ?m = "m\<lparr>m_hmap_workers := (m_hmap_workers m)(logic_of h \<mapsto> h), m_hmap_rp_lp := (m_hmap_rp_lp m)(real_of h \<mapsto> logic_of h),
      m_hmap_handler_rp := (m_hmap_handler_rp m)(ptr h \<mapsto> real_of h)\<rparr>"
  have "mgr_inv ?m"
  proof (rule mgr_invI, goal_cases)
    case (1 a k)
    show ?case
    proof (cases "a = logic_of h")
      case False
      then have k: "m_hmap_workers m a = Some k" using 1 by simp
      then show ?thesis using mgr_invD [OF assms(1) k] assms(3) [of a k] by (simp add: lookup_worker_def)
    qed (use 1 in simp)
  next
    case (2 r a)
    show ?case
    proof (cases "r = real_of h")
      case False
      then have "m_hmap_rp_lp m r = Some a" using 2 by simp
      then obtain k where "m_hmap_workers m a = Some k" "real_of k = r" by (rule mgr_inv_rp [OF assms(1)])
      then show ?thesis using assms(2) by (auto simp: lookup_worker_def)
    qed (use 2 in simp)
  qed
  moreover have "lookup_worker ?m = (lookup_worker m)(logic_of h \<mapsto> h)" by (simp add: lookup_worker_def fun_eq_iff)
  moreover have "PutWorkerEventHandler h m = (True, ?m)" using assms(2) by (simp add: PutWorkerEventHandler_def Let_def)
  ultimately show ?thesis by blast
qed

lemma mgr_closed_registered:
  assumes "mgr_inv m" "lookup_worker m (logic_of h) = Some h"
  shows "\<exists>m'. RemoveWorkerEventHandler2 (logic_of h) (real_of h) m = (Some h, m') \<and> mgr_inv m'
    \<and> lookup_worker m' = (lookup_worker m)(logic_of h := None)"
proof -
  let ?m = "m\<lparr>m_hmap_rp_lp := (m_hmap_rp_lp m)(real_of h := None), m_hmap_workers := (m_hmap_workers m)(logic_of h := None)\<rparr>"
  have w: "m_hmap_workers m (logic_of h) = Some h" using assms(2) by (simp add: lookup_worker_def)
  have "mgr_inv ?m" using assms(1) w by (rule mgr_inv_remove) simp_all
  moreover have "lookup_worker ?m = (lookup_worker m)(logic_of h := None)" by (simp add: lookup_worker_def fun_eq_iff)
  moreover have "RemoveWorkerEventHandler2 (logic_of h) (real_of h) m = (Some h, ?m)"
    using mgr_invD(3) [OF assms(1) w] w by (simp add: RemoveWorkerEventHandler2_def lookup_worker_def)
  ultimately show ?thesis by blast
qed

lemma mgr_closed_other:
  assumes "mgr_inv m" "\<And>l h'. lookup_worker m l = Some h' \<Longrightarrow> real_of h' \<noteq> r"
  shows "RemoveWorkerEventHandler2 l r m = (None, m)"
proof (cases "m_hmap_rp_lp m r")
  case None
  then show ?thesis by (simp add: RemoveWorkerEventHandler2_def)
next
  case (Some a)
  then obtain k where "m_hmap_workers m a = Some k" "real_of k = r" by (rule mgr_inv_rp [OF assms(1)])
  then show ?thesis using assms(2) by (auto simp: lookup_worker_def)
qed

lemma mgr_remove:
  assumes "mgr_inv m"
  shows "\<exists>m'. RemoveWorkerEventHandler1 l m = (lookup_worker m l, m') \<and> mgr_inv m'
    \<and> lookup_worker m' = (lookup_worker m)(l := None)"
proof (cases "lookup_worker m l")
  case None
  then have "RemoveWorkerEventHandler1 l m = (None, m)" "(lookup_worker m)(l := None) = lookup_worker m"
    by (simp_all add: RemoveWorkerEventHandler1_def fun_eq_iff)
  with assms None show ?thesis by auto
next
  case (Some h)
  then have w: "m_hmap_workers m l = Some h" by (simp add: lookup_worker_def)
  let ?m = "m\<lparr>m_hmap_workers := (m_hmap_workers m)(l := None), m_hmap_handler_rp := (m_hmap_handler_rp m)(ptr h := None),
      m_hmap_rp_lp := (m_hmap_rp_lp m)(real_of h := None)\<rparr>"
  have "mgr_inv ?m" using assms w by (rule mgr_inv_remove) simp_all
  moreover have "lookup_worker ?m = (lookup_worker m)(l := None)" by (simp add: lookup_worker_def fun_eq_iff)
  moreover have "RemoveWorkerEventHandler1 l m = (Some h, ?m)"
    using Some mgr_invD(2) [OF assms w] by (simp add: RemoveWorkerEventHandler1_def Let_def)
  ultimately show ?thesis using Some by auto
qed

interpretation uwm: worker_registry mgr_inv lookup_worker PutWorkerEventHandler RemoveWorkerEventHandler2
  RemoveWorkerEventHandler1
proof (unfold_locales, goal_cases)
  case (1 m l h) then show ?case by (simp add: mgr_invD(1) lookup_worker_def)
next
  case (2 m h h') then show ?case by (simp add: PutWorkerEventHandler_def)
next
  case (3 m h) then show ?case by (rule mgr_put_free)
next
  case (4 m h) then show ?case by (rule mgr_closed_registered)
next
  case (5 m h) then show ?case by (rule mgr_closed_other)
next
  case (6 m l) then show ?case by (rule mgr_remove)
qed

section \<open>The socket service\<close>

text \<open>A connection is its event handler and its worker. \<open>ss_events\<close> are the handlers given to the event
  manager. \<open>m_sspMgr\<close> is null after \<open>Stop\<close>.\<close>

record connection =
  c_handler :: AFileEventHandler
  c_worker :: Worker

record NBSocketService =
  m_bStopped :: bool
  m_sspMgr :: "UniqueWorkerManager option"
  ss_heap :: "nat \<rightharpoonup> connection"
  ss_events :: "nat list"

datatype service_error = Not_supported | Null_manager | Dangling

text \<open>What the system and the peer do with a new connection: whether there is a socket, whether it
  connects, whether the handshake reaches the last acknowledgement, whether the descriptor can be made
  non-blocking, and the handler made for it.\<close>

record conn_outcome =
  oc_socket :: bool
  oc_connect :: bool
  oc_acked :: bool
  oc_nonblocking :: bool
  oc_ref :: conn_ref
  oc_worker :: Worker

definition new_NBSocketService :: NBSocketService where
  "new_NBSocketService =
     \<lparr>m_bStopped = True, m_sspMgr = Some new_UniqueWorkerManager, ss_heap = Map.empty, ss_events = []\<rparr>"

definition Service_Start :: "bool \<Rightarrow> NBSocketService \<Rightarrow> bool \<times> NBSocketService" where
  "Service_Start started s = (if \<not> m_bStopped s then (True, s) else (started, s\<lparr>m_bStopped := False\<rparr>))"

definition Service_Stop :: "bool \<Rightarrow> NBSocketService \<Rightarrow> bool \<times> NBSocketService" where
  "Service_Stop manager_stopped s =
     (if m_bStopped s then (True, s)
      else
        let s = s\<lparr>m_bStopped := True\<rparr>;
            gone = (case m_sspMgr s of None \<Rightarrow> {} | Some m \<Rightarrow> delete_UniqueWorkerManager m)
        in if \<not> manager_stopped then (False, s)
           else (True, s\<lparr>m_sspMgr := None, ss_heap := (\<lambda>h. if h \<in> gone then None else ss_heap s h)\<rparr>))"

definition GetWorkerEventHandlerWithRef ::
  "net_peer_info \<Rightarrow> NBSocketService \<Rightarrow> service_error + conn_ref option \<times> NBSocketService" where
  "GetWorkerEventHandlerWithRef logicNpt s =
     (case m_sspMgr s of
        None \<Rightarrow> Inl Null_manager
      | Some m \<Rightarrow>
          (case lookup_worker m logicNpt of
             None \<Rightarrow> Inr (None, s)
           | Some h \<Rightarrow>
               (case ss_heap s (ptr h) of
                  None \<Rightarrow> Inl Dangling
                | Some c \<Rightarrow>
                    Inr (Some h, s\<lparr>ss_heap := (ss_heap s)(ptr h \<mapsto> c\<lparr>c_handler := Handler_AddRef (c_handler c)\<rparr>)\<rparr>))))"

definition on_logic_connect :: "conn_ref \<Rightarrow> NBSocketService \<Rightarrow> service_error + bool \<times> NBSocketService" where
  "on_logic_connect handler s =
     (if m_bStopped s then Inr (False, s)
      else case m_sspMgr s of
             None \<Rightarrow> Inl Null_manager
           | Some m \<Rightarrow> (case PutWorkerEventHandler handler m of (res, m) \<Rightarrow> Inr (res, s\<lparr>m_sspMgr := Some m\<rparr>)))"

text \<open>\<open>AddEvent\<close> of the event manager sets the event worker of the handler.\<close>

definition Manager_AddEvent :: "nat \<Rightarrow> NBSocketService \<Rightarrow> NBSocketService" where
  "Manager_AddEvent h s =
     s\<lparr>ss_heap := (ss_heap s)(h := map_option (\<lambda>c. c\<lparr>c_handler := SetOwnWorker (c_handler c)\<rparr>) (ss_heap s h)),
       ss_events := ss_events s @ [h]\<rparr>"

definition on_stack_connect :: "nat \<Rightarrow> NBSocketService \<Rightarrow> NBSocketService" where
  "on_stack_connect handler s = (if m_bStopped s then s else Manager_AddEvent handler s)"

definition new_connection :: "Worker \<Rightarrow> connection" where
  "new_connection w = \<lparr>c_handler = new_AFileEventHandler, c_worker = w\<rparr>"

definition connect :: "conn_outcome \<Rightarrow> net_peer_info \<Rightarrow> NBSocketService \<Rightarrow> service_error + bool \<times> NBSocketService" where
  "connect oc npt s =
     (case m_sspMgr s of
        None \<Rightarrow> Inl Null_manager
      | Some m \<Rightarrow>
          if GetWorkerEventHandler npt m \<noteq> None then Inr (True, s)
          else if sp npt \<noteq> Tcp then Inl Not_supported
          else if \<not> oc_socket oc then Inr (False, s)
          else if \<not> oc_connect oc then Inr (False, s)
          else
            let h = oc_ref oc\<lparr>logic_of := npt\<rparr>;
                s = s\<lparr>ss_heap := (ss_heap s)(ptr h \<mapsto> new_connection (oc_worker oc))\<rparr>
            in case (if oc_acked oc then on_logic_connect h s else Inr (False, s)) of
                 Inl err \<Rightarrow> Inl err
               | Inr (initialized, s) \<Rightarrow>
                   if \<not> initialized \<or> \<not> oc_nonblocking oc
                   then Inr (False, s\<lparr>ss_heap := (ss_heap s)(ptr h := None)\<rparr>)
                   else Inr (True, Manager_AddEvent (ptr h) s))"

text \<open>The end of \<open>SendMessage\<close> and of \<open>Disconnect\<close>: the call on the worker, then \<open>Release\<close>.\<close>

definition send_on :: "SndMessage \<Rightarrow> conn_ref \<Rightarrow> NBSocketService \<Rightarrow> service_error + bool \<times> NBSocketService" where
  "send_on m h s =
     (case ss_heap s (ptr h) of
        None \<Rightarrow> Inl Dangling
      | Some c \<Rightarrow>
          let (rc, w, wake) = SendMessage m (c_worker c)
          in Inr (rc, s\<lparr>ss_heap := (ss_heap s)(ptr h \<mapsto>
                 \<lparr>c_handler = Handler_Release (c_handler c), c_worker = w\<rparr>)\<rparr>))"

definition clear_and_release :: "conn_ref \<Rightarrow> NBSocketService \<Rightarrow> service_error + NBSocketService" where
  "clear_and_release h s =
     (case ss_heap s (ptr h) of
        None \<Rightarrow> Inl Dangling
      | Some c \<Rightarrow>
          Inr (s\<lparr>ss_heap := (ss_heap s)(ptr h \<mapsto>
                 \<lparr>c_handler = Handler_Release (c_handler c), c_worker = ClearMessage (c_worker c)\<rparr>)\<rparr>))"

definition Service_SendMessage ::
  "conn_outcome \<Rightarrow> SndMessage \<Rightarrow> net_peer_info \<Rightarrow> NBSocketService \<Rightarrow> service_error + bool \<times> NBSocketService" where
  "Service_SendMessage oc m peer s =
     (if m_bStopped s then Inr (False, s)
      else if sp peer \<noteq> Tcp then Inl Not_supported
      else case GetWorkerEventHandlerWithRef peer s of
             Inl err \<Rightarrow> Inl err
           | Inr (Some handler, s) \<Rightarrow> send_on m handler s
           | Inr (None, s) \<Rightarrow>
               (case connect oc peer s of
                  Inl err \<Rightarrow> Inl err
                | Inr (False, s) \<Rightarrow> Inr (False, s)
                | Inr (True, s) \<Rightarrow>
                    (case GetWorkerEventHandlerWithRef peer s of
                       Inl err \<Rightarrow> Inl err
                     | Inr (None, s) \<Rightarrow> Inr (False, s)
                     | Inr (Some handler, s) \<Rightarrow> send_on m handler s)))"

definition Disconnect :: "net_peer_info \<Rightarrow> NBSocketService \<Rightarrow> service_error + bool \<times> NBSocketService" where
  "Disconnect peer s =
     (if sp peer \<noteq> Tcp then Inr (False, s)
      else if m_bStopped s then Inr (False, s)
      else case m_sspMgr s of
             None \<Rightarrow> Inl Null_manager
           | Some m \<Rightarrow>
               (case RemoveWorkerEventHandler1 peer m of
                  (None, m) \<Rightarrow> Inr (True, s\<lparr>m_sspMgr := Some m\<rparr>)
                | (Some handler, m) \<Rightarrow>
                    (case clear_and_release handler (s\<lparr>m_sspMgr := Some m\<rparr>) of
                       Inl err \<Rightarrow> Inl err | Inr s \<Rightarrow> Inr (True, s))))"

definition on_finish :: "conn_ref \<Rightarrow> NBSocketService \<Rightarrow> service_error + NBSocketService" where
  "on_finish handler s =
     (if m_bStopped s then Inr s
      else case m_sspMgr s of
             None \<Rightarrow> Inl Null_manager
           | Some m \<Rightarrow>
               (case RemoveWorkerEventHandler2 (logic_of handler) (real_of handler) m of
                  (None, m) \<Rightarrow> Inr (s\<lparr>m_sspMgr := Some m\<rparr>)
                | (Some _, m) \<Rightarrow> clear_and_release handler (s\<lparr>m_sspMgr := Some m\<rparr>)))"

section \<open>The invariant of the service\<close>

text \<open>A running service: every registered connection lives, belongs to an event worker and has one
  reference, the manager's.\<close>

definition idle_handler :: "AFileEventHandler \<Rightarrow> bool" where
  "idle_handler h \<longleftrightarrow> h_ref h = 1 \<and> m_pOwnEvWorker h \<and> del_events h = 0"

definition registered :: "NBSocketService \<Rightarrow> net_peer_info \<Rightarrow> conn_ref option" where
  "registered s l = (case m_sspMgr s of None \<Rightarrow> None | Some m \<Rightarrow> lookup_worker m l)"

definition service_inv :: "NBSocketService \<Rightarrow> bool" where
  "service_inv s \<longleftrightarrow> \<not> m_bStopped s \<and> (\<exists>m. m_sspMgr s = Some m \<and> mgr_inv m)
     \<and> (\<forall>l h. registered s l = Some h \<longrightarrow> (\<exists>c. ss_heap s (ptr h) = Some c \<and> idle_handler (c_handler c)))"

text \<open>The connection to be made is a new one.\<close>

definition fresh_outcome :: "conn_outcome \<Rightarrow> NBSocketService \<Rightarrow> bool" where
  "fresh_outcome oc s \<longleftrightarrow>
     (\<forall>l h. registered s l = Some h \<longrightarrow> real_of h \<noteq> real_of (oc_ref oc) \<and> ptr h \<noteq> ptr (oc_ref oc))"

lemma ref_roundtrip: "idle_handler h \<Longrightarrow> Handler_Release (Handler_AddRef h) = h"
  by (cases h) (simp add: idle_handler_def Handler_Release_def Handler_AddRef_def ref_defs)

lemma last_release:
  "idle_handler h \<Longrightarrow> Handler_Release h = h\<lparr>h_ref := 0, del_events := 1, wakeups := wakeups h + 1\<rparr>"
  by (cases h) (simp add: idle_handler_def Handler_Release_def ref_defs)

definition queue_of :: "connection \<Rightarrow> SndMessage list" where
  "queue_of c = m_queue (m_bqMessages (c_worker c))"

text \<open>What \<open>SendMessage\<close> does to a registered connection.\<close>

definition sent_on :: "SndMessage \<Rightarrow> connection \<Rightarrow> bool \<times> connection" where
  "sent_on m c = (case TryPush m (m_bqMessages (c_worker c)) of
     (rc, q) \<Rightarrow> (rc, c\<lparr>c_worker := (c_worker c)\<lparr>m_bqMessages := q\<rparr>\<rparr>))"

lemma sent_on_simps:
  "c_handler (snd (sent_on m c)) = c_handler c"
  "fst (sent_on m c) \<Longrightarrow> queue_of (snd (sent_on m c)) = queue_of c @ [m]"
  by (auto simp: sent_on_def TryPush_def queue_of_def split: prod.splits if_splits)

lemma get_and_send:
  assumes "m_sspMgr s = Some mg" "lookup_worker mg l = Some h" "ss_heap s (ptr h) = Some c" "idle_handler (c_handler c)"
  shows "\<exists>s1. GetWorkerEventHandlerWithRef l s = Inr (Some h, s1)
    \<and> send_on m h s1 = Inr (fst (sent_on m c), s\<lparr>ss_heap := (ss_heap s)(ptr h \<mapsto> snd (sent_on m c))\<rparr>)"
proof -
  let ?s1 = "s\<lparr>ss_heap := (ss_heap s)(ptr h \<mapsto> c\<lparr>c_handler := Handler_AddRef (c_handler c)\<rparr>)\<rparr>"
  obtain rc q where q: "TryPush m (m_bqMessages (c_worker c)) = (rc, q)" by (cases rule: prod.exhaust)
  have "send_on m h ?s1 = Inr (rc, s\<lparr>ss_heap := (ss_heap s)(ptr h \<mapsto> c\<lparr>c_worker := (c_worker c)\<lparr>m_bqMessages := q\<rparr>\<rparr>)\<rparr>)"
    using q ref_roundtrip [OF assms(4)] by (cases c) (simp add: send_on_def SendMessage_def Let_def)
  then show ?thesis using assms q by (simp add: GetWorkerEventHandlerWithRef_def sent_on_def)
qed

lemma service_inv_keep:
  assumes "service_inv s" "registered s l = Some h" "idle_handler (c_handler c)"
  shows "service_inv (s\<lparr>ss_heap := (ss_heap s)(ptr h \<mapsto> c)\<rparr>)"
  using assms by (auto simp: service_inv_def registered_def)

text \<open>A connection attempt of a running service.\<close>

lemma connect_result:
  assumes inv: "service_inv s" and none: "registered s npt = None" and tcp: "sp npt = Tcp"
    and fresh: "fresh_outcome oc s" and nb: "oc_nonblocking oc"
  shows "\<exists>ok s'. connect oc npt s = Inr (ok, s') \<and> service_inv s'
    \<and> (if ok then registered s' = (registered s)(npt \<mapsto> (oc_ref oc)\<lparr>logic_of := npt\<rparr>)
           \<and> ss_heap s' = (ss_heap s)(ptr (oc_ref oc) \<mapsto> \<lparr>c_handler = SetOwnWorker new_AFileEventHandler, c_worker = oc_worker oc\<rparr>)
       else registered s' = registered s \<and> (\<forall>p. p \<noteq> ptr (oc_ref oc) \<longrightarrow> ss_heap s' p = ss_heap s p))"
proof -
  obtain m where m: "m_sspMgr s = Some m" "mgr_inv m" "\<not> m_bStopped s" using inv by (auto simp: service_inv_def)
  let ?h = "(oc_ref oc)\<lparr>logic_of := npt\<rparr>" and ?p = "ptr (oc_ref oc)"
  have none': "lookup_worker m npt = None" using none m by (simp add: registered_def)
  have fr: "real_of h' \<noteq> real_of ?h \<and> ptr h' \<noteq> ptr ?h" if "lookup_worker m l = Some h'" for l h'
    using fresh that m(1) by (simp add: fresh_outcome_def registered_def)
  obtain m' where m': "PutWorkerEventHandler ?h m = (True, m')" "mgr_inv m'" "lookup_worker m' = (lookup_worker m)(npt \<mapsto> ?h)"
    using mgr_put_free [of m ?h] m(2) none' fr by auto
  have live: "\<exists>c. ss_heap s (ptr h) = Some c \<and> idle_handler (c_handler c) \<and> ptr h \<noteq> ?p" if "lookup_worker m l = Some h" for l h
    using inv that m(1) fr [OF that] by (auto simp: service_inv_def registered_def)
  note defs = connect_def GetWorkerEventHandler_def none' m(1,3) tcp on_logic_connect_def m'(1) nb Let_def
    Manager_AddEvent_def new_connection_def
  have idle: "idle_handler (SetOwnWorker new_AFileEventHandler)"
    by (simp add: idle_handler_def SetOwnWorker_def new_AFileEventHandler_def)
  show ?thesis
  proof (cases "oc_socket oc \<and> oc_connect oc \<and> oc_acked oc")
    case True
    let ?c = "\<lparr>c_handler = SetOwnWorker new_AFileEventHandler, c_worker = oc_worker oc\<rparr>"
    let ?s = "s\<lparr>ss_heap := (ss_heap s)(?p \<mapsto> ?c), m_sspMgr := Some m', ss_events := ss_events s @ [?p]\<rparr>"
    have c: "connect oc npt s = Inr (True, ?s)" using True by (simp add: defs)
    have r: "registered ?s = (registered s)(npt \<mapsto> ?h)"
      using m'(3) m(1) by (simp add: registered_def fun_eq_iff)
    have "service_inv ?s"
      unfolding service_inv_def r
    proof (intro conjI allI impI)
      fix l h assume "((registered s)(npt \<mapsto> ?h)) l = Some h"
      then have "h = ?h \<or> lookup_worker m l = Some h" using m(1) by (auto simp: registered_def split: if_splits)
      then show "\<exists>c. ss_heap ?s (ptr h) = Some c \<and> idle_handler (c_handler c)" using live idle by auto
    qed (use m' m(3) in auto)
    then show ?thesis using c r by (intro exI [of _ True] exI [of _ ?s]) simp
  next
    case False
    have "\<exists>s'. connect oc npt s = Inr (False, s') \<and> m_sspMgr s' = Some m \<and> m_bStopped s' = m_bStopped s
        \<and> (\<forall>p. p \<noteq> ?p \<longrightarrow> ss_heap s' p = ss_heap s p)"
      using False by (auto simp: defs)
    then obtain s' where s': "connect oc npt s = Inr (False, s')" "m_sspMgr s' = Some m" "\<not> m_bStopped s'"
      "\<And>p. p \<noteq> ?p \<Longrightarrow> ss_heap s' p = ss_heap s p" using m(3) by auto
    have r: "registered s' = registered s" using s'(2) m(1) by (simp add: registered_def fun_eq_iff)
    have "\<exists>c. ss_heap s' (ptr h) = Some c \<and> idle_handler (c_handler c)" if "registered s l = Some h" for l h
      using live [of l h] that m(1) s'(4) [of "ptr h"] by (auto simp: registered_def)
    then have "service_inv s'" using s'(2,3) m(2) by (simp add: service_inv_def r)
    then show ?thesis using s' r by (intro exI [of _ False] exI [of _ s']) simp
  qed
qed

text \<open>The service stays sound when a connection is closed, by this side or by the peer.\<close>

lemma closed_service_inv:
  assumes "service_inv s" "m_sspMgr s = Some m" "mgr_inv m'" "lookup_worker m' = (lookup_worker m)(l := None)"
    and "lookup_worker m l = Some h" "ss_heap s (ptr h) = Some c"
  shows "service_inv (s\<lparr>m_sspMgr := Some m', ss_heap := (ss_heap s)(ptr h \<mapsto> c')\<rparr>)"
proof -
  have inv: "mgr_inv m" "\<not> m_bStopped s" using assms(1,2) by (auto simp: service_inv_def)
  have "ptr h' \<noteq> ptr h \<and> (\<exists>c. ss_heap s (ptr h') = Some c \<and> idle_handler (c_handler c))"
    if "lookup_worker m' l' = Some h'" for l' h'
  proof -
    have l': "lookup_worker m l' = Some h'" "l' \<noteq> l" using that assms(4) by (auto split: if_splits)
    then have "ptr h' \<noteq> ptr h"
      using mgr_inv_unique [OF inv(1), of l h l' h'] assms(5) by (auto simp: lookup_worker_def)
    then show ?thesis using assms(1,2) l'(1) by (simp add: service_inv_def registered_def)
  qed
  then show ?thesis using inv(2) assms(3) by (auto simp: service_inv_def registered_def)
qed

lemma clear_and_release_idle:
  assumes "ss_heap s (ptr h) = Some c" "idle_handler (c_handler c)"
  shows "clear_and_release h s = Inr (s\<lparr>ss_heap := (ss_heap s)(ptr h \<mapsto>
    \<lparr>c_handler = (c_handler c)\<lparr>h_ref := 0, del_events := 1, wakeups := wakeups (c_handler c) + 1\<rparr>,
     c_worker = ClearMessage (c_worker c)\<rparr>)\<rparr>)"
  using assms last_release [OF assms(2)] by (simp add: clear_and_release_def)

text \<open>Closing a registered connection: it is no longer found, its handler asks once for its deletion.\<close>

lemma close_registered:
  assumes inv: "service_inv s" and reg: "registered s l = Some h"
    and mg: "m_sspMgr s = Some m" "mgr_inv m'" "lookup_worker m' = (lookup_worker m)(l := None)"
  shows "\<exists>s' c. clear_and_release h (s\<lparr>m_sspMgr := Some m'\<rparr>) = Inr s' \<and> service_inv s'
    \<and> registered s' = (registered s)(l := None) \<and> ss_heap s' (ptr h) = Some c \<and> del_events (c_handler c) = 1
    \<and> queue_of c = []"
proof -
  have l: "lookup_worker m l = Some h" using reg mg(1) by (simp add: registered_def)
  obtain c where c: "ss_heap s (ptr h) = Some c" "idle_handler (c_handler c)" using inv reg by (auto simp: service_inv_def)
  let ?c = "\<lparr>c_handler = (c_handler c)\<lparr>h_ref := 0, del_events := 1, wakeups := wakeups (c_handler c) + 1\<rparr>,
     c_worker = ClearMessage (c_worker c)\<rparr>"
  let ?s = "s\<lparr>m_sspMgr := Some m', ss_heap := (ss_heap s)(ptr h \<mapsto> ?c)\<rparr>"
  have "clear_and_release h (s\<lparr>m_sspMgr := Some m'\<rparr>) = Inr ?s"
    using clear_and_release_idle [of "s\<lparr>m_sspMgr := Some m'\<rparr>" h c] c by simp
  moreover have "service_inv ?s" by (rule closed_service_inv [OF inv mg(1) mg(2,3) l c(1)])
  moreover have "registered ?s = (registered s)(l := None)" using mg by (simp add: registered_def fun_eq_iff)
  moreover have "queue_of ?c = []" by (simp add: queue_of_def ClearMessage_def Clear_def)
  ultimately show ?thesis by (intro exI [of _ ?s] exI [of _ ?c]) simp
qed

section \<open>Properties\<close>

text \<open>C26. One connection per logic peer, the first: a second connection of a registered peer is refused and
  changes nothing, and when any connection breaks, no other registered connection is lost, not even when
  the broken one was a refused duplicate for the same logic peer.\<close>

theorem manager_keeps_first_connection:
  assumes "mgr_inv m" "lookup_worker m l = Some h'" "h' \<noteq> h"
    and "\<forall>l h''. lookup_worker m l = Some h'' \<longrightarrow> real_of h'' = real_of h \<longrightarrow> h'' = h"
  shows "(logic_of h = l \<longrightarrow> PutWorkerEventHandler h m = (False, m))
    \<and> lookup_worker (snd (RemoveWorkerEventHandler2 (logic_of h) (real_of h) m)) l = Some h'
    \<and> mgr_inv (snd (RemoveWorkerEventHandler2 (logic_of h) (real_of h) m))"
  using uwm.closed_keeps_others [OF assms(1-3)] assms(4) uwm.put_taken [of m h h'] assms(2)
  unfolding uwm.do_closed_def by auto

definition demo_ref :: "nat \<Rightarrow> conn_ref" where
  "demo_ref i = \<lparr>ptr = i, logic_of = new_net_peer_info ''a'' 80 Tcp, real_of = new_net_peer_info ''a'' (of_nat i) Tcp\<rparr>"

definition demo_mgr :: UniqueWorkerManager where
  "demo_mgr = snd (PutWorkerEventHandler (demo_ref 1) new_UniqueWorkerManager)"

lemma demo_mgr_facts: "mgr_inv demo_mgr" "lookup_worker demo_mgr = [logic_of (demo_ref 1) \<mapsto> demo_ref 1]"
proof -
  have e: "lookup_worker new_UniqueWorkerManager = Map.empty"
    by (simp add: lookup_worker_def new_UniqueWorkerManager_def fun_eq_iff)
  then show "mgr_inv demo_mgr" "lookup_worker demo_mgr = [logic_of (demo_ref 1) \<mapsto> demo_ref 1]"
    using mgr_put_free [OF mgr_inv_new, of "demo_ref 1"] by (auto simp: demo_mgr_def)
qed

theorem manager_keeps_first_connection_witness:
  "PutWorkerEventHandler (demo_ref 2) demo_mgr = (False, demo_mgr)
   \<and> lookup_worker (snd (RemoveWorkerEventHandler2 (logic_of (demo_ref 2)) (real_of (demo_ref 2)) demo_mgr))
       (logic_of (demo_ref 1)) = Some (demo_ref 1)"
  using manager_keeps_first_connection [of demo_mgr "logic_of (demo_ref 1)" "demo_ref 1" "demo_ref 2"] demo_mgr_facts
  by (simp add: demo_ref_def new_net_peer_info_def)


definition demo_service :: NBSocketService where
  "demo_service = snd (Service_Start True new_NBSocketService)"

definition demo_outcome :: conn_outcome where
  "demo_outcome = \<lparr>oc_socket = True, oc_connect = True, oc_acked = True, oc_nonblocking = True,
     oc_ref = demo_ref 1, oc_worker = demo_worker [] []\<rparr>"

lemma demo_service_facts: "service_inv demo_service" "registered demo_service = Map.empty"
proof -
  have "m_sspMgr demo_service = Some new_UniqueWorkerManager" "\<not> m_bStopped demo_service"
    by (simp_all add: demo_service_def Service_Start_def new_NBSocketService_def)
  then show "service_inv demo_service" "registered demo_service = Map.empty"
    using mgr_inv_new by (simp_all add: service_inv_def registered_def lookup_worker_def new_UniqueWorkerManager_def fun_eq_iff)
qed


text \<open>C27. Disconnecting from a peer and the end of a connection that broke both unregister the connection of
  that peer and no other, drop its queue and ask the event worker exactly once to delete its handler;
  a peer that is not registered is left alone.\<close>

theorem closing_unregisters:
  assumes "service_inv s" "registered s l = Some h" "sp l = Tcp"
  shows "(\<exists>s' c. Disconnect l s = Inr (True, s') \<and> service_inv s' \<and> registered s' = (registered s)(l := None)
           \<and> ss_heap s' (ptr h) = Some c \<and> del_events (c_handler c) = 1 \<and> queue_of c = [])
       \<and> (\<exists>s' c. on_finish h s = Inr s' \<and> service_inv s' \<and> registered s' = (registered s)(l := None)
           \<and> ss_heap s' (ptr h) = Some c \<and> del_events (c_handler c) = 1 \<and> queue_of c = [])"
proof -
  obtain m where m: "m_sspMgr s = Some m" "mgr_inv m" "\<not> m_bStopped s" using assms(1) by (auto simp: service_inv_def)
  have l: "lookup_worker m l = Some h" "logic_of h = l"
    using assms(2) m by (auto simp: registered_def uwm.keyed)
  obtain m1 where m1: "RemoveWorkerEventHandler1 l m = (Some h, m1)" "mgr_inv m1" "lookup_worker m1 = (lookup_worker m)(l := None)"
    using uwm.remove_lookup [OF m(2), of l] l(1) by auto
  obtain m2 where m2: "RemoveWorkerEventHandler2 l (real_of h) m = (Some h, m2)" "mgr_inv m2" "lookup_worker m2 = (lookup_worker m)(l := None)"
    using uwm.closed_registered [OF m(2), of h] l by auto
  show ?thesis
    using close_registered [OF assms(1,2) m(1) m1(2,3)] close_registered [OF assms(1,2) m(1) m2(2,3)]
      m assms(3) l m1(1) m2(1)
    by (auto simp: Disconnect_def on_finish_def)
qed

theorem closing_unregisters_witness:
  "\<exists>s s'. Service_SendMessage demo_outcome demo_msg (new_net_peer_info ''a'' 80 Tcp) demo_service = Inr (True, s)
     \<and> Disconnect (new_net_peer_info ''a'' 80 Tcp) s = Inr (True, s') \<and> registered s' (new_net_peer_info ''a'' 80 Tcp) = None"
proof -
  let ?l = "new_net_peer_info ''a'' 80 Tcp"
  have tcp: "sp ?l = Tcp" by (simp add: new_net_peer_info_def)
  have fr: "fresh_outcome demo_outcome demo_service" "oc_nonblocking demo_outcome"
    by (simp_all add: fresh_outcome_def demo_service_facts demo_outcome_def)
  obtain s1 where s1: "connect demo_outcome ?l demo_service = Inr (True, s1)" "service_inv s1"
    "registered s1 = [?l \<mapsto> (demo_ref 1)\<lparr>logic_of := ?l\<rparr>]" "ss_heap s1 = [1 \<mapsto> \<lparr>c_handler = SetOwnWorker new_AFileEventHandler, c_worker = demo_worker [] []\<rparr>]"
  proof -
    have "\<exists>s'. connect demo_outcome ?l demo_service = Inr (True, s')"
      by (simp add: connect_def demo_service_def Service_Start_def new_NBSocketService_def GetWorkerEventHandler_def
          lookup_worker_def new_UniqueWorkerManager_def tcp demo_outcome_def on_logic_connect_def PutWorkerEventHandler_def Let_def)
    then obtain s' where s': "connect demo_outcome ?l demo_service = Inr (True, s')" by blast
    have oc: "registered demo_service ?l = None" "ss_heap demo_service = Map.empty" "oc_ref demo_outcome = demo_ref 1"
      "oc_worker demo_outcome = demo_worker [] []" "ptr (demo_ref 1) = 1"
      by (simp add: demo_service_facts)
         (simp_all add: demo_service_def Service_Start_def new_NBSocketService_def demo_outcome_def demo_ref_def)
    from connect_result [OF demo_service_facts(1) oc(1) tcp fr] s'
    show ?thesis using that [of s'] by (auto simp: oc(2-5) [unfolded One_nat_def] demo_service_facts(2))
  qed
  let ?c = "\<lparr>c_handler = SetOwnWorker new_AFileEventHandler, c_worker = demo_worker [] []\<rparr>"
  obtain mg where mg: "m_sspMgr s1 = Some mg" "lookup_worker mg ?l = Some ((demo_ref 1)\<lparr>logic_of := ?l\<rparr>)"
    using s1(3) by (auto simp: registered_def fun_eq_iff split: option.splits dest!: spec [of _ ?l])
  have idle: "idle_handler (c_handler ?c)" by (simp add: idle_handler_def SetOwnWorker_def new_AFileEventHandler_def)
  have heap: "ss_heap s1 (ptr ((demo_ref 1)\<lparr>logic_of := ?l\<rparr>)) = Some ?c" by (simp add: s1(4) demo_ref_def)
  let ?s = "s1\<lparr>ss_heap := (ss_heap s1)(1 \<mapsto> snd (sent_on demo_msg ?c))\<rparr>"
  have ok: "fst (sent_on demo_msg ?c)"
    by (simp add: sent_on_def TryPush_def bq_full_def demo_worker_def new_PosixTcpNetStackWorker_def new_BlockingQueue_def)
  have "GetWorkerEventHandlerWithRef ?l demo_service = Inr (None, demo_service)"
    by (simp add: GetWorkerEventHandlerWithRef_def demo_service_def Service_Start_def new_NBSocketService_def
        lookup_worker_def new_UniqueWorkerManager_def)
  then have run: "Service_SendMessage demo_outcome demo_msg ?l demo_service = Inr (True, ?s)"
    using get_and_send [OF mg heap idle, of demo_msg] s1(1) ok tcp
    by (auto simp: Service_SendMessage_def demo_ref_def demo_service_def Service_Start_def new_NBSocketService_def)
  have reg: "registered ?s ?l = Some ((demo_ref 1)\<lparr>logic_of := ?l\<rparr>)"
    using mg by (simp add: registered_def)
  have "service_inv ?s"
    using service_inv_keep [OF s1(2), of ?l "(demo_ref 1)\<lparr>logic_of := ?l\<rparr>" "snd (sent_on demo_msg ?c)"] idle s1(3)
    by (simp add: sent_on_simps demo_ref_def)
  from closing_unregisters [OF this reg tcp] run show ?thesis by auto
qed

text \<open>Making the descriptor non-blocking fails after the connection was registered: the handler is deleted
  while the manager keeps its address, and the next message to the peer uses it.\<close>

lemma failed_nonblocking_dangles:
  assumes "oc_socket oc" "oc_connect oc" "oc_acked oc" "\<not> oc_nonblocking oc" "sp npt = Tcp"
    and "m_sspMgr s = Some m" "lookup_worker m npt = None" "\<not> m_bStopped s"
  shows "\<exists>s'. connect oc npt s = Inr (False, s') \<and> Service_SendMessage oc' msg npt s' = Inl Dangling"
  using assms
  by (simp add: connect_def GetWorkerEventHandler_def on_logic_connect_def PutWorkerEventHandler_def Let_def
      Service_SendMessage_def GetWorkerEventHandlerWithRef_def lookup_worker_def)

text \<open>A service that is stopped and started again has no connection manager.\<close>

lemma restart_null_manager:
  assumes "\<not> m_bStopped s" "sp npt = Tcp"
  shows "Service_SendMessage oc msg npt (snd (Service_Start True (snd (Service_Stop True s)))) = Inl Null_manager"
  using assms
  by (simp add: Service_SendMessage_def Service_Start_def Service_Stop_def GetWorkerEventHandlerWithRef_def Let_def)

end
