(* ===== verification/EventLoop.thy ===== *)
theory EventLoop
  imports Peers
begin

text \<open>
  The event loop: the event worker (\<open>event-drivers/event-worker.cc\<close> and \<open>.h\<close>), the driver over epoll
  (\<open>epoll-event-driver.cc\<close>), the event manager (\<open>posix/event-manager.cc\<close>), the handler of the wake-up
  pipe (\<open>simple-read-event-handler.cc\<close>) and the accept loop (\<open>server-event-handler.cc\<close>). Handlers are
  addresses. The kernel's interest list and the results of the system calls are arguments. What a pass of
  the loop does to handlers is recorded as a trace, so that a use after a deletion is visible.
\<close>

section \<open>The epoll driver\<close>

abbreviation EVENT_NONE :: u32 where "EVENT_NONE \<equiv> 0"
abbreviation EVENT_READ :: u32 where "EVENT_READ \<equiv> 1"
abbreviation EVENT_WRITE :: u32 where "EVENT_WRITE \<equiv> 2"

abbreviation EPOLLIN :: u32 where "EPOLLIN \<equiv> 0x001"
abbreviation EPOLLOUT :: u32 where "EPOLLOUT \<equiv> 0x004"
abbreviation EPOLLERR :: u32 where "EPOLLERR \<equiv> 0x008"
abbreviation EPOLLHUP :: u32 where "EPOLLHUP \<equiv> 0x010"
abbreviation EPOLLET :: u32 where "EPOLLET \<equiv> 0x80000000"

datatype epoll_op = EPOLL_CTL_ADD | EPOLL_CTL_MOD | EPOLL_CTL_DEL

record NetEvent =
  eh :: nat
  mask :: u32

text \<open>\<open>epoll_ctl op h events\<close> on the interest list \<open>'ep\<close> gives success and the new list.\<close>

type_synonym 'ep epoll_ctl = "epoll_op \<Rightarrow> nat \<Rightarrow> u32 \<Rightarrow> 'ep \<Rightarrow> bool \<times> 'ep"

definition io_bits :: "u32 \<Rightarrow> u32" where
  "io_bits m = (if m AND EVENT_READ \<noteq> 0 then EPOLLIN else 0) OR (if m AND EVENT_WRITE \<noteq> 0 then EPOLLOUT else 0)"

definition Driver_AddEvent :: "'ep epoll_ctl \<Rightarrow> nat \<Rightarrow> u32 \<Rightarrow> u32 \<Rightarrow> 'ep \<Rightarrow> int \<times> 'ep" where
  "Driver_AddEvent ctl h cur_mask m ep =
     (let op = (if cur_mask = EVENT_NONE then EPOLL_CTL_ADD else EPOLL_CTL_MOD);
          events = EPOLLHUP OR EPOLLERR OR EPOLLET;
          m = m OR cur_mask;
          events = events OR io_bits m;
          (ok, ep) = ctl op h events ep
      in (if ok then 0 else -1, ep))"

definition Driver_DeleteEvent :: "'ep epoll_ctl \<Rightarrow> nat \<Rightarrow> u32 \<Rightarrow> u32 \<Rightarrow> 'ep \<Rightarrow> int \<times> 'ep" where
  "Driver_DeleteEvent ctl h cur_mask del_mask ep =
     (let m = cur_mask AND (NOT del_mask);
          events = io_bits m
      in if m \<noteq> EVENT_NONE
         then (case ctl EPOLL_CTL_MOD h events ep of (ok, ep) \<Rightarrow> (if ok then 0 else -1, ep))
         else (case ctl EPOLL_CTL_DEL h events ep of (ok, ep) \<Rightarrow> (if ok then 0 else -1, ep)))"

definition Driver_DeleteHandler :: "'ep epoll_ctl \<Rightarrow> nat \<Rightarrow> 'ep \<Rightarrow> int \<times> 'ep" where
  "Driver_DeleteHandler ctl h ep = (case ctl EPOLL_CTL_DEL h 0 ep of (ok, ep) \<Rightarrow> (if ok then 0 else -1, ep))"

text \<open>What \<open>EventWait\<close> makes of the events the kernel reports; \<open>EINTR\<close> makes it wait again.\<close>

datatype wait_result = Ready "(nat \<times> u32) list" | Wait_interrupted | Wait_failed

definition event_mask :: "u32 \<Rightarrow> u32" where
  "event_mask revents =
     (let m = 0;
          m = (if revents AND EPOLLIN \<noteq> 0 then m OR EVENT_READ else m);
          m = (if revents AND EPOLLOUT \<noteq> 0 then m OR EVENT_WRITE else m)
      in if revents AND EPOLLERR \<noteq> 0 \<or> revents AND EPOLLHUP \<noteq> 0 then m OR EVENT_READ else m)"

fun EventWait :: "wait_result list \<Rightarrow> (int \<times> NetEvent list) \<times> wait_result list" where
  "EventWait [] = ((0, []), [])"
| "EventWait (Ready evs # ws) =
     ((int (length evs), map (\<lambda>(h, revents). \<lparr>eh = h, mask = event_mask revents\<rparr>) evs), ws)"
| "EventWait (Wait_interrupted # ws) = EventWait ws"
| "EventWait (Wait_failed # ws) = ((-1, []), ws)"

section \<open>The event worker\<close>

text \<open>The external events, the interest list, and the bytes in the wake-up pipe. The set of handlers to
  delete is ordered by address.\<close>

record 'ep EventWorker =
  m_lRwOpExtEvents :: "NetEvent list"
  m_lAddEpExtEvents :: "(nat \<times> u32 \<times> u32) list"
  m_lDelEpExtEvents :: "nat list"
  ew_epoll :: 'ep
  ew_pipe :: nat

definition AddExternalRWOpEvent :: "NetEvent \<Rightarrow> 'ep EventWorker \<Rightarrow> 'ep EventWorker" where
  "AddExternalRWOpEvent ne ew = ew\<lparr>m_lRwOpExtEvents := m_lRwOpExtEvents ew @ [ne]\<rparr>"

definition GetExternalRWOpEvents :: "'ep EventWorker \<Rightarrow> NetEvent list \<times> 'ep EventWorker" where
  "GetExternalRWOpEvents ew = (m_lRwOpExtEvents ew, ew\<lparr>m_lRwOpExtEvents := []\<rparr>)"

definition AddExternalEpAddEvent :: "nat \<Rightarrow> u32 \<Rightarrow> u32 \<Rightarrow> 'ep EventWorker \<Rightarrow> 'ep EventWorker" where
  "AddExternalEpAddEvent h cur_mask m ew = ew\<lparr>m_lAddEpExtEvents := m_lAddEpExtEvents ew @ [(h, cur_mask, m)]\<rparr>"

definition GetExternalEpAddEvents :: "'ep EventWorker \<Rightarrow> (nat \<times> u32 \<times> u32) list \<times> 'ep EventWorker" where
  "GetExternalEpAddEvents ew = (m_lAddEpExtEvents ew, ew\<lparr>m_lAddEpExtEvents := []\<rparr>)"

definition AddExternalEpDelEvent :: "nat \<Rightarrow> 'ep EventWorker \<Rightarrow> 'ep EventWorker" where
  "AddExternalEpDelEvent h ew = ew\<lparr>m_lDelEpExtEvents := insort_insert h (m_lDelEpExtEvents ew)\<rparr>"

definition GetExternalEpDelEvents :: "'ep EventWorker \<Rightarrow> nat list \<times> 'ep EventWorker" where
  "GetExternalEpDelEvents ew = (m_lDelEpExtEvents ew, ew\<lparr>m_lDelEpExtEvents := []\<rparr>)"

text \<open>A non-blocking write of one byte to a pipe that holds \<open>cap\<close> bytes; \<open>None\<close> is the exception.\<close>

definition Wakeup :: "nat \<Rightarrow> 'ep EventWorker \<Rightarrow> 'ep EventWorker option" where
  "Wakeup cap ew = (if cap \<le> ew_pipe ew then None else Some (ew\<lparr>ew_pipe := ew_pipe ew + 1\<rparr>))"

text \<open>\<open>PosixLocalReadEventHandler::HandleReadEvent\<close> empties the pipe; \<open>None\<close> is the exception.\<close>

datatype pipe_read = PipeBytes nat | PipeAgain | PipeIntr | PipeEof | PipeError

fun Local_HandleReadEvent :: "pipe_read list \<Rightarrow> bool option" where
  "Local_HandleReadEvent [] = Some True"
| "Local_HandleReadEvent (PipeBytes n # rs) = (if n = 0 then None else Local_HandleReadEvent rs)"
| "Local_HandleReadEvent (PipeAgain # rs) = Some True"
| "Local_HandleReadEvent (PipeIntr # rs) = Local_HandleReadEvent rs"
| "Local_HandleReadEvent (PipeEof # rs) = None"
| "Local_HandleReadEvent (PipeError # rs) = None"

section \<open>A pass of the worker loop\<close>

datatype action = Unregister nat | HandleRead nat | HandleWrite nat | Finish nat | Delete nat | Register nat

fun handler_of :: "action \<Rightarrow> nat" where
  "handler_of (Unregister h) = h"
| "handler_of (HandleRead h) = h"
| "handler_of (HandleWrite h) = h"
| "handler_of (Finish h) = h"
| "handler_of (Delete h) = h"
| "handler_of (Register h) = h"

text \<open>\<open>rd\<close> and \<open>wr\<close> give the results of the handlers' \<open>HandleReadEvent\<close> and \<open>HandleWriteEvent\<close>.\<close>

definition process_event :: "(NetEvent \<Rightarrow> bool) \<Rightarrow> (NetEvent \<Rightarrow> bool) \<Rightarrow> NetEvent \<Rightarrow> action list" where
  "process_event rd wr netEvent =
     (let evMask = mask netEvent;
          rc = True;
          t1 = (if evMask AND EVENT_READ \<noteq> 0 then [HandleRead (eh netEvent)] else []);
          rc = (if evMask AND EVENT_READ \<noteq> 0 then rd netEvent else rc);
          t2 = (if rc \<and> evMask AND EVENT_WRITE \<noteq> 0 then [HandleWrite (eh netEvent)] else []);
          rc = (if rc \<and> evMask AND EVENT_WRITE \<noteq> 0 then wr netEvent else rc)
      in t1 @ t2 @ (if \<not> rc then [Finish (eh netEvent)] else []))"

definition process_events ::
  "(NetEvent \<Rightarrow> bool) \<Rightarrow> (NetEvent \<Rightarrow> bool) \<Rightarrow> nat list \<Rightarrow> NetEvent list \<Rightarrow> action list" where
  "process_events rd wr pendingDelete evs =
     concat (map (process_event rd wr) (filter (\<lambda>e. eh e \<notin> set pendingDelete) evs))"

fun unregister_all :: "'ep epoll_ctl \<Rightarrow> nat list \<Rightarrow> 'ep \<Rightarrow> 'ep" where
  "unregister_all ctl [] ep = ep"
| "unregister_all ctl (h # hs) ep = unregister_all ctl hs (snd (Driver_DeleteHandler ctl h ep))"

fun register_all :: "'ep epoll_ctl \<Rightarrow> (nat \<times> u32 \<times> u32) list \<Rightarrow> 'ep \<Rightarrow> 'ep" where
  "register_all ctl [] ep = ep"
| "register_all ctl ((h, cur, m) # es) ep = register_all ctl es (snd (Driver_AddEvent ctl h cur m ep))"

text \<open>One pass of \<open>worker_loop\<close> with the events \<open>evs\<close> from the driver. What other threads add while the
  pass runs is in the lists of the next pass.\<close>

definition worker_pass ::
  "'ep epoll_ctl \<Rightarrow> (NetEvent \<Rightarrow> bool) \<Rightarrow> (NetEvent \<Rightarrow> bool) \<Rightarrow> NetEvent list \<Rightarrow> 'ep EventWorker
     \<Rightarrow> action list \<times> 'ep EventWorker" where
  "worker_pass ctl rd wr evs ew =
     (let (pendingDelete, ew) = GetExternalEpDelEvents ew;
          ew = ew\<lparr>ew_epoll := unregister_all ctl pendingDelete (ew_epoll ew)\<rparr>;
          t1 = map Unregister pendingDelete;
          t2 = process_events rd wr pendingDelete evs;
          (externalEvents, ew) = GetExternalRWOpEvents ew;
          t3 = process_events rd wr pendingDelete externalEvents;
          t4 = map Delete pendingDelete;
          (addEvs, ew) = GetExternalEpAddEvents ew;
          ew = ew\<lparr>ew_epoll := register_all ctl addEvs (ew_epoll ew)\<rparr>
      in (t1 @ t2 @ t3 @ t4 @ map (\<lambda>(h, _). Register h) addEvs, ew))"

section \<open>The event manager\<close>

record 'ep PosixEventManager =
  m_sp :: SocketProtocol
  m_iConnWorkersCnt :: u32
  m_iCurWorkerIdx :: u32
  em_stopped :: bool
  em_listen :: "'ep EventWorker option"
  em_workers :: "'ep EventWorker list"

datatype manager_error =
  Protocol_not_supported | Division_by_zero | Wakeup_failed | Pipe_failed | Nonblocking_failed | Server_handler_failed
  | Dangling_worker

definition new_EventWorker :: "'ep \<Rightarrow> 'ep EventWorker" where
  "new_EventWorker ep = \<lparr>m_lRwOpExtEvents = [], m_lAddEpExtEvents = [], m_lDelEpExtEvents = [], ew_epoll = ep, ew_pipe = 0\<rparr>"

text \<open>What the system gives the constructor of a worker: the interest list of the new epoll descriptor,
  whether the pipe is made and its two ends are set non-blocking, and the address of the handler of the
  reading end, which goes into the interest list.\<close>

record 'ep worker_os =
  os_epoll :: 'ep
  os_pipe :: bool
  os_nb_recv :: bool
  os_nb_send :: bool
  os_local :: nat

definition make_EventWorker :: "'ep epoll_ctl \<Rightarrow> 'ep worker_os \<Rightarrow> manager_error + 'ep EventWorker" where
  "make_EventWorker ctl os =
     (if \<not> os_pipe os then Inl Pipe_failed
      else if \<not> os_nb_recv os then Inl Nonblocking_failed
      else if \<not> os_nb_send os then Inl Nonblocking_failed
      else Inr (new_EventWorker (snd (Driver_AddEvent ctl (os_local os) EVENT_NONE EVENT_READ (os_epoll os)))))"

fun make_workers :: "'ep epoll_ctl \<Rightarrow> 'ep worker_os list \<Rightarrow> manager_error + 'ep EventWorker list" where
  "make_workers ctl [] = Inr []"
| "make_workers ctl (os # oss) =
     (case make_EventWorker ctl os of
        Inl e \<Rightarrow> Inl e
      | Inr ew \<Rightarrow> (case make_workers ctl oss of Inl e \<Rightarrow> Inl e | Inr ews \<Rightarrow> Inr (ew # ews)))"

text \<open>\<open>srv\<close> is the handler of the server socket when the manager has an address to listen on, or
  \<open>Some None\<close> when its constructor throws. The system's answers for the listening worker are \<open>os 0\<close>,
  those for the \<open>i\<close>-th worker of the connections \<open>os (Suc i)\<close>.\<close>

definition start_listen ::
  "nat \<Rightarrow> 'ep epoll_ctl \<Rightarrow> 'ep worker_os \<Rightarrow> nat option option \<Rightarrow> manager_error + 'ep EventWorker option" where
  "start_listen cap ctl os srv =
     (case srv of
        None \<Rightarrow> Inr None
      | Some srv \<Rightarrow>
          (case make_EventWorker ctl os of
             Inl e \<Rightarrow> Inl e
           | Inr ew \<Rightarrow>
               (case srv of
                  None \<Rightarrow> Inl Server_handler_failed
                | Some h \<Rightarrow>
                    (case Wakeup cap (AddExternalEpAddEvent h EVENT_NONE EVENT_READ ew) of
                       None \<Rightarrow> Inl Wakeup_failed
                     | Some ew \<Rightarrow> Inr (Some ew)))))"

definition Manager_Start ::
  "nat \<Rightarrow> 'ep epoll_ctl \<Rightarrow> (nat \<Rightarrow> 'ep worker_os) \<Rightarrow> nat option option \<Rightarrow> 'ep PosixEventManager
     \<Rightarrow> manager_error + bool \<times> 'ep PosixEventManager" where
  "Manager_Start cap ctl os srv em =
     (if \<not> em_stopped em then Inr (True, em)
      else
        let em = em\<lparr>em_stopped := False\<rparr>
        in if m_sp em \<noteq> Tcp then Inl Protocol_not_supported
           else
             case start_listen cap ctl (os 0) srv of
               Inl e \<Rightarrow> Inl e
             | Inr l \<Rightarrow>
                 (case make_workers ctl (map (\<lambda>i. os (Suc i)) [0..<unat (m_iConnWorkersCnt em)]) of
                    Inl e \<Rightarrow> Inl e
                  | Inr ws \<Rightarrow> Inr (True, em\<lparr>em_listen := l, em_workers := ws\<rparr>)))"

text \<open>\<open>Stop\<close> wakes and deletes the workers one after the other. Their addresses stay in the vector, so a
  later use of one is an error of the model.\<close>

definition Manager_Stop :: "nat \<Rightarrow> 'ep PosixEventManager \<Rightarrow> manager_error + bool \<times> 'ep PosixEventManager" where
  "Manager_Stop cap em =
     (if em_stopped em then Inr (True, em)
      else
        let ws = (case em_listen em of None \<Rightarrow> [] | Some l \<Rightarrow> [l]) @ em_workers em
        in if list_ex (\<lambda>ew. Wakeup cap ew = None) ws then Inl Wakeup_failed
           else Inr (True, em\<lparr>em_stopped := True, em_listen := None, em_workers := []\<rparr>))"

definition EM_AddEvent ::
  "nat \<Rightarrow> nat \<Rightarrow> u32 \<Rightarrow> u32 \<Rightarrow> 'ep PosixEventManager \<Rightarrow> manager_error + 'ep PosixEventManager" where
  "EM_AddEvent cap h cur_mask m em =
     (if m_iConnWorkersCnt em = 0 then Inl Division_by_zero
      else
        let i = (m_iCurWorkerIdx em + 1) mod m_iConnWorkersCnt em
        in if length (em_workers em) \<le> unat i then Inl Dangling_worker
           else
             case Wakeup cap (AddExternalEpAddEvent h cur_mask m (em_workers em ! unat i)) of
               None \<Rightarrow> Inl Wakeup_failed
             | Some ew \<Rightarrow> Inr (em\<lparr>m_iCurWorkerIdx := i, em_workers := (em_workers em)[unat i := ew]\<rparr>))"

section \<open>The accept loop\<close>

datatype accept_result = Accepted string u16 nat | AcceptAgain | AcceptIntr | AcceptAborted | AcceptError int

text \<open>The result, the connections handed to the handshake threads, and the notifications.\<close>

fun Server_HandleReadEvent :: "accept_result list \<Rightarrow> bool \<times> (net_addr \<times> nat) list \<times> ServerNotifyMessageCode list" where
  "Server_HandleReadEvent [] = (True, [], [])"
| "Server_HandleReadEvent (AcceptAgain # rs) = (True, [], [])"
| "Server_HandleReadEvent (AcceptIntr # rs) = Server_HandleReadEvent rs"
| "Server_HandleReadEvent (AcceptAborted # rs) = Server_HandleReadEvent rs"
| "Server_HandleReadEvent (AcceptError err # rs) = (False, [], [ServerError])"
| "Server_HandleReadEvent (Accepted a p fd # rs) =
     (let (rc, tasks, notes) = Server_HandleReadEvent rs in (rc, (\<lparr>addr = a, port = p\<rparr>, fd) # tasks, notes))"

text \<open>The task of an accepted connection: it is given to the event manager exactly when the handshake
  succeeds and the descriptor can be made non-blocking, and deleted otherwise.\<close>

datatype task_end = Stack_connect nat | Delete_handler nat

definition handshake_task :: "bool \<Rightarrow> bool \<Rightarrow> nat \<Rightarrow> task_end" where
  "handshake_task initialized nonblocking h = (if initialized \<and> nonblocking then Stack_connect h else Delete_handler h)"

section \<open>Properties\<close>

lemma process_event_handler: "a \<in> set (process_event rd wr e) \<Longrightarrow> handler_of a = eh e"
  by (auto simp: process_event_def Let_def split: if_splits)

lemma process_events_not_pending: "a \<in> set (process_events rd wr pd evs) \<Longrightarrow> handler_of a \<notin> set pd"
  by (auto simp: process_events_def dest: process_event_handler)

lemma filter_handler_pending:
  "h \<in> set pd \<Longrightarrow> filter (\<lambda>a. handler_of a = h) (process_events rd wr pd evs) = []"
  by (auto simp: filter_empty_conv dest: process_events_not_pending)

lemma filter_map_distinct: "distinct pd \<Longrightarrow> h \<in> set pd \<Longrightarrow> filter (\<lambda>x. x = h) pd = [h]"
  by (induction pd) (auto simp: filter_empty_conv)

lemma worker_pass_trace:
  "fst (worker_pass ctl rd wr evs ew) =
     map Unregister (m_lDelEpExtEvents ew) @ process_events rd wr (m_lDelEpExtEvents ew) evs
     @ process_events rd wr (m_lDelEpExtEvents ew) (m_lRwOpExtEvents ew)
     @ map Delete (m_lDelEpExtEvents ew) @ map (\<lambda>(h, _). Register h) (m_lAddEpExtEvents ew)"
  by (simp add: worker_pass_def GetExternalEpDelEvents_def GetExternalRWOpEvents_def GetExternalEpAddEvents_def Let_def)

text \<open>The handlers to delete are a set.\<close>

lemma del_events_distinct:
  "distinct (m_lDelEpExtEvents ew) \<Longrightarrow> sorted (m_lDelEpExtEvents ew) \<Longrightarrow>
   distinct (m_lDelEpExtEvents (AddExternalEpDelEvent h ew)) \<and> sorted (m_lDelEpExtEvents (AddExternalEpDelEvent h ew))"
  by (simp add: AddExternalEpDelEvent_def distinct_insort_insert sorted_insort_insert)

text \<open>C28. A handler that is to be deleted is taken out of the interest list and deleted once in the pass that
  takes its deletion, and the pass does nothing else with it, whatever events are reported or queued for
  it, unless its registration is still queued.\<close>

theorem deleted_handler_not_used:
  assumes "distinct (m_lDelEpExtEvents ew)" "h \<in> set (m_lDelEpExtEvents ew)"
    and "h \<notin> fst ` set (m_lAddEpExtEvents ew)"
  shows "filter (\<lambda>a. handler_of a = h) (fst (worker_pass ctl rd wr evs ew)) = [Unregister h, Delete h]"
proof -
  have 1: "filter (\<lambda>a. handler_of a = h) (map Unregister (m_lDelEpExtEvents ew)) = [Unregister h]"
    "filter (\<lambda>a. handler_of a = h) (map Delete (m_lDelEpExtEvents ew)) = [Delete h]"
    using filter_map_distinct [OF assms(1,2)] by (simp_all add: filter_map o_def)
  have 2: "filter (\<lambda>a. handler_of a = h) (map (\<lambda>(h, _). Register h) (m_lAddEpExtEvents ew)) = []"
    using assms(3) by (force simp: filter_empty_conv)
  show ?thesis by (simp add: worker_pass_trace 1 2 filter_handler_pending [OF assms(2)])
qed

definition demo_ew :: "unit EventWorker" where
  "demo_ew = AddExternalRWOpEvent \<lparr>eh = 7, mask = EVENT_WRITE\<rparr> (AddExternalEpDelEvent 7 (new_EventWorker ()))"

theorem deleted_handler_not_used_witness:
  "filter (\<lambda>a. handler_of a = 7)
     (fst (worker_pass (\<lambda>_ _ _ ep. (True, ep)) (\<lambda>_. True) (\<lambda>_. True) [\<lparr>eh = 7, mask = EVENT_READ\<rparr>] demo_ew))
   = [Unregister 7, Delete 7]"
proof -
  have "m_lDelEpExtEvents demo_ew = [7]" "m_lAddEpExtEvents demo_ew = []"
    by (simp_all add: demo_ew_def AddExternalRWOpEvent_def AddExternalEpDelEvent_def new_EventWorker_def insort_insert_key_def)
  then show ?thesis using deleted_handler_not_used [of demo_ew 7] by simp
qed

text \<open>A connection that is closed before the loop has taken its registration is deleted and then
  registered: the pass uses the handler after its deletion.\<close>

theorem pending_registration_used_after_delete:
  "\<exists>t. fst (worker_pass ctl rd wr [] (AddExternalEpDelEvent h (AddExternalEpAddEvent h EVENT_NONE m (new_EventWorker ep))))
     = t @ [Delete h, Register h]"
  by (simp add: worker_pass_trace AddExternalEpDelEvent_def AddExternalEpAddEvent_def new_EventWorker_def
      insort_insert_key_def process_events_def)

text \<open>The manager spreads the connections evenly: \<open>n\<close> calls of \<open>AddEvent\<close> from worker \<open>i\<close> on go to the
  workers \<open>i + 1\<close>, \<open>i + 2\<close> and so on, round and round.\<close>

lemma wakeup_keeps: "Wakeup cap ew = Some ew' \<Longrightarrow> m_lAddEpExtEvents ew' = m_lAddEpExtEvents ew"
  by (auto simp: Wakeup_def split: if_splits)

lemma add_event_round_robin:
  assumes "EM_AddEvent cap h c m em = Inr em'" "unat (m_iCurWorkerIdx em) < unat (m_iConnWorkersCnt em)"
    and "length (em_workers em) = unat (m_iConnWorkersCnt em)"
  shows "unat (m_iCurWorkerIdx em') = (unat (m_iCurWorkerIdx em) + 1) mod unat (m_iConnWorkersCnt em)
    \<and> m_lAddEpExtEvents (em_workers em' ! unat (m_iCurWorkerIdx em'))
       = m_lAddEpExtEvents (em_workers em ! unat (m_iCurWorkerIdx em')) @ [(h, c, m)]"
proof -
  let ?i = "(m_iCurWorkerIdx em + 1) mod m_iConnWorkersCnt em"
  have nz: "m_iConnWorkersCnt em \<noteq> 0" using assms(1) by (auto simp: EM_AddEvent_def)
  have "unat (m_iCurWorkerIdx em) + 1 < 2 ^ 32"
    using assms(2) u32_less [of "m_iConnWorkersCnt em"] by simp
  then have "unat (m_iCurWorkerIdx em + 1) = unat (m_iCurWorkerIdx em) + 1"
    by (subst unat_add_lem [THEN iffD1]) simp_all
  then have i: "unat ?i = (unat (m_iCurWorkerIdx em) + 1) mod unat (m_iConnWorkersCnt em)" by (simp add: unat_mod)
  have lt: "unat ?i < length (em_workers em)" using nz assms(3) by (simp add: i unat_gt_0)
  obtain ew where ew: "Wakeup cap (AddExternalEpAddEvent h c m (em_workers em ! unat ?i)) = Some ew"
    "em' = em\<lparr>m_iCurWorkerIdx := ?i, em_workers := (em_workers em)[unat ?i := ew]\<rparr>"
    using assms(1) nz by (auto simp: EM_AddEvent_def Let_def split: option.splits if_splits)
  show ?thesis using i lt ew(2) wakeup_keeps [OF ew(1)] by (simp add: AddExternalEpAddEvent_def)
qed

text \<open>When the system makes every pipe, a stopped manager starts with all its workers, each waiting for the
  reading end of its own pipe and for nothing else, so that a registration can go to any of them.\<close>

lemma make_workers_ok:
  assumes "list_all (\<lambda>os. os_pipe os \<and> os_nb_recv os \<and> os_nb_send os) oss"
  shows "make_workers ctl oss =
    Inr (map (\<lambda>os. new_EventWorker (snd (Driver_AddEvent ctl (os_local os) EVENT_NONE EVENT_READ (os_epoll os)))) oss)"
  using assms by (induction oss) (simp_all add: make_EventWorker_def)

lemma manager_starts:
  assumes "em_stopped em" "m_sp em = Tcp" "\<And>i. os_pipe (os i) \<and> os_nb_recv (os i) \<and> os_nb_send (os i)" "0 < cap"
  shows "\<exists>em'. Manager_Start cap ctl os (Some (Some h)) em = Inr (True, em') \<and> \<not> em_stopped em'
    \<and> length (em_workers em') = unat (m_iConnWorkersCnt em)
    \<and> map_option m_lAddEpExtEvents (em_listen em') = Some [(h, EVENT_NONE, EVENT_READ)]"
  using assms
  by (simp add: Manager_Start_def start_listen_def make_EventWorker_def make_workers_ok list_all_iff Wakeup_def
      AddExternalEpAddEvent_def new_EventWorker_def Let_def)

lemma stopped_manager_has_no_worker:
  assumes "Manager_Stop cap em = Inr (r, em')" "\<not> em_stopped em" "m_iConnWorkersCnt em \<noteq> 0"
  shows "EM_AddEvent cap h c m em' = Inl Dangling_worker"
  using assms by (auto simp: Manager_Stop_def EM_AddEvent_def Let_def split: if_splits)

text \<open>A full wake-up pipe makes \<open>Wakeup\<close> throw, although the worker is going to wake up anyway.\<close>

lemma full_pipe_throws: "((\<lambda>e. Option.bind e (Wakeup cap)) ^^ Suc cap) (Some (new_EventWorker ep)) = None"
proof -
  have "((\<lambda>e. Option.bind e (Wakeup cap)) ^^ n) (Some (new_EventWorker ep)) = Some ((new_EventWorker ep)\<lparr>ew_pipe := n\<rparr>)"
    if "n \<le> cap" for n
    using that by (induction n) (simp_all add: new_EventWorker_def Wakeup_def)
  from this [of cap] show ?thesis by (simp add: Wakeup_def)
qed

text \<open>Every connection accepted before the queue of the server socket is empty gets its task, in order,
  whatever calls are interrupted or connections aborted in between.\<close>

lemma accept_all:
  "Server_HandleReadEvent (rs @ [AcceptAgain]) =
     (True, [(\<lparr>addr = a, port = p\<rparr>, fd). Accepted a p fd \<leftarrow> rs], [])"
  if "list_all (\<lambda>r. r \<noteq> AcceptAgain \<and> (\<forall>e. r \<noteq> AcceptError e)) rs"
  using that by (induction rs rule: Server_HandleReadEvent.induct) auto

end
