(* ===== verification/Rpc.thy ===== *)
theory Rpc
  imports Connections
begin

text \<open>
  The RPC layer: the client with its registered procedures (\<open>rpc/abstract-rpc-client.cc\<close>), the
  synchronous client whose callers wait in contexts until a response, a broken connection or a time-out
  completes them (\<open>abstract-rpc-sync-client.cc\<close>), the server (\<open>rpc-server.cc\<close>), and the messenger that
  sends incoming messages to one of them (\<open>server/node/server-internal-messenger.cc\<close>). Contexts are
  addresses into a heap; the parsing of protobuf messages and the handlers of the node are parameters.
\<close>

section \<open>Clients\<close>

datatype rpc_error = ErrNoRegisteredRpc string | ErrClientBusy | ErrSendTimeout | ErrBrokenPipe
  | ErrBadHandlerId u16 u16 | ErrMessageCorrupt u16 | ErrServerInternal | ErrClientInternal | ErrMsgIdConflict

record ARpcClient =
  cl_stopped :: bool
  cl_registered :: bool
  m_hmapRpcs :: "string \<rightharpoonup> u16"

definition new_ARpcClient :: ARpcClient where
  "new_ARpcClient = \<lparr>cl_stopped = True, cl_registered = False, m_hmapRpcs = Map.empty\<rparr>"

definition registerRpc :: "string \<Rightarrow> u16 \<Rightarrow> ARpcClient \<Rightarrow> bool \<times> ARpcClient" where
  "registerRpc rpcName i c =
     (if cl_registered c then (False, c) else (True, c\<lparr>m_hmapRpcs := (m_hmapRpcs c)(rpcName \<mapsto> i)\<rparr>))"

definition finishRegisterRpc :: "ARpcClient \<Rightarrow> ARpcClient" where
  "finishRegisterRpc c = c\<lparr>cl_registered := True\<rparr>"

definition APPEND_ENTRIES_RPC_ID :: u16 where "APPEND_ENTRIES_RPC_ID = 1"
definition REQUEST_VOTE_RPC_ID :: u16 where "REQUEST_VOTE_RPC_ID = 2"

text \<open>\<open>register_rpc_handlers\<close> of the node's two clients.\<close>

definition register_rpc_handlers :: "ARpcClient \<Rightarrow> bool \<times> ARpcClient" where
  "register_rpc_handlers c =
     (case registerRpc ''AppendEntries'' APPEND_ENTRIES_RPC_ID c of
        (False, c) \<Rightarrow> (False, c)
      | (True, c) \<Rightarrow>
          (case registerRpc ''RequestVote'' REQUEST_VOTE_RPC_ID c of
             (False, c) \<Rightarrow> (False, c)
           | (True, c) \<Rightarrow> (True, finishRegisterRpc c)))"

definition Client_Start :: "ARpcClient \<Rightarrow> bool \<times> ARpcClient" where
  "Client_Start c =
     (if \<not> cl_stopped c then (True, c)
      else case register_rpc_handlers c of
             (False, c) \<Rightarrow> (False, c)
           | (True, c) \<Rightarrow> if \<not> cl_registered c then (False, c) else (True, c\<lparr>cl_stopped := False\<rparr>))"

definition Client_Stop :: "ARpcClient \<Rightarrow> bool \<times> ARpcClient" where
  "Client_Stop c = (if cl_stopped c then (True, c) else (True, c\<lparr>cl_stopped := True\<rparr>))"

record SentRet =
  sr_peer :: net_peer_info
  sr_handlerId :: u16
  sr_msgId :: u64

definition new_SentRet :: SentRet where
  "new_SentRet = \<lparr>sr_peer = new_net_peer_info0, sr_handlerId = 0, sr_msgId = 0\<rparr>"

text \<open>The request of procedure \<open>handlerId\<close> with the serialized message \<open>pb\<close>; \<open>send\<close> is the
  socket service.\<close>

definition rpc_request :: "u64 \<Rightarrow> u16 \<Rightarrow> bytes option \<Rightarrow> SndMessage" where
  "rpc_request i handlerId pb = \<lparr>sm_id = i, sm_body = host_bytes BigEnd 2 handlerId @ opt_bytes pb\<rparr>"

definition SendMessageAsync_id ::
  "(SndMessage \<Rightarrow> net_peer_info \<Rightarrow> bool) \<Rightarrow> string \<Rightarrow> u64 \<Rightarrow> bytes option \<Rightarrow> net_peer_info \<Rightarrow> ARpcClient
     \<Rightarrow> rpc_error + SentRet" where
  "SendMessageAsync_id send rpcName i msg peer c =
     (case m_hmapRpcs c rpcName of
        None \<Rightarrow> Inl (ErrNoRegisteredRpc rpcName)
      | Some handlerId \<Rightarrow>
          if \<not> send (rpc_request i handlerId msg) peer then Inr new_SentRet
          else Inr \<lparr>sr_peer = peer, sr_handlerId = handlerId, sr_msgId = i\<rparr>)"

definition SendMessageAsync ::
  "(SndMessage \<Rightarrow> net_peer_info \<Rightarrow> bool) \<Rightarrow> string \<Rightarrow> bytes option \<Rightarrow> net_peer_info \<Rightarrow> ARpcClient \<Rightarrow> u64
     \<Rightarrow> (rpc_error + SentRet) \<times> u64" where
  "SendMessageAsync send rpcName msg peer c lastId =
     (case m_hmapRpcs c rpcName of
        None \<Rightarrow> (Inl (ErrNoRegisteredRpc rpcName), lastId)
      | Some handlerId \<Rightarrow>
          let (i, lastId) = GetNewId lastId
          in if \<not> send (rpc_request i handlerId msg) peer then (Inr new_SentRet, lastId)
             else (Inr \<lparr>sr_peer = peer, sr_handlerId = handlerId, sr_msgId = i\<rparr>, lastId))"

section \<open>The synchronous client\<close>

datatype CtxState = CtxOk | CtxTimeout | CtxBrokenPipe

record RpcCtx =
  ctx_peer :: net_peer_info
  ctx_msgId :: u64
  ctx_complete :: bool
  ctx_state :: CtxState
  ctx_nm :: "RcvMessage NotifyMessage option"
  ctx_timer :: bool

text \<open>\<open>ctx_timer\<close> says that the timer event of the context is pending. \<open>s_cb\<close> is the message id the
  static callback has captured.\<close>

record ARpcSyncClient =
  m_hmapRpcCtxs :: "u64 \<rightharpoonup> nat"
  m_hmapPeerRpcs :: "net_peer_info \<rightharpoonup> nat set"
  ctxs :: "nat \<rightharpoonup> RpcCtx"
  s_cb :: "u64 option"

definition new_RpcCtx :: "net_peer_info \<Rightarrow> u64 \<Rightarrow> RpcCtx" where
  "new_RpcCtx p i = \<lparr>ctx_peer = p, ctx_msgId = i, ctx_complete = False, ctx_state = CtxOk, ctx_nm = None, ctx_timer = False\<rparr>"

text \<open>The first part of \<open>recvMessage\<close>, up to the wait, for a context \<open>rc\<close> from the pool, whose count stays 0,
  so that it always gives a new one. \<open>subscribed\<close> is whether the timer takes the event; a refused event is an
  exception that leaves the context in the maps.\<close>

definition begin_recv :: "bool \<Rightarrow> nat \<Rightarrow> SentRet \<Rightarrow> ARpcSyncClient \<Rightarrow> rpc_error option \<times> ARpcSyncClient" where
  "begin_recv subscribed rc sr s =
     (let x = new_RpcCtx (sr_peer sr) (sr_msgId sr);
          s = s\<lparr>m_hmapRpcCtxs := (m_hmapRpcCtxs s)(ctx_msgId x \<mapsto> rc),
                m_hmapPeerRpcs := (m_hmapPeerRpcs s)(ctx_peer x \<mapsto>
                  (case m_hmapPeerRpcs s (ctx_peer x) of None \<Rightarrow> {rc} | Some rpcs \<Rightarrow> insert rc rpcs))\<rparr>;
          s = s\<lparr>s_cb := (case s_cb s of None \<Rightarrow> Some (ctx_msgId x) | Some i \<Rightarrow> Some i)\<rparr>;
          s = s\<lparr>ctxs := (ctxs s)(rc \<mapsto> x\<lparr>ctx_timer := subscribed\<rparr>)\<rparr>
      in if \<not> subscribed then (Some ErrClientInternal, s) else (None, s))"

text \<open>A context leaves the two maps.\<close>

definition forget_ctx :: "u64 \<Rightarrow> nat \<Rightarrow> net_peer_info \<Rightarrow> ARpcSyncClient \<Rightarrow> ARpcSyncClient" where
  "forget_ctx i rc p s =
     (let s = s\<lparr>m_hmapRpcCtxs := (m_hmapRpcCtxs s)(i := None)\<rparr>;
          rpcs = (case m_hmapPeerRpcs s p of None \<Rightarrow> {} | Some rpcs \<Rightarrow> rpcs) - {rc}
      in s\<lparr>m_hmapPeerRpcs := (m_hmapPeerRpcs s)(p := (if rpcs = {} then None else Some rpcs))\<rparr>)"

definition broken_ctx :: "nat set \<Rightarrow> nat \<Rightarrow> RpcCtx option \<Rightarrow> RpcCtx option" where
  "broken_ctx rpcs rc x = (if rc \<in> rpcs
     then map_option (\<lambda>x. x\<lparr>ctx_complete := True, ctx_state := CtxBrokenPipe, ctx_timer := False\<rparr>) x else x)"

text \<open>\<open>onRecvMessage\<close>; \<open>None\<close> is the fatal log. The message pointer of a context with a broken pipe is not
  read.\<close>

definition onRecvMessage :: "RcvMessage NotifyMessage \<Rightarrow> ARpcSyncClient \<Rightarrow> ARpcSyncClient option" where
  "onRecvMessage nm s =
     (case nm of
        MessageNotify rm _ \<Rightarrow>
          let i = msg_id (rm_header rm)
          in (case m_hmapRpcCtxs s i of
                None \<Rightarrow> Some s
              | Some rc \<Rightarrow>
                  (case ctxs s rc of
                     None \<Rightarrow> None
                   | Some x \<Rightarrow>
                       let s = forget_ctx i rc (ctx_peer x) s
                       in Some (s\<lparr>ctxs := (ctxs s)(rc \<mapsto>
                            x\<lparr>ctx_complete := True, ctx_nm := Some nm, ctx_timer := False\<rparr>)\<rparr>)))
      | WorkerNotify code peer what \<Rightarrow>
          (case m_hmapPeerRpcs s peer of
             None \<Rightarrow> Some s
           | Some rpcs \<Rightarrow>
               Some (s\<lparr>m_hmapRpcCtxs := (\<lambda>i. case m_hmapRpcCtxs s i of None \<Rightarrow> None
                         | Some rc \<Rightarrow> if \<exists>rc' \<in> rpcs. map_option ctx_msgId (ctxs s rc') = Some i then None else Some rc),
                       ctxs := (\<lambda>rc. broken_ctx rpcs rc (ctxs s rc)),
                       m_hmapPeerRpcs := (m_hmapPeerRpcs s)(peer := None)\<rparr>))
      | ServerNotify code what \<Rightarrow> None)"

text \<open>The timer event of context \<open>rc\<close> is due: the static callback runs, with the message id it captured.\<close>

definition timeout_event :: "nat \<Rightarrow> ARpcSyncClient \<Rightarrow> ARpcSyncClient option" where
  "timeout_event rc s =
     (case ctxs s rc of
        None \<Rightarrow> None
      | Some x \<Rightarrow>
          if \<not> ctx_timer x then None
          else
            let s = s\<lparr>ctxs := (ctxs s)(rc \<mapsto> x\<lparr>ctx_timer := False\<rparr>)\<rparr>
            in (case s_cb s of
                  None \<Rightarrow> None
                | Some i \<Rightarrow>
                    (case m_hmapRpcCtxs s i of
                       None \<Rightarrow> Some s
                     | Some c \<Rightarrow>
                         (case ctxs s c of
                            None \<Rightarrow> None
                          | Some y \<Rightarrow>
                              let s = forget_ctx i c (ctx_peer y) s
                              in Some (s\<lparr>ctxs := (ctxs s)(c \<mapsto> y\<lparr>ctx_complete := True, ctx_state := CtxTimeout\<rparr>)\<rparr>)))))"

text \<open>The end of \<open>recvMessage\<close>: \<open>None\<close> while the caller waits, and when the code and the handler id would
  be read behind a shorter message; else the exception or the message.\<close>

definition check_response :: "endian \<Rightarrow> RcvMessage \<Rightarrow> rpc_error + RcvMessage" where
  "check_response e rm =
     (let serverCode = ReadUInt16 e (rm_data rm);
          handlerId = ReadUInt16 e (drop 2 (rm_data rm))
      in if serverCode = rpc_code_no ErrorNoHandler then Inl (ErrBadHandlerId serverCode handlerId)
         else if serverCode = rpc_code_no ErrorMsg then Inl (ErrMessageCorrupt handlerId)
         else if serverCode = rpc_code_no ErrorInternal then Inl ErrServerInternal
         else Inr rm)"

definition end_recv :: "endian \<Rightarrow> nat \<Rightarrow> ARpcSyncClient \<Rightarrow> (rpc_error + RcvMessage) option" where
  "end_recv e rc s =
     (case ctxs s rc of
        None \<Rightarrow> None
      | Some x \<Rightarrow>
          if \<not> ctx_complete x then None
          else case ctx_state x of
                 CtxTimeout \<Rightarrow> Some (Inl ErrSendTimeout)
               | CtxBrokenPipe \<Rightarrow> Some (Inl ErrBrokenPipe)
               | CtxOk \<Rightarrow>
                     (case ctx_nm x of
                        Some (MessageNotify rm _) \<Rightarrow> if length (rm_data rm) < 4 then None else Some (check_response e rm)
                      | _ \<Rightarrow> None))"

text \<open>\<open>sendMessage\<close> up to the wait, with a new id and with the id of the caller; the null pointer for a failed
  send becomes the exception for a busy client in the procedure that called it.\<close>

definition sendMessage ::
  "(SndMessage \<Rightarrow> net_peer_info \<Rightarrow> bool) \<Rightarrow> bool \<Rightarrow> string \<Rightarrow> nat \<Rightarrow> bytes option \<Rightarrow> net_peer_info \<Rightarrow> ARpcClient \<Rightarrow> u64
     \<Rightarrow> ARpcSyncClient \<Rightarrow> (rpc_error option \<times> ARpcSyncClient) \<times> u64" where
  "sendMessage send subscribed rpcName rc msg peer c lastId s =
     (case SendMessageAsync send rpcName msg peer c lastId of
        (Inl err, lastId) \<Rightarrow> ((Some err, s), lastId)
      | (Inr sr, lastId) \<Rightarrow>
          (if sr_msgId sr = 0 then (Some ErrClientBusy, s) else begin_recv subscribed rc sr s, lastId))"

definition sendMessage_id ::
  "(SndMessage \<Rightarrow> net_peer_info \<Rightarrow> bool) \<Rightarrow> bool \<Rightarrow> string \<Rightarrow> nat \<Rightarrow> u64 \<Rightarrow> bytes option \<Rightarrow> net_peer_info \<Rightarrow> ARpcClient
     \<Rightarrow> ARpcSyncClient \<Rightarrow> rpc_error option \<times> ARpcSyncClient" where
  "sendMessage_id send subscribed rpcName rc i msg peer c s =
     (case SendMessageAsync_id send rpcName i msg peer c of
        Inl err \<Rightarrow> (Some err, s)
      | Inr sr \<Rightarrow> if sr_msgId sr = 0 then (Some ErrClientBusy, s) else begin_recv subscribed rc sr s)"

text \<open>The end of a synchronous procedure: \<open>parse\<close> is the response object after the parser has filled it, whose
  result is not looked at.\<close>

definition sync_response :: "endian \<Rightarrow> (bytes \<Rightarrow> 'r) \<Rightarrow> nat \<Rightarrow> ARpcSyncClient \<Rightarrow> (rpc_error + 'r) option" where
  "sync_response e parse rc s =
     (case end_recv e rc s of
        None \<Rightarrow> None
      | Some (Inl err) \<Rightarrow> Some (Inl err)
      | Some (Inr rm) \<Rightarrow> Some (Inr (parse (drop 2 (drop 2 (rm_data rm))))))"

section \<open>The server\<close>

text \<open>A handler: whether it makes a request object, which payloads the request parses, and the serialized
  response to a payload.\<close>

record IRpcHandler =
  hd_creates :: bool
  hd_parses :: "bytes \<Rightarrow> bool"
  hd_handle :: "bytes \<Rightarrow> bytes option"

text \<open>A key of \<open>m_hmHandlers\<close> can hold the null pointer.\<close>

record RpcServer =
  sv_stopped :: bool
  sv_registered :: bool
  m_hmHandlers :: "u16 \<rightharpoonup> IRpcHandler option"

definition new_RpcServer :: RpcServer where
  "new_RpcServer = \<lparr>sv_stopped = True, sv_registered = False, m_hmHandlers = Map.empty\<rparr>"

definition RegisterRpc :: "u16 \<Rightarrow> IRpcHandler \<Rightarrow> RpcServer \<Rightarrow> bool \<times> RpcServer" where
  "RegisterRpc i handler s =
     (if sv_registered s then (False, s) else (True, s\<lparr>m_hmHandlers := (m_hmHandlers s)(i \<mapsto> Some handler)\<rparr>))"

definition FinishRegisterRpc :: "RpcServer \<Rightarrow> RpcServer" where
  "FinishRegisterRpc s = s\<lparr>sv_registered := True\<rparr>"

definition Server_Start :: "RpcServer \<Rightarrow> bool \<times> RpcServer" where
  "Server_Start s = (if \<not> sv_stopped s \<or> \<not> sv_registered s then (False, s) else (True, s\<lparr>sv_stopped := False\<rparr>))"

definition Server_Stop :: "RpcServer \<Rightarrow> bool \<times> RpcServer" where
  "Server_Stop s = (if sv_stopped s then (True, s) else (True, s\<lparr>sv_stopped := True\<rparr>))"

text \<open>The responses and the peer each is sent to. An error response gets a new id and no peer.\<close>

definition RpcResponseBase_msg :: "RpcCode \<Rightarrow> u16 \<Rightarrow> u64 \<Rightarrow> (SndMessage \<times> net_peer_info) \<times> u64" where
  "RpcResponseBase_msg code ht lastId =
     (let (i, lastId) = GetNewId lastId
      in ((\<lparr>sm_id = i, sm_body = host_bytes BigEnd 2 (rpc_code_no code) @ host_bytes BigEnd 2 ht\<rparr>, new_net_peer_info0), lastId))"

definition RpcResponse_msg :: "bytes option \<Rightarrow> u16 \<Rightarrow> RcvMessage \<Rightarrow> u64 \<Rightarrow> (SndMessage \<times> net_peer_info) \<times> u64" where
  "RpcResponse_msg res ht rm lastId =
     (let (i, lastId) = GetNewId lastId
      in ((\<lparr>sm_id = msg_id (rm_header rm),
            sm_body = host_bytes BigEnd 2 (rpc_code_no OK) @ host_bytes BigEnd 2 ht @ opt_bytes res\<rparr>, rm_peer rm), lastId))"

datatype proc_result = Replies "SndMessage \<times> net_peer_info" u64 RpcServer | No_reply RpcServer | Throws | Undefined

definition proc_msg :: "endian \<Rightarrow> RcvMessage NotifyMessage \<Rightarrow> u64 \<Rightarrow> RpcServer \<Rightarrow> proc_result" where
  "proc_msg e nm lastId s =
     (case nm of
        MessageNotify rm _ \<Rightarrow>
          if length (rm_data rm) < 2 then Undefined
          else
            let handlerId = ReadUInt16 e (rm_data rm);
                body = drop 2 (rm_data rm);
                handler = (case m_hmHandlers s handlerId of None \<Rightarrow> None | Some h \<Rightarrow> h);
                s = s\<lparr>m_hmHandlers := (m_hmHandlers s)(handlerId \<mapsto> handler)\<rparr>
            in (case handler of
                  None \<Rightarrow> (case RpcResponseBase_msg ErrorNoHandler handlerId lastId of (m, l) \<Rightarrow> Replies m l s)
                | Some h \<Rightarrow>
                    if \<not> hd_creates h
                    then (case RpcResponseBase_msg ErrorInternal handlerId lastId of (m, l) \<Rightarrow> Replies m l s)
                    else if \<not> hd_parses h body
                    then (case RpcResponseBase_msg ErrorMsg handlerId lastId of (m, l) \<Rightarrow> Replies m l s)
                    else (case RpcResponse_msg (hd_handle h body) handlerId rm lastId of (m, l) \<Rightarrow> Replies m l s))
      | WorkerNotify code peer what \<Rightarrow> No_reply s
      | ServerNotify code what \<Rightarrow> Throws)"

section \<open>The messenger\<close>

datatype client_kind = SyncClient | AsyncClient

record ServerInternalMessenger =
  m_msgHandlerMapper :: "u64 \<rightharpoonup> client_kind"
  m_addrMsgMapper :: "net_peer_info \<rightharpoonup> u64 set"

text \<open>\<open>None\<close> is the exception for a conflicting id. The set of a new peer is copied into the map before
  the id is put into it.\<close>

definition add_msg_to_mapper ::
  "u64 \<Rightarrow> client_kind \<Rightarrow> net_peer_info \<Rightarrow> ServerInternalMessenger \<Rightarrow> ServerInternalMessenger option" where
  "add_msg_to_mapper i handler peer s =
     (if m_msgHandlerMapper s i \<noteq> None then None
      else
        let s = s\<lparr>m_msgHandlerMapper := (m_msgHandlerMapper s)(i \<mapsto> handler)\<rparr>
        in case m_addrMsgMapper s peer of
             Some ids \<Rightarrow> Some (s\<lparr>m_addrMsgMapper := (m_addrMsgMapper s)(peer \<mapsto> insert i ids)\<rparr>)
           | None \<Rightarrow> Some (s\<lparr>m_addrMsgMapper := (m_addrMsgMapper s)(peer \<mapsto> {})\<rparr>))"

text \<open>\<open>None\<close>: the end iterator is dereferenced.\<close>

definition remove_msg_from_msg_handler_map :: "u64 \<Rightarrow> ServerInternalMessenger \<Rightarrow> client_kind option option" where
  "remove_msg_from_msg_handler_map i s = (case m_msgHandlerMapper s i of Some h \<Rightarrow> Some None | None \<Rightarrow> None)"

definition remove_msg_from_map ::
  "u64 \<Rightarrow> net_peer_info \<Rightarrow> ServerInternalMessenger \<Rightarrow> (client_kind option \<times> ServerInternalMessenger) option" where
  "remove_msg_from_map i peer s =
     (case remove_msg_from_msg_handler_map i s of
        None \<Rightarrow> None
      | Some None \<Rightarrow> Some (None, s)
      | Some (Some handler) \<Rightarrow>
          (case m_addrMsgMapper s peer of
             None \<Rightarrow> Some (None, s)
           | Some ids \<Rightarrow> Some (Some handler, s\<lparr>m_addrMsgMapper := (m_addrMsgMapper s)(peer \<mapsto> ids - {i})\<rparr>)))"

definition clear_peer_msg_map :: "net_peer_info \<Rightarrow> ServerInternalMessenger \<Rightarrow> ServerInternalMessenger option" where
  "clear_peer_msg_map peer s =
     (case m_addrMsgMapper s peer of
        None \<Rightarrow> Some s
      | Some ids \<Rightarrow>
          if ids = {} then Some s
          else if \<exists>i \<in> ids. remove_msg_from_msg_handler_map i s = None then None
          else Some (s\<lparr>m_addrMsgMapper := (m_addrMsgMapper s)(peer := None)\<rparr>))"

datatype route = ToClient client_kind | ToServer | Handled

definition dispatch_msg ::
  "bool \<Rightarrow> RcvMessage NotifyMessage \<Rightarrow> ServerInternalMessenger \<Rightarrow> (route \<times> ServerInternalMessenger) option" where
  "dispatch_msg stopped nm s =
     (if stopped then Some (Handled, s)
      else case nm of
             MessageNotify rm _ \<Rightarrow>
               (case remove_msg_from_map (msg_id (rm_header rm)) (rm_peer rm) s of
                  None \<Rightarrow> None
                | Some (Some k, s) \<Rightarrow> Some (ToClient k, s)
                | Some (None, s) \<Rightarrow> Some (ToServer, s))
           | WorkerNotify code peer what \<Rightarrow> map_option (Pair Handled) (clear_peer_msg_map peer s)
           | ServerNotify code what \<Rightarrow> Some (Handled, s))"

text \<open>The procedures of the messenger; \<open>lastId\<close> is the counter of message ids. The asynchronous client's
  \<open>RequestVote\<close> is called without the mapped id and takes a new one.\<close>

definition AppendEntriesAsync ::
  "(SndMessage \<Rightarrow> net_peer_info \<Rightarrow> bool) \<Rightarrow> bytes option \<Rightarrow> net_peer_info \<Rightarrow> ARpcClient \<Rightarrow> ServerInternalMessenger \<Rightarrow> u64
     \<Rightarrow> (rpc_error + SentRet) \<times> ServerInternalMessenger \<times> u64" where
  "AppendEntriesAsync send req peer c s lastId =
     (let (i, lastId) = GetNewId lastId
      in case add_msg_to_mapper i AsyncClient peer s of
           None \<Rightarrow> (Inl ErrMsgIdConflict, s, lastId)
         | Some s \<Rightarrow> (SendMessageAsync_id send ''AppendEntries'' i req peer c, s, lastId))"

definition RequestVoteAsync ::
  "(SndMessage \<Rightarrow> net_peer_info \<Rightarrow> bool) \<Rightarrow> bytes option \<Rightarrow> net_peer_info \<Rightarrow> ARpcClient \<Rightarrow> ServerInternalMessenger \<Rightarrow> u64
     \<Rightarrow> (rpc_error + SentRet) \<times> ServerInternalMessenger \<times> u64" where
  "RequestVoteAsync send req peer c s lastId =
     (let (i, lastId) = GetNewId lastId
      in case add_msg_to_mapper i AsyncClient peer s of
           None \<Rightarrow> (Inl ErrMsgIdConflict, s, lastId)
         | Some s \<Rightarrow> (case SendMessageAsync send ''RequestVote'' req peer c lastId of (r, lastId) \<Rightarrow> (r, s, lastId)))"

text \<open>The synchronous procedures up to the wait, with the context \<open>rc\<close> of the call.\<close>

definition sync_call ::
  "(SndMessage \<Rightarrow> net_peer_info \<Rightarrow> bool) \<Rightarrow> bool \<Rightarrow> string \<Rightarrow> nat \<Rightarrow> bytes option \<Rightarrow> net_peer_info \<Rightarrow> ARpcClient
     \<Rightarrow> ServerInternalMessenger \<Rightarrow> ARpcSyncClient \<Rightarrow> u64
     \<Rightarrow> (rpc_error option \<times> ARpcSyncClient) \<times> ServerInternalMessenger \<times> u64" where
  "sync_call send subscribed rpcName rc req peer c s sc lastId =
     (let (i, lastId) = GetNewId lastId
      in case add_msg_to_mapper i SyncClient peer s of
           None \<Rightarrow> ((Some ErrMsgIdConflict, sc), s, lastId)
         | Some s \<Rightarrow> (sendMessage_id send subscribed rpcName rc i req peer c sc, s, lastId))"

definition AppendEntriesSync where "AppendEntriesSync send subscribed = sync_call send subscribed ''AppendEntries''"
definition RequestVoteSync where "RequestVoteSync send subscribed = sync_call send subscribed ''RequestVote''"

text \<open>The parts of the messenger that start and stop with it. The result of starting the socket service is
  not looked at.\<close>

record MessengerParts =
  im_stopped :: bool
  im_dispatch :: bool
  m_pSyncClient :: ARpcClient
  m_pAsyncClient :: ARpcClient
  m_pServer :: RpcServer

definition new_MessengerParts :: MessengerParts where
  "new_MessengerParts = \<lparr>im_stopped = True, im_dispatch = False, m_pSyncClient = new_ARpcClient,
     m_pAsyncClient = new_ARpcClient, m_pServer = new_RpcServer\<rparr>"

definition server_register_rpc_handlers :: "IRpcHandler \<Rightarrow> IRpcHandler \<Rightarrow> RpcServer \<Rightarrow> RpcServer" where
  "server_register_rpc_handlers appendEntriesHandler requestVoteHandler sv =
     FinishRegisterRpc (snd (RegisterRpc REQUEST_VOTE_RPC_ID requestVoteHandler
       (snd (RegisterRpc APPEND_ENTRIES_RPC_ID appendEntriesHandler sv))))"

definition ServerSync_Start :: "IRpcHandler \<Rightarrow> IRpcHandler \<Rightarrow> RpcServer \<Rightarrow> bool \<times> RpcServer" where
  "ServerSync_Start ha hv sv = Server_Start (server_register_rpc_handlers ha hv sv)"

definition Messenger_Start :: "IRpcHandler \<Rightarrow> IRpcHandler \<Rightarrow> MessengerParts \<Rightarrow> bool \<times> MessengerParts" where
  "Messenger_Start ha hv p =
     (if \<not> im_stopped p then (True, p)
      else
        let p = p\<lparr>im_stopped := False, im_dispatch := True\<rparr>
        in case Client_Start (m_pSyncClient p) of
             (False, c) \<Rightarrow> (False, p\<lparr>m_pSyncClient := c\<rparr>)
           | (True, c) \<Rightarrow>
               (let p = p\<lparr>m_pSyncClient := c\<rparr>
                in case Client_Start (m_pAsyncClient p) of
                     (False, c) \<Rightarrow> (False, p\<lparr>m_pAsyncClient := c\<rparr>)
                   | (True, c) \<Rightarrow>
                       (let p = p\<lparr>m_pAsyncClient := c\<rparr>
                        in case ServerSync_Start ha hv (m_pServer p) of (ok, sv) \<Rightarrow> (ok, p\<lparr>m_pServer := sv\<rparr>))))"

definition Messenger_Stop :: "MessengerParts \<Rightarrow> bool \<times> MessengerParts" where
  "Messenger_Stop p =
     (if im_stopped p then (True, p)
      else (True, p\<lparr>im_stopped := True, m_pSyncClient := snd (Client_Stop (m_pSyncClient p)),
                    m_pAsyncClient := snd (Client_Stop (m_pAsyncClient p)), m_pServer := snd (Server_Stop (m_pServer p)),
                    im_dispatch := False\<rparr>))"

text \<open>\<open>OnRequestVote\<close> and \<open>OnAppendEntries\<close> of the messenger call the service of its creator, and those of
  the service call its messenger.\<close>

datatype callee = RpcService | InternalMessenger

partial_function (option) OnRequest :: "callee \<Rightarrow> bytes \<Rightarrow> bytes option" where
  "OnRequest c msg = (case c of RpcService \<Rightarrow> OnRequest InternalMessenger msg | InternalMessenger \<Rightarrow> OnRequest RpcService msg)"

section \<open>The contexts of the synchronous client\<close>

text \<open>The two maps hold the same contexts, the ones still waiting.\<close>

definition sync_inv :: "ARpcSyncClient \<Rightarrow> bool" where
  "sync_inv s \<longleftrightarrow>
     (\<forall>i c. m_hmapRpcCtxs s i = Some c \<longrightarrow> (\<exists>x. ctxs s c = Some x \<and> ctx_msgId x = i \<and> \<not> ctx_complete x
        \<and> ctx_state x = CtxOk \<and> (\<exists>S. m_hmapPeerRpcs s (ctx_peer x) = Some S \<and> c \<in> S)))
   \<and> (\<forall>p S c. m_hmapPeerRpcs s p = Some S \<longrightarrow> c \<in> S \<longrightarrow>
        (\<exists>x. ctxs s c = Some x \<and> ctx_peer x = p \<and> m_hmapRpcCtxs s (ctx_msgId x) = Some c))"

lemma sync_invI:
  assumes "\<And>i c. m_hmapRpcCtxs s i = Some c \<Longrightarrow> \<exists>x S. ctxs s c = Some x \<and> ctx_msgId x = i \<and> \<not> ctx_complete x
        \<and> ctx_state x = CtxOk \<and> m_hmapPeerRpcs s (ctx_peer x) = Some S \<and> c \<in> S"
    and "\<And>p S c. m_hmapPeerRpcs s p = Some S \<Longrightarrow> c \<in> S \<Longrightarrow>
        \<exists>x. ctxs s c = Some x \<and> ctx_peer x = p \<and> m_hmapRpcCtxs s (ctx_msgId x) = Some c"
  shows "sync_inv s"
  using assms unfolding sync_inv_def by blast

lemma sync_ctxD:
  assumes "sync_inv s" "m_hmapRpcCtxs s i = Some c"
  obtains x S where "ctxs s c = Some x" "ctx_msgId x = i" "\<not> ctx_complete x" "ctx_state x = CtxOk"
    "m_hmapPeerRpcs s (ctx_peer x) = Some S" "c \<in> S"
  using assms unfolding sync_inv_def by blast

lemma sync_peerD:
  assumes "sync_inv s" "m_hmapPeerRpcs s p = Some S" "c \<in> S"
  obtains x where "ctxs s c = Some x" "ctx_peer x = p" "m_hmapRpcCtxs s (ctx_msgId x) = Some c"
  using assms unfolding sync_inv_def by blast

lemma forget_ctx_simps [simp]:
  "ctxs (forget_ctx i c p s) = ctxs s" "s_cb (forget_ctx i c p s) = s_cb s"
  "m_hmapRpcCtxs (forget_ctx i c p s) = (m_hmapRpcCtxs s)(i := None)"
  by (simp_all add: forget_ctx_def Let_def)

lemma forget_ctx_peers:
  "m_hmapPeerRpcs (forget_ctx i c p s) q = Some S \<longleftrightarrow>
     (if q = p then \<exists>R. m_hmapPeerRpcs s p = Some R \<and> S = R - {c} \<and> S \<noteq> {} else m_hmapPeerRpcs s q = Some S)"
  by (auto simp: forget_ctx_def Let_def split: option.splits if_splits)

text \<open>A context that is completed leaves both maps and nothing else changes.\<close>

lemma complete_ctx_inv:
  assumes inv: "sync_inv s" and c: "m_hmapRpcCtxs s i = Some c" "ctxs s c = Some x"
  shows "sync_inv ((forget_ctx i c (ctx_peer x) s)\<lparr>ctxs := (ctxs s)(c \<mapsto> y)\<rparr>)"
proof (rule sync_invI, goal_cases)
  case (1 j d)
  then have d: "m_hmapRpcCtxs s j = Some d" "j \<noteq> i" by (auto split: if_splits)
  obtain z S where z: "ctxs s d = Some z" "ctx_msgId z = j" "\<not> ctx_complete z" "ctx_state z = CtxOk"
    "m_hmapPeerRpcs s (ctx_peer z) = Some S" "d \<in> S" by (rule sync_ctxD [OF inv d(1)])
  obtain x' S' where "ctxs s c = Some x'" "ctx_msgId x' = i" by (rule sync_ctxD [OF inv c(1)])
  then have "d \<noteq> c" using z(1,2) d(2) by auto
  then show ?case using z by (cases "ctx_peer z = ctx_peer x") (auto simp: forget_ctx_peers)
next
  case (2 p S d)
  then have "d \<noteq> c" "\<exists>R. m_hmapPeerRpcs s p = Some R \<and> d \<in> R"
    using sync_peerD [OF inv, of p S c] c(2)
    by (auto simp: forget_ctx_peers split: if_splits)
  then obtain R where R: "m_hmapPeerRpcs s p = Some R" "d \<in> R" "d \<noteq> c" by blast
  obtain z where z: "ctxs s d = Some z" "ctx_peer z = p" "m_hmapRpcCtxs s (ctx_msgId z) = Some d"
    by (rule sync_peerD [OF inv R(1,2)])
  have "ctx_msgId z \<noteq> i" using z(3) c(1) R(3) by auto
  then show ?case using z R(3) by simp
qed

lemma begin_recv_inv:
  assumes inv: "sync_inv s" and new: "m_hmapRpcCtxs s (sr_msgId sr) = None" "\<And>i c. m_hmapRpcCtxs s i = Some c \<Longrightarrow> c \<noteq> rc"
  shows "sync_inv (snd (begin_recv subscribed rc sr s))
    \<and> m_hmapRpcCtxs (snd (begin_recv subscribed rc sr s)) (sr_msgId sr) = Some rc"
proof -
  let ?s = "snd (begin_recv subscribed rc sr s)" and ?x = "new_RpcCtx (sr_peer sr) (sr_msgId sr)\<lparr>ctx_timer := subscribed\<rparr>"
  let ?S = "case m_hmapPeerRpcs s (sr_peer sr) of None \<Rightarrow> {rc} | Some rpcs \<Rightarrow> insert rc rpcs"
  have f: "m_hmapRpcCtxs ?s = (m_hmapRpcCtxs s)(sr_msgId sr \<mapsto> rc)" "ctxs ?s = (ctxs s)(rc \<mapsto> ?x)"
    "m_hmapPeerRpcs ?s = (m_hmapPeerRpcs s)(sr_peer sr \<mapsto> ?S)"
    by (simp_all add: begin_recv_def new_RpcCtx_def Let_def)
  have x: "ctx_peer ?x = sr_peer sr" "ctx_msgId ?x = sr_msgId sr" "\<not> ctx_complete ?x" "ctx_state ?x = CtxOk"
    by (simp_all add: new_RpcCtx_def)
  have "sync_inv ?s"
  proof (rule sync_invI, goal_cases)
    case (1 i c)
    show ?case
    proof (cases "c = rc")
      case True
      with 1 new(2) have "i = sr_msgId sr" by (auto simp: f split: if_splits)
      then show ?thesis using True x by (auto simp: f split: option.splits)
    next
      case False
      with 1 have i: "m_hmapRpcCtxs s i = Some c" by (auto simp: f split: if_splits)
      obtain z R where "ctxs s c = Some z" "ctx_msgId z = i" "\<not> ctx_complete z" "ctx_state z = CtxOk"
        "m_hmapPeerRpcs s (ctx_peer z) = Some R" "c \<in> R" by (rule sync_ctxD [OF inv i])
      then show ?thesis using False by (auto simp: f)
    qed
  next
    case (2 p S c)
    show ?case
    proof (cases "c = rc")
      case True
      have "p = sr_peer sr"
      proof (rule ccontr)
        assume "p \<noteq> sr_peer sr"
        with 2 True have S: "m_hmapPeerRpcs s p = Some S" "rc \<in> S" by (simp_all add: f)
        obtain z where "ctxs s rc = Some z" "ctx_peer z = p" "m_hmapRpcCtxs s (ctx_msgId z) = Some rc"
          by (rule sync_peerD [OF inv S])
        then show False using new(2) by blast
      qed
      then show ?thesis using True x by (simp add: f)
    next
      case False
      then obtain R where R: "m_hmapPeerRpcs s p = Some R" "c \<in> R"
        using 2 by (auto simp: f split: if_splits option.splits)
      obtain z where z: "ctxs s c = Some z" "ctx_peer z = p" "m_hmapRpcCtxs s (ctx_msgId z) = Some c"
        by (rule sync_peerD [OF inv R])
      then show ?thesis using False new(1) by (auto simp: f)
    qed
  qed
  then show ?thesis by (simp add: f)
qed

section \<open>Properties\<close>

lemma response_completes_call_aux:
  assumes "sync_inv s" "m_hmapRpcCtxs s (msg_id (rm_header rm)) = Some c" "4 \<le> length (rm_data rm)"
  shows "\<exists>s'. onRecvMessage (MessageNotify rm r) s = Some s' \<and> sync_inv s'
    \<and> end_recv e c s' = Some (check_response e rm)
    \<and> m_hmapRpcCtxs s' = (m_hmapRpcCtxs s)(msg_id (rm_header rm) := None)
    \<and> (\<forall>c'. c' \<noteq> c \<longrightarrow> ctxs s' c' = ctxs s c')"
proof -
  obtain x S where x: "ctxs s c = Some x" "ctx_state x = CtxOk" by (rule sync_ctxD [OF assms(1,2)])
  let ?y = "x\<lparr>ctx_complete := True, ctx_nm := Some (MessageNotify rm r), ctx_timer := False\<rparr>"
  let ?s = "(forget_ctx (msg_id (rm_header rm)) c (ctx_peer x) s)\<lparr>ctxs := (ctxs s)(c \<mapsto> ?y)\<rparr>"
  have "onRecvMessage (MessageNotify rm r) s = Some ?s" using assms(2) x by (simp add: onRecvMessage_def Let_def)
  moreover have "sync_inv ?s" by (rule complete_ctx_inv [OF assms(1,2) x(1)])
  moreover have "end_recv e c ?s = Some (check_response e rm)" using x(2) assms(3) by (simp add: end_recv_def)
  ultimately show ?thesis by auto
qed

text \<open>C29. A response completes exactly the call that waits for its id: the caller gets it, whatever other calls
  are waiting, none of which changes, and the maps stay consistent.\<close>

theorem response_completes_call:
  assumes "sync_inv s" "m_hmapRpcCtxs s (msg_id (rm_header rm)) = Some c" "4 \<le> length (rm_data rm)"
  shows "\<exists>s'. onRecvMessage (MessageNotify rm r) s = Some s' \<and> sync_inv s'
    \<and> end_recv e c s' = Some (check_response e rm)
    \<and> m_hmapRpcCtxs s' = (m_hmapRpcCtxs s)(msg_id (rm_header rm) := None)
    \<and> (\<forall>c'. c' \<noteq> c \<longrightarrow> ctxs s' c' = ctxs s c')"
  by (rule response_completes_call_aux [OF assms])

definition demo_client :: ARpcSyncClient where
  "demo_client = snd (begin_recv True 1 \<lparr>sr_peer = new_net_peer_info ''a'' 80 Tcp, sr_handlerId = 2, sr_msgId = 5\<rparr>
     \<lparr>m_hmapRpcCtxs = Map.empty, m_hmapPeerRpcs = Map.empty, ctxs = Map.empty, s_cb = None\<rparr>)"

lemma demo_client_inv: "sync_inv demo_client" "m_hmapRpcCtxs demo_client 5 = Some 1"
  using begin_recv_inv [of "\<lparr>m_hmapRpcCtxs = Map.empty, m_hmapPeerRpcs = Map.empty, ctxs = Map.empty, s_cb = None\<rparr>"
      "\<lparr>sr_peer = new_net_peer_info ''a'' 80 Tcp, sr_handlerId = 2, sr_msgId = 5\<rparr>" 1 True]
  by (simp_all add: demo_client_def sync_inv_def)

theorem response_completes_call_witness:
  "\<exists>s'. onRecvMessage (MessageNotify \<lparr>rm_peer = new_net_peer_info0, rm_header = \<lparr>magic = 0, msg_id = 5, len = 4\<rparr>,
       rm_data = [0, 0, 0, 2]\<rparr> None) demo_client = Some s' \<and> m_hmapRpcCtxs s' 5 = None"
  using response_completes_call [OF demo_client_inv(1), of "\<lparr>rm_peer = new_net_peer_info0,
      rm_header = \<lparr>magic = 0, msg_id = 5, len = 4\<rparr>, rm_data = [0, 0, 0, 2]\<rparr>" 1 None LittleEnd] demo_client_inv(2) by auto

lemma proc_msg_replies:
  assumes "rm_data rm = sm_body (rpc_request i hid pb)" "msg_id (rm_header rm) = i"
    and "m_hmHandlers sv hid = Some (Some h)" "hd_creates h" "hd_parses h (opt_bytes pb)"
  shows "\<exists>l sv'. proc_msg e (MessageNotify rm r) lastId sv = Replies (\<lparr>sm_id = i,
      sm_body = host_bytes BigEnd 2 (rpc_code_no OK) @ host_bytes BigEnd 2 hid
        @ opt_bytes (hd_handle h (opt_bytes pb))\<rparr>, rm_peer rm) l sv'"
proof -
  have "ReadUInt16 e (host_bytes BigEnd 2 hid @ rest) = hid" for rest by (rule u16c.rd_enc)
  then have hid: "ReadUInt16 e (rm_data rm) = hid" "drop 2 (rm_data rm) = opt_bytes pb" "\<not> length (rm_data rm) < 2"
    by (simp_all add: assms(1) rpc_request_def)
  then show ?thesis
    using assms(2-5) by (simp add: proc_msg_def RpcResponse_msg_def Let_def split: prod.splits)
qed

text \<open>An RPC from end to end: when the handler of the procedure parses the request, the server's answer goes
  to the peer the request came from and carries its id; received by the client it completes the waiting
  call without an exception, and the call returns what the parser makes of the handler's result, on
  hosts of any byte order.\<close>

theorem rpc_call_answered:
  assumes req: "rm_data rm = sm_body (rpc_request i hid pb)" "msg_id (rm_header rm) = i"
    and srv: "m_hmHandlers sv hid = Some (Some h)" "hd_creates h" "hd_parses h (opt_bytes pb)"
    and cl: "sync_inv s" "m_hmapRpcCtxs s i = Some c"
  shows "\<exists>m l sv' s'. proc_msg e (MessageNotify rm r) lastId sv = Replies (m, rm_peer rm) l sv'
    \<and> onRecvMessage (MessageNotify (received w m) None) s = Some s'
    \<and> end_recv e' c s' = Some (Inr (received w m))
    \<and> sync_response e' parse c s' = Some (Inr (parse (opt_bytes (hd_handle h (opt_bytes pb)))))"
proof -
  have rd: "ReadUInt16 e (host_bytes BigEnd 2 v @ rest) = v" for e v rest by (rule u16c.rd_enc)
  let ?m = "\<lparr>sm_id = i, sm_body = host_bytes BigEnd 2 (rpc_code_no OK) @ host_bytes BigEnd 2 hid
      @ opt_bytes (hd_handle h (opt_bytes pb))\<rparr>"
  have p: "\<exists>l sv'. proc_msg e (MessageNotify rm r) lastId sv = Replies (?m, rm_peer rm) l sv'"
    by (rule proc_msg_replies [OF req srv])
  have i: "msg_id (rm_header (received w ?m)) = i" by (simp add: received_def getNewRcvMessage_def frame_header_def)
  have d: "rm_data (received w ?m) = sm_body ?m" by (simp add: received_def getNewRcvMessage_def)
  have rc: "ReadUInt16 e' (rm_data (received w ?m)) = rpc_code_no OK" unfolding d using rd by simp
  have "check_response e' (received w ?m) = Inr (received w ?m)"
    unfolding check_response_def Let_def rc by (simp add: rpc_code_no_def)
  then show ?thesis
    using p response_completes_call_aux [OF cl(1), of "received w ?m" c None e'] cl(2) i d
    by (auto simp: sync_response_def)
qed

theorem rpc_call_answered_witness:
  "\<exists>m l sv' s'. proc_msg LittleEnd (MessageNotify \<lparr>rm_peer = new_net_peer_info ''c'' 9 Tcp,
         rm_header = \<lparr>magic = MESSAGE_MAGIC_NO, msg_id = 5, len = 2\<rparr>, rm_data = sm_body (rpc_request 5 2 None)\<rparr> None) 7
         (new_RpcServer\<lparr>m_hmHandlers := [2 \<mapsto> Some \<lparr>hd_creates = True, hd_parses = (\<lambda>_. True), hd_handle = (\<lambda>_. Some [8])\<rparr>]\<rparr>)
       = Replies (m, new_net_peer_info ''c'' 9 Tcp) l sv'
     \<and> onRecvMessage (MessageNotify (received ((demo_worker [] [])\<lparr>logic_peer := new_net_peer_info ''c'' 9 Tcp\<rparr>) m) None) demo_client = Some s'
     \<and> sync_response BigEnd id 1 s' = Some (Inr [8])"
  using rpc_call_answered [of "\<lparr>rm_peer = new_net_peer_info ''c'' 9 Tcp,
      rm_header = \<lparr>magic = MESSAGE_MAGIC_NO, msg_id = 5, len = 2\<rparr>, rm_data = sm_body (rpc_request 5 2 None)\<rparr>" 5 2 None
      "new_RpcServer\<lparr>m_hmHandlers := [2 \<mapsto> Some \<lparr>hd_creates = True, hd_parses = (\<lambda>_. True), hd_handle = (\<lambda>_. Some [8])\<rparr>]\<rparr>"
      "\<lparr>hd_creates = True, hd_parses = (\<lambda>_. True), hd_handle = (\<lambda>_. Some [8])\<rparr>" demo_client 1
      LittleEnd None 7 "(demo_worker [] [])\<lparr>logic_peer := new_net_peer_info ''c'' 9 Tcp\<rparr>" BigEnd id] demo_client_inv
  by (auto simp: opt_bytes_def)

text \<open>C30. When a connection breaks, exactly the calls to its peer end with a broken pipe; the calls to other
  peers go on waiting as before.\<close>

theorem broken_connection_fails_its_calls:
  assumes "sync_inv s" "m_hmapRpcCtxs s i = Some c" "ctxs s c = Some x"
  shows "\<exists>s'. onRecvMessage (WorkerNotify code peer what) s = Some s'
    \<and> (if ctx_peer x = peer then end_recv e c s' = Some (Inl ErrBrokenPipe) \<and> m_hmapRpcCtxs s' i = None
       else ctxs s' c = Some x \<and> m_hmapRpcCtxs s' i = Some c)"
proof -
  obtain S where S: "ctx_msgId x = i" "m_hmapPeerRpcs s (ctx_peer x) = Some S" "c \<in> S"
    using assms(3) by (auto intro: sync_ctxD [OF assms(1,2)])
  show ?thesis
  proof (cases "m_hmapPeerRpcs s peer")
    case None
    then have "ctx_peer x \<noteq> peer" using S(2) by auto
    then show ?thesis using None assms by (simp add: onRecvMessage_def)
  next
    case (Some R)
    let ?s = "s\<lparr>m_hmapRpcCtxs := (\<lambda>i. case m_hmapRpcCtxs s i of None \<Rightarrow> None
          | Some rc \<Rightarrow> if \<exists>rc' \<in> R. map_option ctx_msgId (ctxs s rc') = Some i then None else Some rc),
        ctxs := (\<lambda>rc. broken_ctx R rc (ctxs s rc)), m_hmapPeerRpcs := (m_hmapPeerRpcs s)(peer := None)\<rparr>"
    have run: "onRecvMessage (WorkerNotify code peer what) s = Some ?s" using Some by (simp add: onRecvMessage_def)
    show ?thesis
    proof (cases "ctx_peer x = peer")
      case True
      then have "c \<in> R" using S Some by simp
      then show ?thesis
        using run True assms(2,3) S(1) by (auto simp: end_recv_def broken_ctx_def)
    next
      case False
      have notin: "c' \<noteq> c \<and> map_option ctx_msgId (ctxs s c') \<noteq> Some i" if r: "c' \<in> R" for c'
      proof -
        obtain y where y: "ctxs s c' = Some y" "ctx_peer y = peer" "m_hmapRpcCtxs s (ctx_msgId y) = Some c'"
          by (rule sync_peerD [OF assms(1) Some r])
        then have "c' \<noteq> c" using assms(3) False by auto
        then show ?thesis using y assms(2) by auto
      qed
      then have "c \<notin> R" by blast
      then show ?thesis using run False assms(2,3) notin by (auto simp: broken_ctx_def)
    qed
  qed
qed

theorem broken_connection_fails_its_calls_witness:
  "\<exists>s'. onRecvMessage (WorkerNotify ClosedByPeer (new_net_peer_info ''a'' 80 Tcp) []) demo_client = Some s'
     \<and> end_recv LittleEnd 1 s' = Some (Inl ErrBrokenPipe)"
proof -
  have "ctxs demo_client 1 = Some (new_RpcCtx (new_net_peer_info ''a'' 80 Tcp) 5\<lparr>ctx_timer := True\<rparr>)"
    by (simp add: demo_client_def begin_recv_def new_RpcCtx_def Let_def)
  from broken_connection_fails_its_calls [OF demo_client_inv this, of ClosedByPeer "new_net_peer_info ''a'' 80 Tcp" "[]" LittleEnd]
  show ?thesis by (auto simp: new_RpcCtx_def)
qed

text \<open>Only the first call can time out: the callback is a static object that captured the id of the first
  call ever made, so whichever context's timer event is due, a waiting call with another id goes on
  waiting.\<close>

theorem only_first_call_times_out:
  assumes "sync_inv s" "s_cb s = Some i" "m_hmapRpcCtxs s j = Some c" "j \<noteq> i" "timeout_event rc s = Some s'"
  shows "m_hmapRpcCtxs s' j = Some c \<and> end_recv e c s' = None"
proof -
  obtain x S where x: "ctxs s c = Some x" "ctx_msgId x = j" "\<not> ctx_complete x" by (rule sync_ctxD [OF assms(1,3)])
  have other: "d \<noteq> c" if "m_hmapRpcCtxs s i = Some d" for d
    using sync_ctxD [OF assms(1) that] x assms(4) by (metis option.inject)
  show ?thesis
    using assms(2-5) x other
    by (auto simp: timeout_event_def end_recv_def Let_def split: option.splits if_splits)
qed

definition demo_client2 :: ARpcSyncClient where
  "demo_client2 = snd (begin_recv True 2 \<lparr>sr_peer = new_net_peer_info ''a'' 80 Tcp, sr_handlerId = 2, sr_msgId = 6\<rparr> demo_client)"

theorem only_first_call_times_out_witness:
  "\<exists>s'. timeout_event 2 demo_client2 = Some s' \<and> m_hmapRpcCtxs s' 6 = Some 2 \<and> end_recv LittleEnd 2 s' = None"
proof -
  have new: "m_hmapRpcCtxs demo_client 6 = None" "\<And>i c. m_hmapRpcCtxs demo_client i = Some c \<Longrightarrow> c \<noteq> 2" "s_cb demo_client2 = Some 5"
    by (auto simp: demo_client2_def demo_client_def begin_recv_def new_RpcCtx_def Let_def split: if_splits)
  have inv: "sync_inv demo_client2" "m_hmapRpcCtxs demo_client2 6 = Some 2"
    using begin_recv_inv [OF demo_client_inv(1), of "\<lparr>sr_peer = new_net_peer_info ''a'' 80 Tcp, sr_handlerId = 2, sr_msgId = 6\<rparr>" 2 True]
      new by (simp_all add: demo_client2_def)
  have "\<exists>s'. timeout_event 2 demo_client2 = Some s'"
    by (simp add: timeout_event_def demo_client2_def demo_client_def begin_recv_def new_RpcCtx_def Let_def)
  then show ?thesis using only_first_call_times_out [OF inv(1) new(3) inv(2)] by auto
qed

text \<open>An error response never reaches the client: it is made without a peer, and the socket service throws
  on a peer that is not TCP. A request for a procedure that is not registered thereby ends the working
  thread of the server.\<close>

theorem error_reply_throws:
  assumes "2 \<le> length (rm_data rm)" "m_hmHandlers sv (ReadUInt16 e (rm_data rm)) = None" "\<not> m_bStopped svc"
  shows "\<exists>m l sv'. proc_msg e (MessageNotify rm r) lastId sv = Replies (m, new_net_peer_info0) l sv'
    \<and> Service_SendMessage oc m new_net_peer_info0 svc = Inl Not_supported"
  using assms
  by (simp add: proc_msg_def RpcResponseBase_msg_def Service_SendMessage_def new_net_peer_info0_def Let_def split: prod.splits)

theorem error_reply_throws_witness:
  "\<exists>m l sv'. proc_msg LittleEnd (MessageNotify \<lparr>rm_peer = new_net_peer_info0, rm_header = \<lparr>magic = 0, msg_id = 1, len = 2\<rparr>,
         rm_data = [0, 9]\<rparr> None) 7 new_RpcServer = Replies (m, new_net_peer_info0) l sv'
     \<and> Service_SendMessage demo_outcome m new_net_peer_info0 demo_service = Inl Not_supported"
  using error_reply_throws [of "\<lparr>rm_peer = new_net_peer_info0, rm_header = \<lparr>magic = 0, msg_id = 1, len = 2\<rparr>, rm_data = [0, 9]\<rparr>"
      new_RpcServer LittleEnd demo_service None 7 demo_outcome] demo_service_facts(1)
  by (simp add: new_RpcServer_def service_inv_def)

text \<open>The messenger never gives a message to a client: a response whose id was mapped when its request was
  sent goes to the server, and a request of another node, whose id is not mapped, dereferences the end
  iterator.\<close>

theorem messenger_misroutes:
  "dispatch_msg False (MessageNotify rm r) s =
     (if m_msgHandlerMapper s (msg_id (rm_header rm)) = None then None else Some (ToServer, s))"
  by (auto simp: dispatch_msg_def remove_msg_from_map_def remove_msg_from_msg_handler_map_def split: option.splits)

lemma mapped_id_found: "add_msg_to_mapper i k peer s = Some s' \<Longrightarrow> m_msgHandlerMapper s' i = Some k"
  by (auto simp: add_msg_to_mapper_def Let_def split: option.splits if_splits)

lemma new_ids_differ: "fst (GetNewId (snd (GetNewId l))) \<noteq> fst (GetNewId l)"
proof -
  have "x + 1 \<noteq> x" "x + 2 \<noteq> x" for x :: u64 by simp_all
  then show ?thesis by (simp add: GetNewId_def Let_def split: if_splits)
qed

text \<open>The id mapped for a vote request is not the id of the request sent, whose response therefore finds no
  entry in the map.\<close>

theorem vote_response_lost:
  assumes "RequestVoteAsync send req peer c s lastId = (Inr sr, s', l')" "sr_msgId sr \<noteq> 0"
    and "m_msgHandlerMapper s (sr_msgId sr) = None" "msg_id (rm_header rm) = sr_msgId sr"
  shows "dispatch_msg False (MessageNotify rm r) s' = None"
proof -
  obtain i l1 where i: "GetNewId lastId = (i, l1)" by fastforce
  obtain s1 where s1: "add_msg_to_mapper i AsyncClient peer s = Some s1"
    using assms(1) i by (auto simp: RequestVoteAsync_def split: option.splits)
  obtain j l2 where j: "GetNewId l1 = (j, l2)" by fastforce
  have "sr_msgId sr = j" "s' = s1"
    using assms(1,2) i j s1
    by (auto simp: RequestVoteAsync_def SendMessageAsync_def new_SentRet_def split: option.splits if_splits)
  moreover have "j \<noteq> i" using new_ids_differ [of lastId] i j by auto
  moreover have "m_msgHandlerMapper s1 = (m_msgHandlerMapper s)(i \<mapsto> AsyncClient)"
    using s1 by (auto simp: add_msg_to_mapper_def Let_def split: if_splits option.splits)
  ultimately have "m_msgHandlerMapper s' (msg_id (rm_header rm)) = None" using assms(3,4) by simp
  then show ?thesis
    by (simp add: dispatch_msg_def remove_msg_from_map_def remove_msg_from_msg_handler_map_def)
qed

theorem vote_response_lost_witness:
  "\<exists>sr s' l'. RequestVoteAsync (\<lambda>_ _. True) None new_net_peer_info0 (snd (Client_Start new_ARpcClient))
      \<lparr>m_msgHandlerMapper = Map.empty, m_addrMsgMapper = Map.empty\<rparr> 0 = (Inr sr, s', l') \<and> sr_msgId sr = 2
    \<and> dispatch_msg False (MessageNotify \<lparr>rm_peer = new_net_peer_info0, rm_header = \<lparr>magic = 0, msg_id = 2, len = 4\<rparr>,
         rm_data = [0, 0, 0, 2]\<rparr> None) s' = None"
proof -
  obtain sr s' l' where r: "RequestVoteAsync (\<lambda>_ _. True) None new_net_peer_info0 (snd (Client_Start new_ARpcClient))
      \<lparr>m_msgHandlerMapper = Map.empty, m_addrMsgMapper = Map.empty\<rparr> 0 = (Inr sr, s', l')" "sr_msgId sr = 2"
    by (simp add: RequestVoteAsync_def GetNewId_def add_msg_to_mapper_def SendMessageAsync_def Client_Start_def
        new_ARpcClient_def register_rpc_handlers_def registerRpc_def finishRegisterRpc_def Let_def)
  from vote_response_lost [OF r(1), of "\<lparr>rm_peer = new_net_peer_info0, rm_header = \<lparr>magic = 0, msg_id = 2, len = 4\<rparr>,
      rm_data = [0, 0, 0, 2]\<rparr>" None] r show ?thesis by auto
qed

text \<open>A messenger starts once: its parts run and both procedures are registered with the clients and the
  server. After a stop the start fails, and leaves the messenger marked as running.\<close>

theorem messenger_starts_once:
  "(case Messenger_Start ha hv new_MessengerParts of
      (ok, p) \<Rightarrow> ok \<and> \<not> im_stopped p \<and> \<not> sv_stopped (m_pServer p)
        \<and> m_hmapRpcs (m_pAsyncClient p) ''RequestVote'' = Some REQUEST_VOTE_RPC_ID
        \<and> m_hmapRpcs (m_pSyncClient p) ''AppendEntries'' = Some APPEND_ENTRIES_RPC_ID
        \<and> m_hmHandlers (m_pServer p) REQUEST_VOTE_RPC_ID = Some (Some hv)
        \<and> m_hmHandlers (m_pServer p) APPEND_ENTRIES_RPC_ID = Some (Some ha)
        \<and> (case Messenger_Start ha hv (snd (Messenger_Stop p)) of (ok', q) \<Rightarrow> \<not> ok' \<and> \<not> im_stopped q))"
  by (simp add: Messenger_Start_def Messenger_Stop_def new_MessengerParts_def Client_Start_def Client_Stop_def
      new_ARpcClient_def register_rpc_handlers_def registerRpc_def finishRegisterRpc_def ServerSync_Start_def
      server_register_rpc_handlers_def Server_Start_def Server_Stop_def RegisterRpc_def FinishRegisterRpc_def
      new_RpcServer_def APPEND_ENTRIES_RPC_ID_def REQUEST_VOTE_RPC_ID_def Let_def)

text \<open>The first id sent to a peer is not in the set of the peer's ids.\<close>

lemma first_id_not_recorded:
  "m_msgHandlerMapper s i = None \<Longrightarrow> m_addrMsgMapper s peer = None \<Longrightarrow>
   \<exists>s'. add_msg_to_mapper i k peer s = Some s' \<and> m_addrMsgMapper s' peer = Some {}"
  by (simp add: add_msg_to_mapper_def)

text \<open>The answer to a request of another node never returns: service and messenger call each other.\<close>

lemma request_never_returns: "OnRequest c msg = None"
proof -
  have "False" if "OnRequest c msg = Some y" for y
    using that by (rule OnRequest.raw_induct [rotated]) (auto split: callee.splits)
  then show ?thesis by (cases "OnRequest c msg") auto
qed

text \<open>A client that was stopped cannot be started again.\<close>

lemma client_not_restartable:
  "fst (Client_Start new_ARpcClient)
   \<and> \<not> fst (Client_Start (snd (Client_Stop (snd (Client_Start new_ARpcClient)))))"
  by (simp add: Client_Start_def Client_Stop_def new_ARpcClient_def register_rpc_handlers_def registerRpc_def
      finishRegisterRpc_def)

end
