(* ===== verification/RfLog.thy ===== *)
theory RfLog
  imports FileIO Messages
begin

text \<open>
  The log on disk (\<open>server/rflog/realtime-disk-rflogger.cc\<close>): the entries in memory, the append operations,
  \<open>Sync\<close>, which serializes the entries into one buffer and appends it to the file, and the loader that runs
  at a start. The protobuf encoding of an entry and the memory of the pool object that \<open>Sync\<close> fills are
  parameters. A fatal log ends the process; a write behind the pool object and a read behind the mapped
  pages are undefined, and so is \<open>delete []\<close> of a pointer that did not come from \<open>new []\<close>, which is what the
  buffer of the loader does with the mapped memory it points to. File sizes stay below 2 GiB.
\<close>

datatype node_error = Fatal string | Exception string | Assertion_failed | Null_dereference | Out_of_range
  | Buffer_overflow | Undefined_behaviour

section \<open>Entries and the writer\<close>

record RfLogEntry =
  le_term :: u32
  le_index :: u32
  le_type :: nat
  le_data :: bytes

record RtDiskRfLogger =
  m_vEntries :: "RfLogEntry list"
  m_iCurIdxToSync :: nat
  m_iFileSize :: nat
  m_bAutoSync :: bool
  lg_file :: bytes

definition RFLOG_MAGIC_NO :: u32 where "RFLOG_MAGIC_NO = 0x72666c67"
definition RFLOG_MAGIC_NO_LEN :: nat where "RFLOG_MAGIC_NO_LEN = 4"

text \<open>Element \<open>size()\<close> of a vector is out of range.\<close>

definition GetLastEntry :: "RtDiskRfLogger \<Rightarrow> node_error + RfLogEntry option" where
  "GetLastEntry lg =
     (if m_vEntries lg = [] then Inr None
      else let i = length (m_vEntries lg)
           in if i < length (m_vEntries lg) then Inr (Some (m_vEntries lg ! i)) else Inl Out_of_range)"

definition GetEntry :: "nat \<Rightarrow> RtDiskRfLogger \<Rightarrow> RfLogEntry option" where
  "GetEntry index lg = (if index < length (m_vEntries lg) then Some (m_vEntries lg ! index) else None)"

text \<open>The loop of \<open>Sync\<close> over the serialized entries, into the pool object \<open>mem\<close>: \<open>pos\<close> is the position of
  the buffer and \<open>offset\<close> the local variable, both relative to the start of the buffer. \<open>None\<close> is a write
  behind the object.\<close>

fun sync_entries :: "endian \<Rightarrow> nat \<Rightarrow> bytes list \<Rightarrow> nat \<Rightarrow> nat \<Rightarrow> bytes \<Rightarrow> bytes option" where
  "sync_entries e curFileSize [] pos offset mem = Some mem"
| "sync_entries e curFileSize (c # cs) pos offset mem =
     (let entryStartOffset = curFileSize + offset; entrySize = length c
      in if length mem < pos + 4 then None
         else
           let mem = at_off pos (\<lambda>p. WriteUInt32 e p (of_nat entrySize)) mem;
               offset = offset + 4;
               pos = pos + offset
           in if length mem < pos + entrySize then None
              else
                let mem = put_bytes pos c mem;
                    offset = offset + entrySize;
                    pos = pos + offset
                in if length mem < pos + 4 then None
                   else
                     let mem = at_off pos (\<lambda>p. WriteUInt32 e p (of_nat entryStartOffset)) mem;
                         offset = offset + 4;
                         pos = pos + offset
                     in sync_entries e curFileSize cs pos offset mem)"

text \<open>\<open>obj n\<close> is the content of the pool object for a buffer of \<open>n\<close> bytes; the pool asserts that \<open>n\<close> is not 0.\<close>

definition Sync :: "endian \<Rightarrow> (RfLogEntry \<Rightarrow> bytes) \<Rightarrow> (nat \<Rightarrow> bytes) \<Rightarrow> RtDiskRfLogger \<Rightarrow> node_error + RtDiskRfLogger" where
  "Sync e ser obj lg =
     (let cs = map ser (drop (m_iCurIdxToSync lg) (m_vEntries lg));
          len = sum_list (map (\<lambda>c. 8 + length c) cs)
      in if len = 0 then Inl Assertion_failed
         else case sync_entries e (m_iFileSize lg) cs 0 0 (obj len) of
           None \<Rightarrow> Inl Buffer_overflow
         | Some mem \<Rightarrow>
             Inr (lg\<lparr>lg_file := lg_file lg @ take len mem, m_iFileSize := m_iFileSize lg + len\<rparr>))"

definition AppendEntries ::
  "endian \<Rightarrow> (RfLogEntry \<Rightarrow> bytes) \<Rightarrow> (nat \<Rightarrow> bytes) \<Rightarrow> RfLogEntry list \<Rightarrow> RtDiskRfLogger \<Rightarrow> node_error + RtDiskRfLogger" where
  "AppendEntries e ser obj entries lg =
     (let lg = lg\<lparr>m_vEntries := m_vEntries lg @ entries\<rparr>
      in if m_bAutoSync lg then Sync e ser obj lg else Inr lg)"

definition AppendEntry ::
  "endian \<Rightarrow> (RfLogEntry \<Rightarrow> bytes) \<Rightarrow> (nat \<Rightarrow> bytes) \<Rightarrow> RfLogEntry \<Rightarrow> RtDiskRfLogger \<Rightarrow> node_error + RtDiskRfLogger" where
  "AppendEntry e ser obj entry lg =
     (let lg = lg\<lparr>m_vEntries := m_vEntries lg @ [entry]\<rparr>
      in if m_bAutoSync lg then Sync e ser obj lg else Inr lg)"

section \<open>The loader\<close>

text \<open>\<open>mmap\<close> of a file maps whole pages of \<open>pg\<close> bytes; the rest of the last page reads as 0.\<close>

definition mapped :: "nat \<Rightarrow> bytes \<Rightarrow> bytes" where
  "mapped pg f = f @ replicate ((pg - length f mod pg) mod pg) 0"

text \<open>The loop over the file \<open>buf\<close>, mapped at address \<open>base\<close>. The buffer \<open>b\<close> of an entry goes from
  \<open>buf + offset\<close> to \<open>buf + len - 1\<close>; refreshing it for the next entry deletes the array it points to.\<close>

function load_entries ::
  "endian \<Rightarrow> (bytes \<Rightarrow> RfLogEntry option) \<Rightarrow> nat \<Rightarrow> nat \<Rightarrow> bytes \<Rightarrow> nat \<Rightarrow> Buffer \<Rightarrow> RfLogEntry list
     \<Rightarrow> node_error + Buffer \<times> RfLogEntry list" where
  "load_entries e parse base fileSize buf offset b es =
     (if fileSize \<le> offset then Inr (b, es)
      else if length buf < offset + 4 then Inl Out_of_range
      else
        let len = unat (ReadUInt32 e (drop offset buf))
        in if length buf < offset + len + 4 then Inl Out_of_range
           else
             let startPos = unat (ReadUInt32 e (drop (offset + len) buf))
             in if startPos \<noteq> offset then Inl (Fatal ''parse rflog'')
                else
                  let startPtr = base + offset; endPtr = base + len - 1;
                      (b, rel) = Refresh startPtr endPtr startPtr endPtr None b
                  in if rel \<noteq> Nothing_released then Inl Undefined_behaviour
                     else case parse (take (nat (AvailableLength b)) (drop (m_pPos b - base) buf)) of
                       None \<Rightarrow> Inl (Fatal ''deserialize rflog'')
                     | Some rflogEntry \<Rightarrow>
                         load_entries e parse base fileSize buf (offset + len + 4) b (es @ [rflogEntry]))"
  by pat_completeness auto

termination load_entries
  by (relation "measure (\<lambda>(e, parse, base, fileSize, buf, offset, b, es). fileSize - offset)") auto

declare load_entries.simps [simp del]

text \<open>\<open>content\<close> is the file at the start, \<open>None\<close> when there is none. The destructor of the buffer runs at the end
  of the block.\<close>

definition Logger_initialize ::
  "endian \<Rightarrow> nat \<Rightarrow> nat \<Rightarrow> (bytes \<Rightarrow> RfLogEntry option) \<Rightarrow> bool \<Rightarrow> bytes option \<Rightarrow> node_error + RtDiskRfLogger" where
  "Logger_initialize e pg base parse autoSync content =
     (let lg = \<lparr>m_vEntries = [], m_iCurIdxToSync = 0, m_iFileSize = 0, m_bAutoSync = autoSync, lg_file = []\<rparr>
      in case content of
           None \<Rightarrow> Inr (lg\<lparr>lg_file := WriteUInt32 e (replicate RFLOG_MAGIC_NO_LEN 0) RFLOG_MAGIC_NO\<rparr>)
         | Some f \<Rightarrow>
             let lg = lg\<lparr>m_iFileSize := length f, lg_file := f\<rparr>
             in if length f = 0 then Inr lg
                else if length f < RFLOG_MAGIC_NO_LEN then Inl (Fatal ''header is corrupt!'')
                else if ReadUInt32 e f \<noteq> RFLOG_MAGIC_NO then Inl (Fatal ''header is corrupt!'')
                else case load_entries e parse base (length f) (mapped pg f) RFLOG_MAGIC_NO_LEN new_Buffer0 [] of
                       Inl err \<Rightarrow> Inl err
                     | Inr (b, es) \<Rightarrow>
                         if snd (Buffer_Put b) \<noteq> Nothing_released then Inl Undefined_behaviour
                         else Inr (lg\<lparr>m_vEntries := es, m_iCurIdxToSync := length es\<rparr>))"

section \<open>What the writer puts into the file\<close>

lemma take_put_bytes: "n \<le> off \<Longrightarrow> off \<le> length mem \<Longrightarrow> take n (put_bytes off bs mem) = take n mem"
  by (simp add: put_bytes_def min_absorb1)

text \<open>One entry: three writes, or none when the last of them does not fit.\<close>

lemma sync_entries_Cons:
  "sync_entries e fs (c # cs) pos off mem =
     (let p2 = pos + (off + 4); p3 = p2 + (off + 4 + length c)
      in if length mem < p3 + 4 then None
         else sync_entries e fs cs (p3 + (off + 4 + length c + 4)) (off + 4 + length c + 4)
                (put_bytes p3 (host_bytes BigEnd 4 (of_nat (fs + off) :: u32))
                  (put_bytes p2 c (put_bytes pos (host_bytes BigEnd 4 (of_nat (length c) :: u32)) mem))))"
  by (simp add: Let_def u32c.wr_at)

declare sync_entries.simps(2) [simp del]

lemma sync_entries_frame:
  "sync_entries e fs cs pos off mem = Some mem' \<Longrightarrow> length mem' = length mem \<and> take pos mem' = take pos mem"
proof (induction cs arbitrary: pos off mem)
  case (Cons c cs)
  define p2 where "p2 = pos + (off + 4)"
  define p3 where "p3 = p2 + (off + 4 + length c)"
  define m3 where "m3 = put_bytes p3 (host_bytes BigEnd 4 (of_nat (fs + off) :: u32))
    (put_bytes p2 c (put_bytes pos (host_bytes BigEnd 4 (of_nat (length c) :: u32)) mem))"
  have fits: "p3 + 4 \<le> length mem"
    and rec: "sync_entries e fs cs (p3 + (off + 4 + length c + 4)) (off + 4 + length c + 4) m3 = Some mem'"
    using Cons.prems by (auto simp: sync_entries_Cons Let_def p2_def p3_def m3_def split: if_splits)
  have m3: "length m3 = length mem" "take pos m3 = take pos mem"
    using fits by (simp_all add: m3_def p2_def p3_def take_put_bytes)
  note ih = Cons.IH [OF rec]
  have "take pos mem' = take pos (take (p3 + (off + 4 + length c + 4)) mem')"
    by (simp add: p2_def p3_def min_absorb1)
  also have "\<dots> = take pos (take (p3 + (off + 4 + length c + 4)) m3)" using ih by simp
  also have "\<dots> = take pos m3" by (simp add: p2_def p3_def min_absorb1)
  finally show ?case using ih m3 by simp
qed simp

lemma sync_first_entry:
  assumes "sync_entries e fs (c # cs) 0 0 mem = Some mem'"
  shows "take (8 + length c) mem'
       = host_bytes BigEnd 4 (of_nat (length c) :: u32) @ c @ take 4 (drop (4 + length c) mem)"
    and "8 + length c \<le> length mem"
proof -
  define m3 where "m3 = put_bytes (8 + length c) (host_bytes BigEnd 4 (of_nat fs :: u32))
    (put_bytes 4 c (put_bytes 0 (host_bytes BigEnd 4 (of_nat (length c) :: u32)) mem))"
  have fits: "12 + length c \<le> length mem"
    and rec: "sync_entries e fs cs (16 + 2 * length c) (8 + length c) m3 = Some mem'"
    using assms by (auto simp: sync_entries_Cons Let_def m3_def eval_nat_numeral split: if_splits)
  have "take (8 + length c) mem' = take (8 + length c) (take (16 + 2 * length c) mem')" by (simp add: min_absorb1)
  also have "\<dots> = take (8 + length c) (take (16 + 2 * length c) m3)" using sync_entries_frame [OF rec] by simp
  also have "\<dots> = take (8 + length c) m3" by (simp add: min_absorb1)
  also have "\<dots> = take (8 + length c) (put_bytes 4 c (put_bytes 0 (host_bytes BigEnd 4 (of_nat (length c) :: u32)) mem))"
    using fits by (simp add: m3_def take_put_bytes)
  also have "\<dots> = host_bytes BigEnd 4 (of_nat (length c) :: u32) @ c @ take 4 (drop (4 + length c) mem)"
    using fits by (simp add: put_bytes_def add.commute)
  finally show "take (8 + length c) mem'
       = host_bytes BigEnd 4 (of_nat (length c) :: u32) @ c @ take 4 (drop (4 + length c) mem)" .
  show "8 + length c \<le> length mem" using fits by simp
qed

lemma Sync_keeps:
  "Sync e ser obj lg = Inr lg' \<Longrightarrow> m_vEntries lg' = m_vEntries lg \<and> m_iCurIdxToSync lg' = m_iCurIdxToSync lg"
  by (auto simp: Sync_def Let_def split: option.splits if_splits)

text \<open>A successful \<open>Sync\<close> appends for its first entry the length and the content of the documented
  segment, but not its start position: the four bytes behind the content are whatever the pool object held
  there, because the position of the buffer is moved by the accumulated offset. The entries stay marked as
  not yet synced, so that the next \<open>Sync\<close> writes them again.\<close>

theorem sync_omits_start_position:
  assumes "Sync e ser obj lg = Inr lg'" "drop (m_iCurIdxToSync lg) (m_vEntries lg) = entry # rest"
  shows "\<exists>tl. lg_file lg' = lg_file lg @ host_bytes BigEnd 4 (of_nat (length (ser entry)) :: u32) @ ser entry
            @ take 4 (drop (4 + length (ser entry)) (obj (m_iFileSize lg' - m_iFileSize lg))) @ tl
       \<and> drop (m_iCurIdxToSync lg') (m_vEntries lg') = entry # rest"
proof -
  define cs where "cs = map ser rest"
  define len where "len = sum_list (map (\<lambda>c. 8 + length c) (ser entry # cs))"
  obtain mem where sync: "sync_entries e (m_iFileSize lg) (ser entry # cs) 0 0 (obj len) = Some mem"
    and lg': "lg' = lg\<lparr>lg_file := lg_file lg @ take len mem, m_iFileSize := m_iFileSize lg + len\<rparr>"
    using assms by (auto simp: Sync_def Let_def cs_def len_def split: option.splits if_splits)
  note first = sync_first_entry(1) [OF sync]
  have "take len mem = take (8 + length (ser entry)) mem @ drop (8 + length (ser entry)) (take len mem)"
    by (metis (no_types, lifting) append_take_drop_id len_def list.simps(9) min_absorb1 sum_list.Cons take_take
        le_add1)
  then have "take len mem = host_bytes BigEnd 4 (of_nat (length (ser entry)) :: u32) @ ser entry
     @ take 4 (drop (4 + length (ser entry)) (obj len)) @ drop (8 + length (ser entry)) (take len mem)"
    using first by simp
  then show ?thesis using Sync_keeps [OF assms(1)] assms(2) lg' by auto
qed

theorem sync_omits_start_position_witness:
  "\<exists>lg' tl. Sync LittleEnd (\<lambda>_. [7, 8]) (\<lambda>_. replicate 14 0xAA)
      \<lparr>m_vEntries = [\<lparr>le_term = 1, le_index = 1, le_type = 0, le_data = []\<rparr>], m_iCurIdxToSync = 0,
       m_iFileSize = 4, m_bAutoSync = True, lg_file = [1, 2, 3, 4]\<rparr> = Inr lg'
    \<and> lg_file lg' = [1, 2, 3, 4] @ [0, 0, 0, 2] @ [7, 8] @ replicate 4 0xAA @ tl"
proof -
  let ?lg = "\<lparr>m_vEntries = [\<lparr>le_term = 1, le_index = 1, le_type = 0, le_data = []\<rparr>], m_iCurIdxToSync = 0,
       m_iFileSize = 4, m_bAutoSync = True, lg_file = [1, 2, 3, 4]\<rparr>"
  obtain lg' where s: "Sync LittleEnd (\<lambda>_. [7, 8]) (\<lambda>_. replicate 14 0xAA) ?lg = Inr lg'"
    by (simp add: Sync_def sync_entries_Cons)
  from sync_omits_start_position [OF s, of "\<lparr>le_term = 1, le_index = 1, le_type = 0, le_data = []\<rparr>" "[]"]
  show ?thesis using s by (auto simp: host_bytes_def upt_numerals Let_def)
qed

section \<open>What the loader makes of a file\<close>

lemma u32_unat_4: "unat (4 :: u32) = 4"
  by simp

lemma read_mapped: "off + 4 \<le> length f \<Longrightarrow> ReadUInt32 e (drop off (mapped pg f)) = ReadUInt32 e (drop off f)"
  using u32c.rd_local [of "drop off f" e] u32c.rd_local [of "drop off (mapped pg f)" e] by (simp add: mapped_def)

text \<open>The loader does not accept the documented format: it looks for the start position of a segment at
  the segment's start plus the content length, which is inside the segment. A log file of one documented
  segment ends the process at the next start, unless the four bytes there happen to read as 4.\<close>

theorem documented_log_rejected:
  assumes "length c < 2 ^ 32" "ReadUInt32 e (drop (length c) (host_bytes BigEnd 4 (of_nat (length c) :: u32) @ c)) \<noteq> 4"
  shows "Logger_initialize e pg base parse autoSync
           (Some (host_bytes BigEnd 4 RFLOG_MAGIC_NO @ host_bytes BigEnd 4 (of_nat (length c) :: u32) @ c
                  @ host_bytes BigEnd 4 (4 :: u32)))
         = Inl (Fatal ''parse rflog'')"
proof -
  define f where "f = host_bytes BigEnd 4 RFLOG_MAGIC_NO @ host_bytes BigEnd 4 (of_nat (length c) :: u32) @ c
                  @ host_bytes BigEnd 4 (4 :: u32)"
  have len: "length f = 12 + length c" "length f \<le> length (mapped pg f)" by (simp_all add: f_def mapped_def)
  have magic: "ReadUInt32 e f = RFLOG_MAGIC_NO" by (simp add: f_def u32c.rd_enc)
  have size: "unat (ReadUInt32 e (drop 4 (mapped pg f))) = length c"
    using assms(1) len by (simp add: read_mapped f_def u32c.rd_enc unat_of_nat)
  have "ReadUInt32 e (drop (4 + length c) f)
      = ReadUInt32 e (drop (length c) (host_bytes BigEnd 4 (of_nat (length c) :: u32) @ c) @ host_bytes BigEnd 4 (4 :: u32))"
    by (simp add: f_def)
  also have "\<dots> = ReadUInt32 e (drop (length c) (host_bytes BigEnd 4 (of_nat (length c) :: u32) @ c))"
    using u32c.rd_local [of "drop (length c) (host_bytes BigEnd 4 (of_nat (length c) :: u32) @ c)" e]
      u32c.rd_local [of "drop (length c) (host_bytes BigEnd 4 (of_nat (length c) :: u32) @ c)
        @ host_bytes BigEnd 4 (4 :: u32)" e]
    by simp
  finally have "ReadUInt32 e (drop (4 + length c) (mapped pg f)) \<noteq> 4"
    using assms(2) len by (simp add: read_mapped)
  then have "unat (ReadUInt32 e (drop (4 + length c) (mapped pg f))) \<noteq> 4"
    by (metis u32_unat_4 word_unat_eq_iff)
  then have "load_entries e parse base (length f) (mapped pg f) 4 new_Buffer0 [] = Inl (Fatal ''parse rflog'')"
    using len size by (simp add: load_entries.simps Let_def)
  then show ?thesis
    using len(1) magic unfolding f_def [symmetric] by (simp add: Logger_initialize_def Let_def RFLOG_MAGIC_NO_LEN_def)
qed

theorem documented_log_rejected_witness:
  "Logger_initialize LittleEnd 4096 65536 (\<lambda>_. None) True
     (Some (host_bytes BigEnd 4 RFLOG_MAGIC_NO @ host_bytes BigEnd 4 (of_nat (length [8 :: u8, 1]) :: u32) @ [8, 1]
            @ host_bytes BigEnd 4 (4 :: u32)))
   = Inl (Fatal ''parse rflog'')"
  by (rule documented_log_rejected)
    (simp_all add: host_bytes_def upt_numerals Let_def ReadUInt32_def LE_ReadUInt32_def)

lemma new_log_has_no_last_entry:
  "\<exists>lg. Logger_initialize e pg base parse autoSync None = Inr lg \<and> GetLastEntry lg = Inr None \<and> m_iFileSize lg = 0
      \<and> length (lg_file lg) = 4"
  by (simp add: Logger_initialize_def GetLastEntry_def RFLOG_MAGIC_NO_LEN_def u32c.wr_enc)

lemma last_entry_out_of_range: "m_vEntries lg \<noteq> [] \<Longrightarrow> GetLastEntry lg = Inl Out_of_range"
  by (simp add: GetLastEntry_def)

text \<open>The buffer of an entry keeps its start, which is not null, so it is deleted when the next one is
  loaded or at the end.\<close>

lemma Refresh_array:
  "m_pMpObject b = None \<Longrightarrow> Refresh p l st en None b =
     (new_Buffer p l st en None, if m_pStart b \<noteq> 0 then Array_deleted (m_pStart b) else Nothing_released)"
  by (auto simp: Refresh_def new_Buffer_def check_available_def Let_def)

lemma new_Buffer_sel: "m_pMpObject (new_Buffer p l st en mo) = mo" "m_pStart (new_Buffer p l st en mo) = st"
  by (simp_all add: new_Buffer_def check_available_def)

text \<open>One pass of the loop: it refreshes the buffer, or it ends with an error.\<close>

lemma load_entries_pass:
  assumes "load_entries e parse base n buf off b es = Inr (b', es')" "off < n" "m_pMpObject b = None"
  shows "m_pStart b = 0 \<and> (\<exists>len entry. load_entries e parse base n buf (off + len + 4)
    (new_Buffer (base + off) (base + len - 1) (base + off) (base + len - 1) None) (es @ [entry]) = Inr (b', es'))"
  using assms
  by (subst (asm) load_entries.simps)
    (auto simp: Let_def Refresh_array split: if_splits option.splits)

lemma load_entries_keeps_array:
  assumes "load_entries e parse base n buf off b es = Inr (b', es')" "m_pMpObject b = None" "0 < base"
  shows "if n \<le> off then b' = b \<and> es' = es else m_pMpObject b' = None \<and> m_pStart b' \<noteq> 0"
proof (cases "n \<le> off")
  case False
  obtain len entry where next_pass: "load_entries e parse base n buf (off + len + 4)
      (new_Buffer (base + off) (base + len - 1) (base + off) (base + len - 1) None) (es @ [entry]) = Inr (b', es')"
    using load_entries_pass [OF assms(1) _ assms(2)] False by auto
  have "n \<le> off + len + 4"
  proof (rule ccontr)
    assume "\<not> n \<le> off + len + 4"
    then show False using load_entries_pass [OF next_pass] assms(3) by (simp add: new_Buffer_sel)
  qed
  then show ?thesis using next_pass False assms(3) by (simp add: load_entries.simps) (auto simp: new_Buffer_sel)
qed (use assms in \<open>simp add: load_entries.simps\<close>)

text \<open>A log that holds anything is never loaded: the loader returns only for a missing file, an empty file and a
  file of the header alone, and then it has no entry.\<close>

theorem written_log_never_loaded:
  assumes "Logger_initialize e pg base parse autoSync content = Inr lg" "0 < base"
  shows "m_vEntries lg = [] \<and> (\<forall>f. content = Some f \<longrightarrow> length f = 0 \<or> length f = RFLOG_MAGIC_NO_LEN)"
proof (cases content)
  case None
  then show ?thesis using assms(1) by (auto simp: Logger_initialize_def Let_def)
next
  case (Some f)
  show ?thesis
  proof (cases "length f = 0")
    case True
    then show ?thesis using assms(1) Some by (auto simp: Logger_initialize_def Let_def)
  next
    case False
    then obtain b es where l: "load_entries e parse base (length f) (mapped pg f) RFLOG_MAGIC_NO_LEN new_Buffer0 [] = Inr (b, es)"
      and rel: "snd (Buffer_Put b) = Nothing_released" and lg: "m_vEntries lg = es" and long: "RFLOG_MAGIC_NO_LEN \<le> length f"
      using assms(1) Some by (auto simp: Logger_initialize_def Let_def split: if_splits sum.splits)
    have "length f \<le> RFLOG_MAGIC_NO_LEN"
      using load_entries_keeps_array [OF l _ assms(2)] rel by (auto simp: new_Buffer0_def Buffer_Put_def Refresh_array split: if_splits)
    then show ?thesis using load_entries_keeps_array [OF l _ assms(2)] long lg Some by (auto simp: new_Buffer0_def)
  qed
qed

theorem written_log_never_loaded_witness:
  "\<exists>lg. Logger_initialize LittleEnd 4096 65536 (\<lambda>_. None) True (Some (host_bytes BigEnd 4 RFLOG_MAGIC_NO)) = Inr lg
     \<and> m_vEntries lg = []"
proof -
  obtain lg where lg: "Logger_initialize LittleEnd 4096 65536 (\<lambda>_. None) True (Some (host_bytes BigEnd 4 RFLOG_MAGIC_NO)) = Inr lg"
    using u32c.rd_enc [of LittleEnd RFLOG_MAGIC_NO "[]"]
    by (simp add: Logger_initialize_def RFLOG_MAGIC_NO_LEN_def load_entries.simps Buffer_Put_def Refresh_array new_Buffer0_def)
  with written_log_never_loaded [OF lg] show ?thesis by auto
qed

lemma log_reloads:
  assumes "Logger_initialize e pg base parse autoSync content = Inr lg" "0 < base"
  shows "\<exists>lg'. Logger_initialize e pg base parse autoSync (Some (lg_file lg)) = Inr lg'"
proof (cases content)
  case None
  then have "lg_file lg = host_bytes BigEnd 4 RFLOG_MAGIC_NO"
    using assms(1) by (auto simp: Logger_initialize_def RFLOG_MAGIC_NO_LEN_def u32c.wr_enc)
  then show ?thesis using u32c.rd_enc [of e RFLOG_MAGIC_NO "[]"]
    by (simp add: Logger_initialize_def RFLOG_MAGIC_NO_LEN_def load_entries.simps Buffer_Put_def Refresh_array new_Buffer0_def)
next
  case (Some f)
  then have "lg_file lg = f"
    using assms(1) by (auto simp: Logger_initialize_def Let_def split: if_splits sum.splits)
  then show ?thesis using assms(1) Some by auto
qed

end
