(* ===== verification/TextIO.thy ===== *)
theory TextIO
  imports Peers Resources
begin

text \<open>
  Reading text with the streams of the standard library, as the configuration reader uses them:
  \<open>std::getline\<close> on a file, and \<open>operator>>\<close> of a string stream for a signed 32 bit number, an unsigned 16
  bit number and a word. An extraction that sets the fail bit is \<open>None\<close>, otherwise it gives the value and
  the rest of the stream. The lemmas show that a printed value is read back.
\<close>

section \<open>Lines\<close>

text \<open>The lines \<open>getline\<close> gives one after the other; the last line may have no newline.\<close>

function getlines :: "string \<Rightarrow> string list" where
  "getlines s =
     (if s = [] then []
      else let line = takeWhile (\<lambda>c. c \<noteq> CHR 0x0A) s in line # getlines (drop (Suc (length line)) s))"
  by pat_completeness auto

termination getlines
  by (relation "measure length") auto

declare getlines.simps [simp del]

section \<open>Extraction\<close>

definition is_digit :: "char \<Rightarrow> bool" where
  "is_digit c \<longleftrightarrow> (48 :: nat) \<le> of_char c \<and> of_char c \<le> (57 :: nat)"

definition digits_val :: "string \<Rightarrow> nat" where
  "digits_val ds = foldl (\<lambda>n c. 10 * n + (of_char c - 48)) 0 ds"

text \<open>The field of a decimal number: its sign, its digits and what follows them.\<close>

definition num_field :: "string \<Rightarrow> bool \<times> string \<times> string" where
  "num_field s =
     (let s = dropWhile isspace s;
          (neg, s) = (if s \<noteq> [] \<and> hd s = CHR ''-'' then (True, tl s) else if s \<noteq> [] \<and> hd s = CHR ''+'' then (False, tl s) else (False, s))
      in (neg, takeWhile is_digit s, dropWhile is_digit s))"

definition get_int32 :: "string \<Rightarrow> (int \<times> string) option" where
  "get_int32 s =
     (let (neg, ds, rest) = num_field s; v = (if neg then - int (digits_val ds) else int (digits_val ds))
      in if ds = [] \<or> v < - (2 ^ 31) \<or> 2 ^ 31 \<le> v then None else Some (v, rest))"

text \<open>An unsigned number is converted with 64 bits, where a sign negates modulo \<open>2 ^ 64\<close>, and then has to fit.\<close>

definition get_u16 :: "string \<Rightarrow> (u16 \<times> string) option" where
  "get_u16 s =
     (let (neg, ds, rest) = num_field s; v = (if neg then (- int (digits_val ds)) mod 2 ^ 64 else int (digits_val ds))
      in if ds = [] \<or> 2 ^ 64 \<le> digits_val ds \<or> 2 ^ 16 \<le> v then None else Some (of_int v, rest))"

definition get_word :: "string \<Rightarrow> (string \<times> string) option" where
  "get_word s =
     (let s = dropWhile isspace s; w = takeWhile (\<lambda>c. \<not> isspace c) s
      in if w = [] then None else Some (w, dropWhile (\<lambda>c. \<not> isspace c) s))"

section \<open>Printing and reading back\<close>

text \<open>A stream whose next character is not a digit, or that is at its end.\<close>

definition stops :: "(char \<Rightarrow> bool) \<Rightarrow> string \<Rightarrow> bool" where
  "stops P s \<longleftrightarrow> s = [] \<or> \<not> P (hd s)"

lemma takeWhile_stops: "\<forall>c \<in> set w. P c \<Longrightarrow> stops P s \<Longrightarrow> takeWhile P (w @ s) = w \<and> dropWhile P (w @ s) = s"
  by (cases s) (auto simp: stops_def takeWhile_append2 dropWhile_append2)

lemma dec_is_digit: "c \<in> set (dec n) \<Longrightarrow> is_digit c"
  using dec_digits [of n] by (auto simp: is_digit_def of_char_digit dest!: subsetD)

lemma digits_val_snoc: "digits_val (ds @ [c]) = 10 * digits_val ds + (of_char c - 48)"
  by (simp add: digits_val_def)

lemma digits_val_dec: "digits_val (dec n) = n"
proof (induction n rule: dec.induct)
  case (1 n)
  then show ?case
    by (cases "n < 10") (simp_all add: dec.simps [of n] digits_val_snoc of_char_digit digits_val_def del: of_char_of)
qed

lemma is_digit_not_space: "is_digit c \<Longrightarrow> \<not> isspace c \<and> c \<noteq> CHR ''-'' \<and> c \<noteq> CHR ''+''"
  by (auto simp: is_digit_def isspace_def)

lemma num_field_dec:
  assumes "\<forall>c \<in> set ws. isspace c" "stops is_digit rest"
  shows "num_field (ws @ dec n @ rest) = (False, dec n, rest)"
proof -
  obtain c cs where c: "dec n = c # cs" by (cases "dec n") auto
  then have d: "is_digit c" using dec_is_digit [of c n] by simp
  have "dropWhile isspace (ws @ dec n @ rest) = dec n @ rest"
    using assms(1) takeWhile_stops [of ws isspace "dec n @ rest"] c is_digit_not_space [OF d] by (simp add: stops_def)
  moreover have "takeWhile is_digit (dec n @ rest) = dec n" "dropWhile is_digit (dec n @ rest) = rest"
    using takeWhile_stops [of "dec n" is_digit rest] assms(2) dec_is_digit by blast+
  moreover have "hd (dec n @ rest) = c" using c by simp
  ultimately show ?thesis using is_digit_not_space [OF d] by (simp add: num_field_def Let_def)
qed

lemma get_int32_dec:
  assumes "\<forall>c \<in> set ws. isspace c" "stops is_digit rest" "n < 2 ^ 31"
  shows "get_int32 (ws @ dec n @ rest) = Some (int n, rest)"
  using assms by (simp add: get_int32_def num_field_dec digits_val_dec)

lemma get_u16_dec:
  assumes "\<forall>c \<in> set ws. isspace c" "stops is_digit rest"
  shows "get_u16 (ws @ dec (unat (p :: u16)) @ rest) = Some (p, rest)"
  using assms unsigned_less [of p, where 'a = nat] by (simp add: get_u16_def num_field_dec digits_val_dec)

lemma get_word_word:
  assumes "\<forall>c \<in> set ws. isspace c" "\<forall>c \<in> set w. \<not> isspace c" "w \<noteq> []" "stops (\<lambda>c. \<not> isspace c) rest"
  shows "get_word (ws @ w @ rest) = Some (w, rest)"
proof -
  have "dropWhile isspace (ws @ w @ rest) = w @ rest"
    using takeWhile_stops [of ws isspace "w @ rest"] assms(1-3) by (cases w) (auto simp: stops_def)
  then show ?thesis
    using takeWhile_stops [of w "\<lambda>c. \<not> isspace c" rest] assms(2-4) by (simp add: get_word_def Let_def)
qed

lemma getlines_Nil [simp]: "getlines [] = []"
  by (simp add: getlines.simps)

lemma getlines_Cons:
  assumes "CHR 0x0A \<notin> set l"
  shows "getlines (l @ CHR 0x0A # s) = l # getlines s"
proof -
  have "takeWhile (\<lambda>c. c \<noteq> CHR 0x0A) (l @ CHR 0x0A # s) = l"
    using assms by (induction l) auto
  then show ?thesis by (subst getlines.simps) (simp add: Let_def)
qed

lemma getlines_unlines: "\<forall>l \<in> set ls. CHR 0x0A \<notin> set l \<Longrightarrow> getlines (concat (map (\<lambda>l. l @ [CHR 0x0A]) ls)) = ls"
  by (induction ls) (simp_all add: getlines_Cons)

end
