(* ===== verification/Cluster.thy ===== *)
theory Cluster
  imports RfLog TextIO
begin

text \<open>
  The cluster as a node sees it: the servers of the configuration file
  (\<open>common/rf-server-configuration.cc\<close>), the service that loads it (\<open>server/node/elector-manager-service.cc\<close>),
  and the key-value state machine (\<open>server/node/raft-state-machine.cc\<close>). The file is its text; lines and fields are
  read with the streams of \<open>TextIO\<close>.
\<close>

section \<open>Configuration\<close>

record RfServer =
  rs_id :: u32
  rs_addr :: string
  portForServer :: u16
  portForClient :: u16

definition new_RfServer :: RfServer where
  "new_RfServer = \<lparr>rs_id = 0, rs_addr = [], portForServer = 0, portForClient = 0\<rparr>"

text \<open>\<open>m_mapOtherServers\<close> is ordered by the key.\<close>

record RfServerConfiguration =
  m_selfServer :: RfServer
  m_mapOtherServers :: "(u32 \<times> RfServer) list"

definition new_RfServerConfiguration :: RfServerConfiguration where
  "new_RfServerConfiguration = \<lparr>m_selfServer = new_RfServer, m_mapOtherServers = []\<rparr>"

text \<open>The four extractions from a line; the id is a 32 bit signed integer.\<close>

definition scan_line :: "string \<Rightarrow> (int \<times> string \<times> u16 \<times> u16) option" where
  "scan_line line =
     (case get_int32 line of
        None \<Rightarrow> None
      | Some (i, iss) \<Rightarrow>
          (case get_word iss of
             None \<Rightarrow> None
           | Some (a, iss) \<Rightarrow>
               (case get_u16 iss of
                  None \<Rightarrow> None
                | Some (ps, iss) \<Rightarrow> (case get_u16 iss of None \<Rightarrow> None | Some (pc, iss) \<Rightarrow> Some (i, a, ps, pc)))))"

fun Conf_lines ::
  "u32 \<Rightarrow> string list \<Rightarrow> RfServerConfiguration \<Rightarrow> node_error + bool \<times> RfServerConfiguration" where
  "Conf_lines myId [] conf = Inr (True, conf)"
| "Conf_lines myId (line # lines) conf =
     (let line = ltrim line
      in if line = [] \<or> line ! 0 = CHR ''#'' then Conf_lines myId lines conf
         else case scan_line line of
                None \<Rightarrow> Inr (False, conf)
              | Some (i, a, ps, pc) \<Rightarrow>
                  if 0 \<ge> i then Inl (Fatal ''Server id must be larger than 0.'')
                  else
                    let n = of_int i; srv = \<lparr>rs_id = n, rs_addr = a, portForServer = ps, portForClient = pc\<rparr>
                    in if n = myId
                       then if rs_id (m_selfServer conf) = n then Inl (Fatal ''Server id is duplicate!'')
                            else Conf_lines myId lines (conf\<lparr>m_selfServer := srv\<rparr>)
                       else if map_of (m_mapOtherServers conf) n \<noteq> None then Inl (Fatal ''Server id is duplicate!'')
                            else Conf_lines myId lines
                                   (conf\<lparr>m_mapOtherServers := insort_key fst (n, srv) (m_mapOtherServers conf)\<rparr>))"

text \<open>\<open>fs\<close> is the text of the file, \<open>None\<close> when it cannot be opened.\<close>

definition Conf_Initialize ::
  "u32 \<Rightarrow> string option \<Rightarrow> RfServerConfiguration \<Rightarrow> node_error + bool \<times> RfServerConfiguration" where
  "Conf_Initialize myId fs conf =
     (case fs of None \<Rightarrow> Inr (False, conf) | Some f \<Rightarrow> Conf_lines myId (getlines f) conf)"

definition GetSelfServer :: "RfServerConfiguration \<Rightarrow> RfServer" where
  "GetSelfServer conf = m_selfServer conf"

definition GetOtherServers :: "RfServerConfiguration \<Rightarrow> (u32 \<times> RfServer) list" where
  "GetOtherServers conf = m_mapOtherServers conf"

section \<open>The elector manager\<close>

definition Elector_initialize ::
  "u32 \<Rightarrow> string option \<Rightarrow> RfServerConfiguration \<Rightarrow> node_error + bool \<times> RfServerConfiguration" where
  "Elector_initialize myId fs m_pNodeConf =
     (if myId = 0 then Inl (Fatal ''server id must be larger than 0.'') else Conf_Initialize myId fs m_pNodeConf)"

definition Elector_Start ::
  "u32 \<Rightarrow> string option \<Rightarrow> RfServerConfiguration \<Rightarrow> node_error + bool \<times> RfServerConfiguration" where
  "Elector_Start server_id fs m_pNodeConf =
     (case Elector_initialize server_id fs m_pNodeConf of
        Inl err \<Rightarrow> Inl err
      | Inr (False, _) \<Rightarrow> Inl (Fatal ''ElectorManagerService initialize failed!'')
      | Inr (True, conf) \<Rightarrow> Inr (True, conf))"

section \<open>The state machine\<close>

record RfStateMachine =
  sm_stopped :: bool
  m_mapKVs :: "string \<rightharpoonup> string"

definition new_RfStateMachine :: RfStateMachine where
  "new_RfStateMachine = \<lparr>sm_stopped = False, m_mapKVs = Map.empty\<rparr>"

definition SM_Start :: "RfStateMachine \<Rightarrow> bool \<times> RfStateMachine" where
  "SM_Start s = (if \<not> sm_stopped s then (True, s) else (True, s\<lparr>sm_stopped := False\<rparr>))"

definition SM_Stop :: "RfStateMachine \<Rightarrow> bool \<times> RfStateMachine" where
  "SM_Stop s = (if sm_stopped s then (True, s) else (True, s\<lparr>sm_stopped := True\<rparr>))"

fun Apply :: "(string \<times> string) list \<Rightarrow> RfStateMachine \<Rightarrow> RfStateMachine" where
  "Apply [] s = s"
| "Apply ((k, v) # commands) s = Apply commands (s\<lparr>m_mapKVs := (m_mapKVs s)(k \<mapsto> v)\<rparr>)"

text \<open>Reading a key that is not there puts it there with an empty value.\<close>

definition GetValue :: "string \<Rightarrow> RfStateMachine \<Rightarrow> string \<times> RfStateMachine" where
  "GetValue key s =
     (case m_mapKVs s key of
        Some v \<Rightarrow> (v, s)
      | None \<Rightarrow> ([], s\<lparr>m_mapKVs := (m_mapKVs s)(key \<mapsto> [])\<rparr>))"

section \<open>Properties of the configuration\<close>

text \<open>A configuration is well formed: the servers in the map are keyed by their own ids, in increasing
  order and without the node itself, which is the server with the node's id or not set yet.\<close>

definition conf_wf :: "u32 \<Rightarrow> RfServerConfiguration \<Rightarrow> bool" where
  "conf_wf myId conf \<longleftrightarrow>
     sorted (map fst (m_mapOtherServers conf)) \<and> distinct (map fst (m_mapOtherServers conf))
   \<and> list_all (\<lambda>(n, srv). rs_id srv = n \<and> n \<noteq> myId) (m_mapOtherServers conf)
   \<and> (m_selfServer conf = new_RfServer \<or> rs_id (m_selfServer conf) = myId)"

lemma conf_wf_new: "conf_wf myId new_RfServerConfiguration"
  by (simp add: conf_wf_def new_RfServerConfiguration_def)

lemma fst_insort_key: "map fst (insort_key fst x xs) = insort (fst x) (map fst xs)"
  by (induction xs) auto

lemma conf_wf_insert:
  assumes "conf_wf myId conf" "rs_id srv = n" "n \<noteq> myId" "map_of (m_mapOtherServers conf) n = None"
  shows "conf_wf myId (conf\<lparr>m_mapOtherServers := insort_key fst (n, srv) (m_mapOtherServers conf)\<rparr>)"
  using assms
  by (auto simp: conf_wf_def fst_insort_key sorted_insort distinct_insort list_all_iff set_insort_key
      map_of_eq_None_iff)

text \<open>The kinds of a line: it does not count, it cannot be read, its server is the node itself or another
  one.\<close>

definition counts :: "string \<Rightarrow> bool" where
  "counts line \<longleftrightarrow> ltrim line \<noteq> [] \<and> ltrim line ! 0 \<noteq> CHR ''#''"

definition server_of :: "int \<times> string \<times> u16 \<times> u16 \<Rightarrow> RfServer" where
  "server_of = (\<lambda>(i, a, ps, pc). \<lparr>rs_id = of_int i, rs_addr = a, portForServer = ps, portForClient = pc\<rparr>)"

lemma Conf_lines_skip: "\<not> counts line \<Longrightarrow> Conf_lines myId (line # lines) conf = Conf_lines myId lines conf"
  by (auto simp: counts_def Let_def)

lemma Conf_lines_bad:
  "counts line \<Longrightarrow> scan_line (ltrim line) = None \<Longrightarrow> Conf_lines myId (line # lines) conf = Inr (False, conf)"
  by (auto simp: counts_def Let_def)

lemma Conf_lines_server:
  assumes "counts line" "scan_line (ltrim line) = Some r"
  shows "Conf_lines myId (line # lines) conf =
    (if fst r \<le> 0 then Inl (Fatal ''Server id must be larger than 0.'')
     else if rs_id (server_of r) = myId
     then if rs_id (m_selfServer conf) = myId then Inl (Fatal ''Server id is duplicate!'')
          else Conf_lines myId lines (conf\<lparr>m_selfServer := server_of r\<rparr>)
     else if map_of (m_mapOtherServers conf) (rs_id (server_of r)) \<noteq> None then Inl (Fatal ''Server id is duplicate!'')
          else Conf_lines myId lines
                 (conf\<lparr>m_mapOtherServers := insort_key fst (rs_id (server_of r), server_of r) (m_mapOtherServers conf)\<rparr>))"
  using assms by (cases r) (auto simp: counts_def Let_def server_of_def)

declare Conf_lines.simps(2) [simp del]

lemma Conf_lines_wf:
  "Conf_lines myId lines conf = Inr (ok, conf') \<Longrightarrow> conf_wf myId conf \<Longrightarrow> conf_wf myId conf'"
proof (induction lines arbitrary: conf)
  case (Cons line lines)
  show ?case
  proof (cases "counts line")
    case True
    note c = True
    show ?thesis
    proof (cases "scan_line (ltrim line)")
      case (Some r)
      show ?thesis
      proof (cases "rs_id (server_of r) = myId")
        case True
        then show ?thesis
          using Cons.prems Cons.IH [of "conf\<lparr>m_selfServer := server_of r\<rparr>"]
          by (auto simp: Conf_lines_server [OF c Some] conf_wf_def split: if_splits)
      next
        case False
        then show ?thesis
          using Cons.prems(1) Cons.IH conf_wf_insert [OF Cons.prems(2) refl False]
          by (auto simp: Conf_lines_server [OF c Some] split: if_splits)
      qed
    qed (use Cons.prems Conf_lines_bad [OF c] in auto)
  qed (use Cons Conf_lines_skip in auto)
qed simp

text \<open>C31. Whatever the configuration file holds, a node that has loaded it has a well formed view of the
  cluster: no server twice, every server under its own id, the node itself never among the others.\<close>

theorem configuration_well_formed:
  assumes "Elector_Start myId fs new_RfServerConfiguration = Inr (True, conf)"
  shows "conf_wf myId conf \<and> myId \<noteq> 0"
  using assms Conf_lines_wf [OF _ conf_wf_new, of myId _ True conf]
  by (auto simp: Elector_Start_def Elector_initialize_def Conf_Initialize_def
      split: if_splits sum.splits prod.splits bool.splits option.splits)

text \<open>The configuration of the unit tests that is right.\<close>

definition test_servers_ok :: string where
  "test_servers_ok = concat (map (\<lambda>l. l @ [CHR 0x0A])
     [''# abc'', ''## asdf'', ''   # ddd'', [], ''8888 localhost 99 88'', ''1 pp 1 1'', ''2 192.168.1.1 79 77''])"

lemma test_servers_scan:
  "scan_line ''8888 localhost 99 88'' = Some (8888, ''localhost'', 99, 88)" "scan_line ''1 pp 1 1'' = Some (1, ''pp'', 1, 1)"
  "scan_line ''2 192.168.1.1 79 77'' = Some (2, ''192.168.1.1'', 79, 77)"
  "scan_line ''mo bike 8 9'' = None" "scan_line ''o f o'' = None" "scan_line ''8 90 1'' = None" "scan_line ''d 7 9'' = None"
  by (simp_all add: scan_line_def get_int32_def get_word_def get_u16_def num_field_def digits_val_def is_digit_def isspace_def)

lemma test_servers_lines:
  "getlines test_servers_ok = [''# abc'', ''## asdf'', ''   # ddd'', [], ''8888 localhost 99 88'', ''1 pp 1 1'', ''2 192.168.1.1 79 77'']"
  unfolding test_servers_ok_def by (rule getlines_unlines) simp

lemma test_servers_ok_loads:
  "Elector_Start 1 (Some test_servers_ok) new_RfServerConfiguration =
     Inr (True, \<lparr>m_selfServer = \<lparr>rs_id = 1, rs_addr = ''pp'', portForServer = 1, portForClient = 1\<rparr>,
       m_mapOtherServers = [(2, \<lparr>rs_id = 2, rs_addr = ''192.168.1.1'', portForServer = 79, portForClient = 77\<rparr>),
         (8888, \<lparr>rs_id = 8888, rs_addr = ''localhost'', portForServer = 99, portForClient = 88\<rparr>)]\<rparr>)"
  by (simp add: Elector_Start_def Elector_initialize_def Conf_Initialize_def test_servers_lines Conf_lines.simps ltrim_def isspace_def
      test_servers_scan new_RfServerConfiguration_def new_RfServer_def)

theorem configuration_well_formed_witness:
  "\<exists>conf. Elector_Start 1 (Some test_servers_ok) new_RfServerConfiguration = Inr (True, conf) \<and> conf_wf 1 conf"
  using configuration_well_formed [OF test_servers_ok_loads] test_servers_ok_loads by blast

text \<open>The four wrong files of the unit tests are refused, whatever was loaded before.\<close>

lemma test_servers_err:
  assumes "f \<in> {''mo bike 8 9'', ''o f o'', ''8 90 1'', ''d 7 9''}"
  shows "Conf_Initialize myId (Some f) conf = Inr (False, conf)"
proof -
  have "getlines f = [f]" using assms by (auto simp: getlines.simps)
  then show ?thesis
    using assms by (auto simp: Conf_Initialize_def Conf_lines.simps ltrim_def isspace_def test_servers_scan)
qed

text \<open>Distinct positive ids of 32 bit signed integers stay distinct as unsigned ones.\<close>

lemma uint_of_int_u32: "0 < i \<Longrightarrow> i < 2 ^ 31 \<Longrightarrow> uint (of_int i :: u32) = i"
  by (simp add: unsigned_of_int take_bit_int_eq_self)

lemma of_int_u32_inj:
  assumes "0 < i" "i < 2 ^ 31" "0 < j" "j < 2 ^ 31" "(of_int i :: u32) = of_int j"
  shows "i = j"
  using arg_cong [OF assms(5), of uint] unfolding uint_of_int_u32 [OF assms(1,2)] uint_of_int_u32 [OF assms(3,4)] .

lemma Conf_lines_accepts:
  assumes "map (\<lambda>l. scan_line (ltrim l)) (filter counts lines) = map Some es"
    and "\<forall>r \<in> set es. 0 < fst r"
    and "distinct (map (\<lambda>r. rs_id (server_of r)) es)"
    and "\<forall>r \<in> set es. rs_id (server_of r) \<noteq> rs_id (m_selfServer conf)"
    and "\<forall>r \<in> set es. rs_id (server_of r) \<notin> fst ` set (m_mapOtherServers conf)"
  shows "\<exists>conf'. Conf_lines myId lines conf = Inr (True, conf')
     \<and> set (m_mapOtherServers conf') = set (m_mapOtherServers conf)
         \<union> (\<lambda>r. (rs_id (server_of r), server_of r)) ` {r \<in> set es. rs_id (server_of r) \<noteq> myId}
     \<and> m_selfServer conf' = (case find (\<lambda>r. rs_id (server_of r) = myId) es of
                               None \<Rightarrow> m_selfServer conf | Some r \<Rightarrow> server_of r)"
  using assms
proof (induction lines arbitrary: es conf)
  case (Cons line lines)
  show ?case
  proof (cases "counts line")
    case True
    then obtain r es' where es: "es = r # es'" and sc: "scan_line (ltrim line) = Some r"
      and rest: "map (\<lambda>l. scan_line (ltrim l)) (filter counts lines) = map Some es'"
      using Cons.prems(1) by auto
    show ?thesis
    proof (cases "rs_id (server_of r) = myId")
      case self: True
      have step: "Conf_lines myId (line # lines) conf
          = Conf_lines myId lines (conf\<lparr>m_selfServer := server_of r\<rparr>)"
        using Cons.prems self es by (auto simp: Conf_lines_server [OF True sc])
      have diff: "\<forall>x \<in> set es'. rs_id (server_of x) \<noteq> myId"
        using Cons.prems(3) unfolding es self [symmetric] by (simp add: image_iff) metis
      then have none: "find (\<lambda>r. rs_id (server_of r) = myId) es' = None" by (simp add: find_None_iff)
      have set: "{x \<in> set es. rs_id (server_of x) \<noteq> myId} = {x \<in> set es'. rs_id (server_of x) \<noteq> myId}"
        using self es by auto
      have fnd: "find (\<lambda>r. rs_id (server_of r) = myId) es = Some r" using self es by simp
      show ?thesis
        unfolding step set fnd
        using Cons.IH [OF rest, of "conf\<lparr>m_selfServer := server_of r\<rparr>"] Cons.prems(2-5) self es none diff by simp
    next
      case other: False
      let ?conf = "conf\<lparr>m_mapOtherServers := insort_key fst (rs_id (server_of r), server_of r) (m_mapOtherServers conf)\<rparr>"
      have step: "Conf_lines myId (line # lines) conf = Conf_lines myId lines ?conf"
        using Cons.prems other es by (auto simp: Conf_lines_server [OF True sc] map_of_eq_None_iff)
      have set: "{x \<in> set es. rs_id (server_of x) \<noteq> myId} = insert r {x \<in> set es'. rs_id (server_of x) \<noteq> myId}"
        using other es by auto
      have fnd: "find (\<lambda>r. rs_id (server_of r) = myId) es = find (\<lambda>r. rs_id (server_of r) = myId) es'"
        using other es by simp
      have "\<forall>x \<in> set es'. rs_id (server_of x) \<noteq> rs_id (server_of r)"
        using Cons.prems(3) unfolding es by (simp add: image_iff) metis
      then show ?thesis
        unfolding step set fnd
        using Cons.IH [OF rest, of ?conf] Cons.prems(2-5) es by (simp add: set_insort_key cong: option.case_cong)
    qed
  qed (use Cons Conf_lines_skip in auto)
qed auto

lemma Elector_loads:
  assumes "map (\<lambda>l. scan_line (ltrim l)) (filter counts (getlines f)) = map Some es"
    and "\<forall>r \<in> set es. 0 < fst r \<and> fst r < 2 ^ 31" "distinct (map fst es)" "myId \<noteq> 0"
  shows "\<exists>conf. Elector_Start myId (Some f) new_RfServerConfiguration = Inr (True, conf)
     \<and> set (GetOtherServers conf)
         = (\<lambda>r. (rs_id (server_of r), server_of r)) ` {r \<in> set es. rs_id (server_of r) \<noteq> myId}
     \<and> GetSelfServer conf = (case find (\<lambda>r. rs_id (server_of r) = myId) es of
                               None \<Rightarrow> new_RfServer | Some r \<Rightarrow> server_of r)"
proof -
  have ids: "rs_id (server_of r) = of_int (fst r)" for r by (cases r) (simp add: server_of_def)
  have nz: "rs_id (server_of r) \<noteq> 0" if "r \<in> set es" for r
    using assms(2) that uint_of_int_u32 [of "fst r"] unfolding ids by fastforce
  have "distinct (map (\<lambda>r. rs_id (server_of r)) es)"
    using assms(2,3) by (auto simp: distinct_map inj_on_def ids dest!: of_int_u32_inj [rotated 4])
  from Conf_lines_accepts [OF assms(1) _ this, of new_RfServerConfiguration myId] show ?thesis
    using assms(2,4) nz
    by (auto simp: Elector_Start_def Elector_initialize_def Conf_Initialize_def GetOtherServers_def GetSelfServer_def
        new_RfServerConfiguration_def new_RfServer_def split: option.splits)
qed

text \<open>A server as a line of the file.\<close>

definition print_server :: "RfServer \<Rightarrow> string" where
  "print_server srv =
     dec (unat (rs_id srv)) @ '' '' @ rs_addr srv @ '' '' @ dec (unat (portForServer srv)) @ '' '' @ dec (unat (portForClient srv))"

definition printable :: "RfServer \<Rightarrow> bool" where
  "printable srv \<longleftrightarrow> rs_id srv \<noteq> 0 \<and> unat (rs_id srv) < 2 ^ 31 \<and> rs_addr srv \<noteq> [] \<and> list_all (\<lambda>c. \<not> isspace c) (rs_addr srv)"

lemma scan_print_server:
  assumes "printable srv"
  shows "scan_line (print_server srv) = Some (int (unat (rs_id srv)), rs_addr srv, portForServer srv, portForClient srv)"
proof -
  let ?p1 = "dec (unat (portForServer srv))" and ?p2 = "dec (unat (portForClient srv))"
  have i: "get_int32 (print_server srv) = Some (int (unat (rs_id srv)), '' '' @ rs_addr srv @ '' '' @ ?p1 @ '' '' @ ?p2)"
    using get_int32_dec [of "[]" "'' '' @ rs_addr srv @ '' '' @ ?p1 @ '' '' @ ?p2"] assms
    by (simp add: print_server_def printable_def stops_def is_digit_def)
  have w: "get_word ('' '' @ rs_addr srv @ '' '' @ ?p1 @ '' '' @ ?p2) = Some (rs_addr srv, '' '' @ ?p1 @ '' '' @ ?p2)"
    using assms by (intro get_word_word) (auto simp: printable_def stops_def isspace_def list_all_iff)
  have p: "get_u16 ('' '' @ ?p1 @ '' '' @ ?p2) = Some (portForServer srv, '' '' @ ?p2)"
    by (intro get_u16_dec) (auto simp: stops_def is_digit_def isspace_def)
  have q: "get_u16 ('' '' @ ?p2) = Some (portForClient srv, [])"
    using get_u16_dec [of "'' ''" "[]"] by (simp add: stops_def isspace_def)
  show ?thesis using i w p q by (simp add: scan_line_def)
qed

lemma print_server_line:
  assumes "printable srv"
  shows "ltrim (print_server srv) = print_server srv" "counts (print_server srv)" "CHR 0x0A \<notin> set (print_server srv)"
proof -
  obtain c cs where c: "dec (unat (rs_id srv)) = c # cs" by (cases "dec (unat (rs_id srv))") auto
  then have d: "is_digit c" using dec_is_digit [of c "unat (rs_id srv)"] by simp
  show l: "ltrim (print_server srv) = print_server srv"
    using c is_digit_not_space [OF d] by (simp add: ltrim_def print_server_def)
  show "counts (print_server srv)" unfolding counts_def l using c d by (auto simp: print_server_def is_digit_def)
  have "\<not> is_digit (CHR 0x0A)" "isspace (CHR 0x0A)" by (simp_all add: is_digit_def isspace_def)
  then show "CHR 0x0A \<notin> set (print_server srv)"
    using assms dec_is_digit by (auto simp: print_server_def printable_def list_all_iff)
qed

lemma positive_id: "0 < uint w \<and> uint w < 2147483648" if "w \<noteq> 0" "unat w < 2147483648" for w :: u32
proof -
  have "unat w \<noteq> 0" using that(1) by (simp add: unat_eq_0)
  moreover have "int (unat w) = uint w" by simp
  ultimately show ?thesis using that(2) by linarith
qed

text \<open>C32. A configuration is read back from its file: a file with one line per server, the ids positive,
  distinct and below \<open>2 ^ 31\<close> and the addresses without white space, is loaded completely. The node finds itself
  under its id and exactly the other servers under theirs, with their addresses and ports.\<close>

theorem configuration_roundtrip:
  assumes "\<forall>srv \<in> set srvs. printable srv" "distinct (map rs_id srvs)" "myId \<noteq> 0"
  shows "\<exists>conf. Elector_Start myId (Some (concat (map (\<lambda>srv. print_server srv @ [CHR 0x0A]) srvs))) new_RfServerConfiguration
       = Inr (True, conf)
     \<and> set (GetOtherServers conf) = {(rs_id srv, srv) | srv. srv \<in> set srvs \<and> rs_id srv \<noteq> myId}
     \<and> GetSelfServer conf = (case find (\<lambda>srv. rs_id srv = myId) srvs of None \<Rightarrow> new_RfServer | Some srv \<Rightarrow> srv)"
proof -
  let ?f = "concat (map (\<lambda>srv. print_server srv @ [CHR 0x0A]) srvs)"
  define entry where "entry srv = (int (unat (rs_id srv)), rs_addr srv, portForServer srv, portForClient srv)" for srv :: RfServer
  define es where "es = map entry srvs"
  have srv: "server_of (entry srv) = srv" for srv by (simp add: server_of_def entry_def)
  have lines: "getlines ?f = map print_server srvs"
    using getlines_unlines [of "map print_server srvs"] assms(1) print_server_line(3) by (simp add: comp_def)
  have "filter counts (getlines ?f) = map print_server srvs"
    unfolding lines using assms(1) print_server_line(2) by (simp add: filter_id_conv)
  then have "map (\<lambda>l. scan_line (ltrim l)) (filter counts (getlines ?f)) = map Some es"
    using assms(1) by (simp add: es_def entry_def print_server_line(1) scan_print_server)
  moreover have "\<forall>r \<in> set es. 0 < fst r \<and> fst r < 2 ^ 31" 
    using assms(1) positive_id by (auto simp: es_def entry_def printable_def)
  moreover have "distinct (map fst es)" using assms(2) by (auto simp: es_def entry_def distinct_map inj_on_def comp_def word_uint_eq_iff)
  moreover note assms(3)
  ultimately obtain conf where "Elector_Start myId (Some ?f) new_RfServerConfiguration = Inr (True, conf)"
    and oth: "set (GetOtherServers conf) = (\<lambda>r. (rs_id (server_of r), server_of r)) ` {r \<in> set es. rs_id (server_of r) \<noteq> myId}"
    and self: "GetSelfServer conf = (case find (\<lambda>r. rs_id (server_of r) = myId) es of None \<Rightarrow> new_RfServer | Some r \<Rightarrow> server_of r)"
    using Elector_loads by blast
  moreover have "set (GetOtherServers conf) = {(rs_id srv, srv) | srv. srv \<in> set srvs \<and> rs_id srv \<noteq> myId}"
    unfolding oth es_def by (force simp: srv)
  moreover have "find (\<lambda>r. rs_id (server_of r) = myId) es = map_option entry (find (\<lambda>srv. rs_id srv = myId) srvs)"
    unfolding es_def by (induction srvs) (simp_all add: srv)
  ultimately show ?thesis using self by (auto simp: srv split: option.splits)
qed

theorem configuration_roundtrip_witness:
  "\<exists>conf. Elector_Start 2 (Some (concat (map (\<lambda>srv. print_server srv @ [CHR 0x0A])
        [\<lparr>rs_id = 1, rs_addr = ''a'', portForServer = 80, portForClient = 81\<rparr>,
         \<lparr>rs_id = 2, rs_addr = ''b'', portForServer = 90, portForClient = 91\<rparr>]))) new_RfServerConfiguration = Inr (True, conf)
     \<and> GetSelfServer conf = \<lparr>rs_id = 2, rs_addr = ''b'', portForServer = 90, portForClient = 91\<rparr>"
  using configuration_roundtrip [of "[\<lparr>rs_id = 1, rs_addr = ''a'', portForServer = 80, portForClient = 81\<rparr>,
         \<lparr>rs_id = 2, rs_addr = ''b'', portForServer = 90, portForClient = 91\<rparr>]" 2]
  by (auto simp: printable_def isspace_def)

section \<open>Properties of the state machine\<close>

lemma Apply_map: "m_mapKVs (Apply cs s) = m_mapKVs s ++ map_of (rev cs)"
  by (induction cs s rule: Apply.induct) (auto simp: map_add_def fun_eq_iff split: option.splits)

text \<open>The state machine is determined by the commands: a key has the value of the last command for it,
  and the value it had before when there is none.\<close>

theorem state_machine_last_write:
  "fst (GetValue key (Apply commands s))
     = (case map_of (rev commands) key of Some v \<Rightarrow> v | None \<Rightarrow> fst (GetValue key s))"
  by (simp add: GetValue_def Apply_map map_add_def split: option.split)

lemma Apply_append: "Apply (cs @ ds) s = Apply ds (Apply cs s)"
  by (induction cs s rule: Apply.induct) simp_all

lemma GetValue_inserts: "m_mapKVs s key = None \<Longrightarrow> m_mapKVs (snd (GetValue key s)) key = Some []"
  by (simp add: GetValue_def)

end
