(* ===== verification/Raft.thy ===== *)
theory Raft
  imports Rpc Cluster Timers
begin

text \<open>
  The consensus module (\<open>server/node/raft-consensus.cc\<close>): its construction with the log and the saved state,
  start and stop, the election, the persistent term and vote, the timer ticks, and the check of the ids of
  responses. The log is the one of \<open>RfLog\<close>, the timer that of \<open>Timers\<close>; the protobuf encoding of the
  saved state and the clock are parameters. The vote requests that \<open>RequestVoteAsync\<close> hands to the thread
  pool are recorded.
\<close>

datatype NodeRoleType = Leader | Candidate | Follower

section \<open>State\<close>

record RequestVoteRequest =
  rv_term :: u32
  rv_candidateId :: u32
  rv_lastLogTerm :: u32
  rv_lastLogIndex :: u32

record RequestVoteResponse =
  rvr_term :: u32
  rvr_voteGranted :: bool

record AppendEntriesResponse =
  aer_term :: u32
  aer_success :: bool

record RaftConsensus =
  rc_stopped :: bool
  m_roleType :: NodeRoleType
  m_iCurrentTerm :: u32
  m_iMyId :: u32
  m_iVoteFor :: u32
  m_pRfLogger :: RtDiskRfLogger
  rf_state_file :: bytes
  m_pTimer :: Timer
  m_monitorLeaderHbTimerEvent :: Event
  m_monitorLeaderHbTimerEventId :: EventId
  m_monitorRVTimeoTimerEvent :: Event
  m_monitorRVTimeoTimerEventId :: EventId
  m_random :: Range
  m_iRequestVoteTimeoutInterval :: int
  m_sentMsgsId :: "u64 set"
  rc_votes :: "(net_peer_info \<times> RequestVoteRequest) list"

definition RFSTATE_MAGIC_NO :: u32 where "RFSTATE_MAGIC_NO = 0x72667374"
definition RFSTATE_MAGIC_NO_LEN :: nat where "RFSTATE_MAGIC_NO_LEN = 4"

text \<open>The members before \<open>initialize\<close>; the two callbacks are the numbers 1 and 2.\<close>

definition new_RaftConsensus :: "Range \<Rightarrow> int \<Rightarrow> RtDiskRfLogger \<Rightarrow> RaftConsensus" where
  "new_RaftConsensus r rvInterval lg =
     \<lparr>rc_stopped = True, m_roleType = Follower, m_iCurrentTerm = 0, m_iMyId = 0, m_iVoteFor = 0, m_pRfLogger = lg,
      rf_state_file = [], m_pTimer = new_Timer,
      m_monitorLeaderHbTimerEvent = \<lparr>ev_ctx = 0, callback = 1\<rparr>, m_monitorLeaderHbTimerEventId = EventId (cctime 0 0) 0,
      m_monitorRVTimeoTimerEvent = \<lparr>ev_ctx = 0, callback = 2\<rparr>, m_monitorRVTimeoTimerEventId = EventId (cctime 0 0) 0,
      m_random = r, m_iRequestVoteTimeoutInterval = rvInterval, m_sentMsgsId = {}, rc_votes = []\<rparr>"

section \<open>The saved state\<close>

text \<open>The second half of \<open>initialize\<close>; \<open>parse\<close> gives the term and the vote of the protobuf message,
  \<open>content\<close> is the file, \<open>None\<close> when there is none, and \<open>buf\<close> the address of the array it is read into. The
  buffer that is parsed starts behind the magic number; its destructor, at the end of the block, deletes the array at
  that start, which is not the start of an allocated array.\<close>

definition Raft_load :: "endian \<Rightarrow> nat \<Rightarrow> (bytes \<Rightarrow> u32 \<times> u32) \<Rightarrow> bytes option \<Rightarrow> RaftConsensus \<Rightarrow> node_error + RaftConsensus" where
  "Raft_load e buf parse content rc =
     (case content of
        None \<Rightarrow> Inr (rc\<lparr>rf_state_file := WriteUInt32 e (replicate RFSTATE_MAGIC_NO_LEN 0) RFSTATE_MAGIC_NO\<rparr>)
      | Some f \<Rightarrow>
          let rc = rc\<lparr>rf_state_file := f\<rparr>
          in if length f = 0 then Inr rc
             else if length f < RFSTATE_MAGIC_NO_LEN then Inl (Fatal ''header is corrupt!'')
             else if ReadUInt32 e f \<noteq> RFSTATE_MAGIC_NO then Inl (Fatal ''header is corrupt!'')
             else
               let startPtr = buf + RFSTATE_MAGIC_NO_LEN; endPtr = buf + length f - 1;
                   (b, _) = Refresh startPtr endPtr startPtr endPtr None new_Buffer0
               in case parse (take (nat (AvailableLength b)) (drop (m_pPos b - buf) f)) of
                    (currentterm, votedfor) \<Rightarrow>
                      let rc = rc\<lparr>m_iCurrentTerm := currentterm, m_iVoteFor := votedfor\<rparr>
                      in if snd (Buffer_Put b) \<noteq> Nothing_released then Inl Undefined_behaviour else Inr rc)"

record raft_files =
  rf_endian :: endian
  rf_page :: nat
  rf_map :: nat
  rf_buf :: nat
  rf_mkdir :: int
  rf_logger_type :: string
  rf_latency_low :: int
  rf_latency_high :: int
  rf_log :: "bytes option"
  rf_state :: "bytes option"
  rf_parse_entry :: "bytes \<Rightarrow> RfLogEntry option"
  rf_parse_state :: "bytes \<Rightarrow> u32 \<times> u32"

text \<open>The constructor with \<open>initialize\<close>; \<open>rf_mkdir\<close> is the result of \<open>CreateDirPath\<close>, \<open>rf_map\<close> and \<open>rf_buf\<close>
  are the addresses of the mapped log and of the array of the state.\<close>

definition Raft_initialize :: "raft_files \<Rightarrow> int \<Rightarrow> node_error + RaftConsensus" where
  "Raft_initialize fs rvInterval =
     (case new_Range (rf_latency_low fs) (rf_latency_high fs) of
        None \<Rightarrow> Inl Assertion_failed
      | Some r \<Rightarrow>
          if rf_mkdir fs = -1 then Inl Assertion_failed
          else if rf_logger_type fs \<noteq> ''realtime-disk'' then Inl (Fatal ''We don't have a rf logger named'')
          else case Logger_initialize (rf_endian fs) (rf_page fs) (rf_map fs) (rf_parse_entry fs) True (rf_log fs) of
                 Inl err \<Rightarrow> Inl err
               | Inr lg \<Rightarrow>
                   Raft_load (rf_endian fs) (rf_buf fs) (rf_parse_state fs) (rf_state fs) (new_RaftConsensus r rvInterval lg))"

text \<open>The pool asserts that the encoding is not empty.\<close>

definition save_rf_state :: "(u32 \<times> u32 \<Rightarrow> bytes) \<Rightarrow> RaftConsensus \<Rightarrow> node_error + RaftConsensus" where
  "save_rf_state ser rc =
     (let bs = ser (m_iCurrentTerm rc, m_iVoteFor rc)
      in if bs = [] then Inl Assertion_failed
         else Inr (rc\<lparr>rf_state_file := f_data (file_put bs \<lparr>f_data = rf_state_file rc, f_pos = RFSTATE_MAGIC_NO_LEN\<rparr>)\<rparr>))"

section \<open>Timer ticks, start and stop\<close>

text \<open>\<open>now\<close> is the time of the clock and \<open>rnd\<close> what \<open>rand()\<close> returns.\<close>

definition subscribe_leader_hb_timer_tick :: "cctime \<Rightarrow> int \<Rightarrow> int \<Rightarrow> RaftConsensus \<Rightarrow> node_error + RaftConsensus" where
  "subscribe_leader_hb_timer_tick now election_interval rnd rc =
     (let latency = Random_GetNew rnd (m_random rc)
      in case SubscribeEventAfter now (cctime election_interval (latency * 1000 * 1000))
             (m_monitorLeaderHbTimerEvent rc) (m_pTimer rc) of
        None \<Rightarrow> Inl Undefined_behaviour
      | Some (evId, t) \<Rightarrow>
          if cctime_eq_tick (ev_when evId) 0 then Inl (Fatal ''timer event is replicated!'')
          else Inr (rc\<lparr>m_pTimer := t, m_monitorLeaderHbTimerEventId := evId\<rparr>))"

definition subscribe_request_vote_timeout_tick :: "cctime \<Rightarrow> RaftConsensus \<Rightarrow> node_error + RaftConsensus" where
  "subscribe_request_vote_timeout_tick now rc =
     (case SubscribeEventAfter now (cctime (m_iRequestVoteTimeoutInterval rc) 0)
             (m_monitorRVTimeoTimerEvent rc) (m_pTimer rc) of
        None \<Rightarrow> Inl Undefined_behaviour
      | Some (evId, t) \<Rightarrow>
          if cctime_eq_tick (ev_when evId) 0 then Inl (Fatal ''timer event is replicated!'')
          else Inr (rc\<lparr>m_pTimer := t, m_monitorRVTimeoTimerEventId := evId\<rparr>))"

text \<open>\<open>em\<close> is the configuration of the elector manager, \<open>None\<close> when the cast of the service gives null;
  \<open>rpcStart\<close> is the result of \<open>ServerRpcService::Start\<close>.\<close>

definition Raft_Start ::
  "RfServerConfiguration option \<Rightarrow> bool \<Rightarrow> cctime \<Rightarrow> int \<Rightarrow> int \<Rightarrow> RaftConsensus \<Rightarrow> node_error + bool \<times> RaftConsensus" where
  "Raft_Start em rpcStart now election_interval rnd rc =
     (if \<not> rc_stopped rc then Inr (True, rc)
      else
        let rc = rc\<lparr>rc_stopped := False\<rparr>
        in case em of
             None \<Rightarrow> Inl Assertion_failed
           | Some conf \<Rightarrow>
               let rc = rc\<lparr>m_iMyId := rs_id (GetSelfServer conf)\<rparr>
               in if \<not> rpcStart then Inr (False, rc)
                  else case subscribe_leader_hb_timer_tick now election_interval rnd
                              (rc\<lparr>m_pTimer := Timer_Start (m_pTimer rc)\<rparr>) of
                         Inl err \<Rightarrow> Inl err
                       | Inr rc \<Rightarrow> Inr (True, rc))"

definition Raft_Stop :: "bool \<Rightarrow> RaftConsensus \<Rightarrow> bool \<times> RaftConsensus" where
  "Raft_Stop rpcStop rc =
     (if rc_stopped rc then (True, rc)
      else let rc = rc\<lparr>rc_stopped := True, m_pTimer := Timer_Stop (m_pTimer rc)\<rparr>
           in if \<not> rpcStop then (False, rc) else (True, rc))"

section \<open>The handlers of the node's procedures\<close>

definition OnAppendEntries :: "bytes \<Rightarrow> RaftConsensus \<Rightarrow> AppendEntriesResponse" where
  "OnAppendEntries req rc = \<lparr>aer_term = 1111, aer_success = True\<rparr>"

definition OnRequestVote :: "RequestVoteRequest \<Rightarrow> RaftConsensus \<Rightarrow> RequestVoteResponse" where
  "OnRequestVote req rc = \<lparr>rvr_term = 1111, rvr_voteGranted = True\<rparr>"

text \<open>A failed send is only logged.\<close>

definition OnMessageSent :: "SentRet \<Rightarrow> RaftConsensus \<Rightarrow> RaftConsensus" where
  "OnMessageSent sentRet rc = rc\<lparr>m_sentMsgsId := insert (sr_msgId sentRet) (m_sentMsgsId rc)\<rparr>"



text \<open>The result also has the message, whose data buffer has moved behind the code. \<open>None\<close> reads behind it.\<close>

definition is_valid_msg_id :: "endian \<Rightarrow> RcvMessage \<Rightarrow> RaftConsensus \<Rightarrow> (bool \<times> RcvMessage) option" where
  "is_valid_msg_id e rm rc =
     (if length (rm_data rm) < 2 then None
      else
        let nrt = m_roleType rc; rpcCode = ReadUInt16 e (rm_data rm)
        in if rpcCode \<noteq> rpc_code_no OK then Some (False, rm)
           else
             let rm = rm\<lparr>rm_data := drop 2 (rm_data rm)\<rparr>
             in case nrt of
                  Leader \<Rightarrow> Some (msg_id (rm_header rm) \<in> m_sentMsgsId rc, rm)
                | Candidate \<Rightarrow> Some (msg_id (rm_header rm) \<in> m_sentMsgsId rc, rm)
                | Follower \<Rightarrow> Some (False, rm))"

section \<open>The election\<close>

definition prepare_new_election_env :: "RaftConsensus \<Rightarrow> RaftConsensus" where
  "prepare_new_election_env rc =
     rc\<lparr>m_sentMsgsId := {}, m_roleType := Candidate, m_iCurrentTerm := m_iCurrentTerm rc + 1, m_iVoteFor := m_iMyId rc\<rparr>"

definition broadcast_request_vote :: "(u32 \<times> RfServer) list \<Rightarrow> RaftConsensus \<Rightarrow> node_error + RaftConsensus" where
  "broadcast_request_vote otherSrvs rc =
     (case GetLastEntry (m_pRfLogger rc) of
        Inl err \<Rightarrow> Inl err
      | Inr None \<Rightarrow> Inl Null_dereference
      | Inr (Some lastRfLogEntry) \<Rightarrow>
          let pq = \<lparr>rv_term = m_iCurrentTerm rc, rv_candidateId = m_iMyId rc,
                    rv_lastLogTerm = le_term lastRfLogEntry, rv_lastLogIndex = le_index lastRfLogEntry\<rparr>
          in Inr (rc\<lparr>rc_votes := rc_votes rc
               @ map (\<lambda>(_, srv). (new_net_peer_info (rs_addr srv) (portForServer srv) Tcp, pq)) otherSrvs\<rparr>))"

text \<open>\<open>Inl\<close> comes with the state file at that time.\<close>

definition start_new_election ::
  "(u32 \<times> u32 \<Rightarrow> bytes) \<Rightarrow> cctime \<Rightarrow> int \<Rightarrow> int \<Rightarrow> RfServerConfiguration \<Rightarrow> RaftConsensus
     \<Rightarrow> node_error \<times> bytes + RaftConsensus" where
  "start_new_election ser now election_interval rnd conf rc =
     (let rc = prepare_new_election_env rc
      in case save_rf_state ser rc of
           Inl err \<Rightarrow> Inl (err, rf_state_file rc)
         | Inr rc \<Rightarrow>
             (case broadcast_request_vote (GetOtherServers conf) rc of
                Inl err \<Rightarrow> Inl (err, rf_state_file rc)
              | Inr rc \<Rightarrow>
                  (case subscribe_leader_hb_timer_tick now election_interval rnd rc of
                     Inl err \<Rightarrow> Inl (err, rf_state_file rc)
                   | Inr rc \<Rightarrow>
                       (case subscribe_request_vote_timeout_tick now rc of
                          Inl err \<Rightarrow> Inl (err, rf_state_file rc)
                        | Inr rc \<Rightarrow> Inr rc))))"

section \<open>Properties\<close>

text \<open>What is in the file behind the header after a save: the new encoding and the rest of a longer old one.\<close>

lemma saved_file:
  assumes "save_rf_state ser rc = Inr rc'" "4 \<le> length (rf_state_file rc)"
  shows "rf_state_file rc' = take 4 (rf_state_file rc) @ ser (m_iCurrentTerm rc, m_iVoteFor rc)
    @ drop (4 + length (ser (m_iCurrentTerm rc, m_iVoteFor rc))) (rf_state_file rc)"
  using assms by (auto simp: save_rf_state_def file_put_def RFSTATE_MAGIC_NO_LEN_def Let_def split: if_splits)

text \<open>A state file that holds anything is never loaded: its buffer deletes memory it does not own.\<close>

lemma load_fails:
  assumes "f \<noteq> []" "ReadUInt32 e f = RFSTATE_MAGIC_NO" "RFSTATE_MAGIC_NO_LEN \<le> length f"
  shows "Raft_load e buf parse (Some f) rc = Inl Undefined_behaviour"
  using assms
  by (auto simp: Raft_load_def Let_def Refresh_array Buffer_Put_def new_Buffer0_def new_Buffer_sel RFSTATE_MAGIC_NO_LEN_def
      split: prod.split)

lemma load_returns:
  assumes "Raft_load e buf parse content rc = Inr rc'"
  shows "content = None \<and> rf_state_file rc' = host_bytes BigEnd 4 RFSTATE_MAGIC_NO \<or> content = Some []"
proof (cases content)
  case None
  then show ?thesis using assms u32c.wr_enc by (auto simp: Raft_load_def RFSTATE_MAGIC_NO_LEN_def u32c.wr_enc)
next
  case (Some f)
  then show ?thesis
    using assms load_fails [of f e buf parse rc] by (auto simp: Raft_load_def Let_def not_less split: if_splits)
qed

lemma election_fails:
  assumes "ser (m_iCurrentTerm rc + 1, m_iMyId rc) \<noteq> []"
  shows "\<exists>rc1. save_rf_state ser (prepare_new_election_env rc) = Inr rc1
    \<and> start_new_election ser now i rnd conf rc
      = Inl (if m_vEntries (m_pRfLogger rc) = [] then Null_dereference else Out_of_range, rf_state_file rc1)"
  using assms
  by (simp add: start_new_election_def broadcast_request_vote_def Let_def save_rf_state_def
      prepare_new_election_env_def GetLastEntry_def)

text \<open>C34. A node never comes out of an election: with an empty log the request of votes dereferences the
  null that stands for the last entry, with any other log it reads the element behind the last one. The new
  term and the vote for itself have been saved by then, but no restart gets them back: the loading of a
  state file that holds anything is undefined, because its buffer deletes memory it does not own.\<close>

theorem election_crashes_after_saving:
  assumes "rf_state_file rc = host_bytes BigEnd 4 RFSTATE_MAGIC_NO @ old"
    and "ser (m_iCurrentTerm rc + 1, m_iMyId rc) \<noteq> []"
  shows "\<exists>err f tail. start_new_election ser now i rnd conf rc = Inl (err, f)
     \<and> err = (if m_vEntries (m_pRfLogger rc) = [] then Null_dereference else Out_of_range)
     \<and> f = host_bytes BigEnd 4 RFSTATE_MAGIC_NO @ ser (m_iCurrentTerm rc + 1, m_iMyId rc) @ tail
     \<and> Raft_load e buf parse (Some f) rc0 = Inl Undefined_behaviour"
proof -
  obtain rc1 where rc1: "save_rf_state ser (prepare_new_election_env rc) = Inr rc1"
    and el: "start_new_election ser now i rnd conf rc
      = Inl (if m_vEntries (m_pRfLogger rc) = [] then Null_dereference else Out_of_range, rf_state_file rc1)"
    using election_fails [of ser rc] assms(2) by blast
  have f: "rf_state_file rc1 = host_bytes BigEnd 4 RFSTATE_MAGIC_NO @ ser (m_iCurrentTerm rc + 1, m_iMyId rc)
      @ drop (length (ser (m_iCurrentTerm rc + 1, m_iMyId rc))) old"
    using saved_file [OF rc1] assms(1) by (simp add: prepare_new_election_env_def)
  have "Raft_load e buf parse (Some (rf_state_file rc1)) rc0 = Inl Undefined_behaviour"
    by (rule load_fails) (simp_all add: f u32c.rd_enc RFSTATE_MAGIC_NO_LEN_def assms(2))
  then show ?thesis using el f by blast
qed

definition demo_ser :: "u32 \<times> u32 \<Rightarrow> bytes" where
  "demo_ser p = [8, ucast (fst p), 16, ucast (snd p)]"

definition demo_parse :: "bytes \<Rightarrow> u32 \<times> u32" where
  "demo_parse bs = (case bs of [_, t, _, v] \<Rightarrow> (ucast t, ucast v) | _ \<Rightarrow> (0, 0))"

definition demo_raft :: RaftConsensus where
  "demo_raft = (new_RaftConsensus \<lparr>r_start = 200, r_end = 500\<rparr> 24
     \<lparr>m_vEntries = [], m_iCurIdxToSync = 0, m_iFileSize = 0, m_bAutoSync = True, lg_file = []\<rparr>)
     \<lparr>m_iCurrentTerm := 5, m_iMyId := 2, rf_state_file := host_bytes BigEnd 4 RFSTATE_MAGIC_NO @ [8, 5, 16, 1]\<rparr>"

theorem election_crashes_after_saving_witness:
  "\<exists>f tail. start_new_election demo_ser (cctime 10 0) 30 200 new_RfServerConfiguration demo_raft = Inl (Null_dereference, f)
     \<and> f = host_bytes BigEnd 4 RFSTATE_MAGIC_NO @ [8, 6, 16, 2] @ tail
     \<and> Raft_load LittleEnd 4096 demo_parse (Some f) demo_raft = Inl Undefined_behaviour"
  using election_crashes_after_saving [of demo_raft "[8, 5, 16, 1]" demo_ser "cctime 10 0" 30 200
      new_RfServerConfiguration LittleEnd 4096 demo_parse demo_raft]
  by (simp add: demo_raft_def new_RaftConsensus_def demo_ser_def)

text \<open>C35. A consensus module can be constructed only once in its directory: a construction that returns found no
  saved state, and the construction on the files that a first one has made is undefined, even when nothing was
  logged or saved between the two.\<close>

theorem node_never_restarts:
  assumes "Raft_initialize fs rv = Inr rc" "0 < rf_map fs"
  shows "(rf_state fs = None \<or> rf_state fs = Some [])
    \<and> m_iCurrentTerm rc = 0 \<and> m_iVoteFor rc = 0 \<and> m_vEntries (m_pRfLogger rc) = []
    \<and> (rf_state fs = None \<longrightarrow>
         Raft_initialize (fs\<lparr>rf_log := Some (lg_file (m_pRfLogger rc)), rf_state := Some (rf_state_file rc)\<rparr>) rv
           = Inl Undefined_behaviour)"
proof -
  obtain r lg where r: "new_Range (rf_latency_low fs) (rf_latency_high fs) = Some r"
    and lg: "Logger_initialize (rf_endian fs) (rf_page fs) (rf_map fs) (rf_parse_entry fs) True (rf_log fs) = Inr lg"
    and ok: "rf_mkdir fs \<noteq> -1" "rf_logger_type fs = ''realtime-disk''"
    and ld: "Raft_load (rf_endian fs) (rf_buf fs) (rf_parse_state fs) (rf_state fs) (new_RaftConsensus r rv lg) = Inr rc"
    using assms(1) by (auto simp: Raft_initialize_def split: option.splits if_splits sum.splits)
  have st: "rf_state fs = None \<and> rf_state_file rc = host_bytes BigEnd 4 RFSTATE_MAGIC_NO \<or> rf_state fs = Some []"
    by (rule load_returns [OF ld])
  then have rc: "m_iCurrentTerm rc = 0" "m_iVoteFor rc = 0" "m_pRfLogger rc = lg"
    using ld by (auto simp: Raft_load_def new_RaftConsensus_def)
  have "\<exists>lg'. Logger_initialize (rf_endian fs) (rf_page fs) (rf_map fs) (rf_parse_entry fs) True (Some (lg_file lg)) = Inr lg'"
    by (rule log_reloads [OF lg assms(2)])
  moreover have "Raft_load e buf parse (Some (host_bytes BigEnd 4 RFSTATE_MAGIC_NO)) rc0 = Inl Undefined_behaviour" for e buf parse rc0
    by (rule load_fails)
      (use u32c.rd_enc [of e RFSTATE_MAGIC_NO "[]"] in \<open>auto simp: RFSTATE_MAGIC_NO_LEN_def host_bytes_def\<close>)
  ultimately have "Raft_initialize (fs\<lparr>rf_log := Some (lg_file lg), rf_state := Some (rf_state_file rc)\<rparr>) rv = Inl Undefined_behaviour"
    if "rf_state fs = None" using that r ok st by (auto simp: Raft_initialize_def)
  then show ?thesis using st rc written_log_never_loaded [OF lg assms(2)] by auto
qed

definition demo_files :: raft_files where
  "demo_files = \<lparr>rf_endian = LittleEnd, rf_page = 4096, rf_map = 65536, rf_buf = 4096, rf_mkdir = 0,
     rf_logger_type = ''realtime-disk'', rf_latency_low = 200, rf_latency_high = 500, rf_log = None, rf_state = None,
     rf_parse_entry = (\<lambda>_. None), rf_parse_state = demo_parse\<rparr>"

theorem node_never_restarts_witness:
  "\<exists>rc. Raft_initialize demo_files 24 = Inr rc
     \<and> Raft_initialize (demo_files\<lparr>rf_log := Some (lg_file (m_pRfLogger rc)), rf_state := Some (rf_state_file rc)\<rparr>) 24
         = Inl Undefined_behaviour"
proof -
  obtain rc where rc: "Raft_initialize demo_files 24 = Inr rc"
    by (simp add: demo_files_def Raft_initialize_def new_Range_def Logger_initialize_def Raft_load_def)
  from node_never_restarts [OF rc] rc show ?thesis by (auto simp: demo_files_def)
qed





text \<open>Two candidates of one term both get the vote of the same node, which records neither: the rule of
  one vote per term is not kept, and the answers have the fixed term 1111.\<close>

lemma double_vote:
  "rv_candidateId a \<noteq> rv_candidateId b \<and> rv_term a = rv_term b \<and> m_iVoteFor rc = rv_candidateId a
     \<longrightarrow> rvr_voteGranted (OnRequestVote a rc) \<and> rvr_voteGranted (OnRequestVote b rc)"
  by (simp add: OnRequestVote_def)

text \<open>A failed send has the id that stands for none, and a response with that id is accepted.\<close>

lemma invalid_id_accepted:
  "2 \<le> length (rm_data rm) \<Longrightarrow> ReadUInt16 e (rm_data rm) = rpc_code_no OK \<Longrightarrow> msg_id (rm_header rm) = 0
     \<Longrightarrow> map_option fst (is_valid_msg_id e rm (OnMessageSent new_SentRet (prepare_new_election_env rc))) = Some True"
  by (simp add: is_valid_msg_id_def Let_def OnMessageSent_def new_SentRet_def prepare_new_election_env_def)

text \<open>A node that starts is armed: it knows its id from the configuration, its timer thread runs, and
  exactly one event is due, the election, after the configured interval and the random latency.\<close>

theorem raft_start_arms_election:
  assumes "latency = Random_GetNew rnd r" "\<not> cctime_eq_tick (cctime_add now (cctime interval (latency * 1000 * 1000))) 0"
  shows "\<exists>rc. Raft_Start (Some conf) True now interval rnd (new_RaftConsensus r rv lg) = Inr (True, rc)
     \<and> \<not> rc_stopped rc \<and> m_iMyId rc = rs_id (m_selfServer conf) \<and> m_pWorkThread (m_pTimer rc)
     \<and> m_mapSubscribedEvents (m_pTimer rc)
         = [(cctime_add now (cctime interval (latency * 1000 * 1000)), 0, m_monitorLeaderHbTimerEvent rc)]"
  using assms
  by (simp add: Raft_Start_def subscribe_leader_hb_timer_tick_def new_RaftConsensus_def Let_def SubscribeEventAfter_def
      SubscribeEventAt_def new_Timer_def Timer_Start_def GetSelfServer_def mmap_find_on_def mmap_insert_def
      map_contract_def EventId_less_def cctime_lt_def)

theorem raft_start_arms_election_witness:
  "\<exists>rc. Raft_Start (Some (new_RfServerConfiguration\<lparr>m_selfServer := new_RfServer\<lparr>rs_id := 3\<rparr>\<rparr>)) True (cctime 10 900000000) 30 300
      (new_RaftConsensus \<lparr>r_start = 200, r_end = 500\<rparr> 24 (m_pRfLogger demo_raft)) = Inr (True, rc) \<and> m_iMyId rc = 3
     \<and> map fst (m_mapSubscribedEvents (m_pTimer rc)) = [cctime 41 100000000]"
  using raft_start_arms_election [of 200 300 "\<lparr>r_start = 200, r_end = 500\<rparr>" "cctime 10 900000000" 30
      "new_RfServerConfiguration\<lparr>m_selfServer := new_RfServer\<lparr>rs_id := 3\<rparr>\<rparr>" 24 "m_pRfLogger demo_raft"]
  by (auto simp: cctime_add_def cctime_eq_tick_def get_total_nsecs_def Random_GetNew_def check_range_def INVALID_RANGE_def)

end
