(* ===== verification/Node.thy ===== *)
theory Node
  imports Raft
begin

text \<open>
  The node as a process: the services with their creation, start and stop (\<open>server/node/service-manager.cc\<close>,
  \<open>client-rpc-service.cc\<close>), the global variables (\<open>common/global-vars.cc\<close>) and the main program with its
  signal handler (\<open>server/ccraftd-main.cc\<close>). The services are those of \<open>Cluster\<close> and \<open>Raft\<close>; what the
  operating system, the flags and the files give them is the record \<open>node_env\<close>.
\<close>

section \<open>Services\<close>

datatype ServiceType = ElectorManager | ClientRpc | RaftConsensusType | RaftStateMachine

definition SERVICES_TYPES :: "ServiceType list" where
  "SERVICES_TYPES = [ElectorManager, ClientRpc, RaftConsensusType, RaftStateMachine]"

datatype IService = ElectorManagerService RfServerConfiguration | ClientRpcService
  | RaftConsensusService RaftConsensus | RfStateMachineService RfStateMachine

record node_env =
  ne_server_id :: u32
  ne_conf :: "string option"
  ne_files :: raft_files
  ne_rv_interval :: int
  ne_rpc_start :: bool
  ne_rpc_stop :: bool
  ne_now :: cctime
  ne_interval :: int
  ne_rand :: int

type_synonym services = "ServiceType \<rightharpoonup> IService"

text \<open>One pass of the loop of \<open>create_services\<close>; the case of \<open>ElectorManager\<close> falls through.\<close>

definition create_service :: "node_env \<Rightarrow> ServiceType \<Rightarrow> services \<Rightarrow> node_error + services" where
  "create_service env st m =
     (case st of
        ElectorManager \<Rightarrow>
          (let m = m(st \<mapsto> ElectorManagerService new_RfServerConfiguration) in Inr (m(st \<mapsto> ClientRpcService)))
      | ClientRpc \<Rightarrow> Inr (m(st \<mapsto> ClientRpcService))
      | RaftConsensusType \<Rightarrow>
          (case Raft_initialize (ne_files env) (ne_rv_interval env) of
             Inl err \<Rightarrow> Inl err
           | Inr rc \<Rightarrow> Inr (m(st \<mapsto> RaftConsensusService rc)))
      | RaftStateMachine \<Rightarrow> Inr (m(st \<mapsto> RfStateMachineService new_RfStateMachine)))"

fun create_services :: "node_env \<Rightarrow> ServiceType list \<Rightarrow> services \<Rightarrow> node_error + services" where
  "create_services env [] m = Inr m"
| "create_services env (st # sts) m =
     (case create_service env st m of Inl err \<Rightarrow> Inl err | Inr m \<Rightarrow> create_services env sts m)"

definition GetService :: "ServiceType \<Rightarrow> services \<Rightarrow> IService option" where
  "GetService st m = (if m st = None then None else m st)"

definition ClientRpc_Start :: bool where "ClientRpc_Start = False"
definition ClientRpc_Stop :: bool where "ClientRpc_Stop = False"

text \<open>\<open>Start\<close> of a service, through the virtual function.\<close>

definition service_start :: "node_env \<Rightarrow> services \<Rightarrow> IService \<Rightarrow> node_error + bool \<times> IService" where
  "service_start env m s =
     (case s of
        ElectorManagerService conf \<Rightarrow>
          map_sum id (apsnd ElectorManagerService) (Elector_Start (ne_server_id env) (ne_conf env) conf)
      | ClientRpcService \<Rightarrow> Inr (ClientRpc_Start, s)
      | RaftConsensusService rc \<Rightarrow>
          map_sum id (apsnd RaftConsensusService)
            (Raft_Start (case GetService ElectorManager m of Some (ElectorManagerService conf) \<Rightarrow> Some conf | _ \<Rightarrow> None)
               (ne_rpc_start env) (ne_now env) (ne_interval env) (ne_rand env) rc)
      | RfStateMachineService sm \<Rightarrow> Inr (apsnd RfStateMachineService (SM_Start sm)))"

definition service_stop :: "node_env \<Rightarrow> IService \<Rightarrow> bool \<times> IService" where
  "service_stop env s =
     (case s of
        ElectorManagerService conf \<Rightarrow> (True, s)
      | ClientRpcService \<Rightarrow> (ClientRpc_Stop, s)
      | RaftConsensusService rc \<Rightarrow> apsnd RaftConsensusService (Raft_Stop (ne_rpc_stop env) rc)
      | RfStateMachineService sm \<Rightarrow> apsnd RfStateMachineService (SM_Stop sm))"

text \<open>The loop of \<open>start_services\<close> over the map, which is ordered by the service type.\<close>

fun start_services :: "node_env \<Rightarrow> ServiceType list \<Rightarrow> services \<Rightarrow> node_error + bool \<times> services" where
  "start_services env [] m = Inr (True, m)"
| "start_services env (st # sts) m =
     (case m st of
        None \<Rightarrow> start_services env sts m
      | Some s \<Rightarrow>
          (case service_start env m s of
             Inl err \<Rightarrow> Inl err
           | Inr (ok, s) \<Rightarrow>
               let m = m(st \<mapsto> s) in if \<not> ok then Inr (False, m) else start_services env sts m))"

record ServiceManager =
  s_mapServices :: services
  s_bServsBooted :: bool
  s_bAllServsStopped :: bool

definition new_ServiceManager :: ServiceManager where
  "new_ServiceManager = \<lparr>s_mapServices = Map.empty, s_bServsBooted = False, s_bAllServsStopped = False\<rparr>"

definition Bootstrap_Run :: "node_env \<Rightarrow> ServiceManager \<Rightarrow> node_error + ServiceManager" where
  "Bootstrap_Run env mgr =
     (if s_bServsBooted mgr then Inr mgr
      else case create_services env SERVICES_TYPES (s_mapServices mgr) of
             Inl err \<Rightarrow> Inl err
           | Inr m \<Rightarrow>
               (case start_services env SERVICES_TYPES m of
                  Inl err \<Rightarrow> Inl err
                | Inr (ok, m) \<Rightarrow>
                    if \<not> ok then Inl (Exception ''Cannot start services!'')
                    else Inr (mgr\<lparr>s_mapServices := m, s_bServsBooted := True\<rparr>)))"

text \<open>\<open>ServiceDestroyer::Run\<close> stops every service twice.\<close>

definition stop_services :: "node_env \<Rightarrow> services \<Rightarrow> services" where
  "stop_services env m = map_option (snd \<circ> service_stop env) \<circ> m"

definition Destroyer_Run :: "node_env \<Rightarrow> ServiceManager \<Rightarrow> ServiceManager" where
  "Destroyer_Run env mgr =
     (let m = stop_services env (s_mapServices mgr);
          m = stop_services env m
      in mgr\<lparr>s_mapServices := m, s_bAllServsStopped := True\<rparr>)"

text \<open>\<open>WaitAllServicesStopped\<close> goes on waiting while the flag is not set.\<close>

definition waits :: "ServiceManager \<Rightarrow> bool" where
  "waits mgr \<longleftrightarrow> \<not> s_bAllServsStopped mgr"

section \<open>The main program\<close>

datatype signo = SIGHUP | SIGINT | SIGTERM | SIGPIPE | SIGALRM

definition signal_handler :: "node_env \<Rightarrow> signo \<Rightarrow> ServiceManager \<Rightarrow> ServiceManager" where
  "signal_handler env sig mgr =
     (case sig of
        SIGHUP \<Rightarrow> mgr
      | SIGINT \<Rightarrow> Destroyer_Run env mgr
      | SIGTERM \<Rightarrow> Destroyer_Run env mgr
      | _ \<Rightarrow> mgr)"

text \<open>What \<open>initialize\<close> of the global variables gets from the system: the number of processors, whether
  \<open>popen\<close> works, whether reading fails, the result of \<open>pclose\<close>, and the number in the output.\<close>

record global_calls =
  gc_nprocs :: int
  gc_popen :: bool
  gc_ferror :: bool
  gc_pclose :: int
  gc_atoi :: int

definition global_initialize :: "global_calls \<Rightarrow> node_error + int" where
  "global_initialize g =
     (if \<not> gc_popen g then Inl (Exception ''popen'')
      else if gc_ferror g then Inl (Exception ''fread err occur!'')
      else if gc_pclose g = -1 then Inl (Exception ''pclose'')
      else if gc_atoi g = 0 then Inl Undefined_behaviour
      else let PHYSICAL_CPUS_CNT = gc_nprocs g sdiv gc_atoi g
           in if PHYSICAL_CPUS_CNT = 0 then Inl (Exception ''atoi physical cpus cnt failed!'') else Inr PHYSICAL_CPUS_CNT)"

text \<open>The directory of the log files is the empty string.\<close>

definition init_gflags_glog :: "'fs os_calls \<Rightarrow> 'fs \<Rightarrow> node_error + 'fs" where
  "init_gflags_glog os fs =
     (let log_dir = [] in case CreateDirPath os log_dir fs of
        (rc, fs) \<Rightarrow> if rc = -1 then Inl (Exception ''create dir'') else Inr fs)"

text \<open>A run of the process: it returns a status, serves until the signals \<open>sigs\<close> have stopped it, serves
  forever, or is aborted by the log of an exception or an error.\<close>

datatype outcome = Returns int | Serves_forever | Aborted node_error

definition main :: "int \<Rightarrow> 'fs os_calls \<Rightarrow> 'fs \<Rightarrow> global_calls \<Rightarrow> node_env \<Rightarrow> signo list \<Rightarrow> outcome" where
  "main argc os fs g env sigs =
     (if argc \<noteq> 2 then Returns (-1)
      else case init_gflags_glog os fs of
             Inl err \<Rightarrow> Aborted err
           | Inr fs \<Rightarrow>
               (case global_initialize g of
                  Inl err \<Rightarrow> Aborted err
                | Inr _ \<Rightarrow>
                    (case Bootstrap_Run env new_ServiceManager of
                       Inl err \<Rightarrow> Aborted err
                     | Inr mgr \<Rightarrow> if waits (fold (signal_handler env) sigs mgr) then Serves_forever else Returns 0)))"

section \<open>Properties\<close>

lemma created_services:
  "create_services env SERVICES_TYPES Map.empty =
     (case Raft_initialize (ne_files env) (ne_rv_interval env) of
        Inl err \<Rightarrow> Inl err
      | Inr rc \<Rightarrow> Inr [ElectorManager \<mapsto> ClientRpcService, ClientRpc \<mapsto> ClientRpcService,
                       RaftConsensusType \<mapsto> RaftConsensusService rc,
                       RaftStateMachine \<mapsto> RfStateMachineService new_RfStateMachine])"
  by (simp add: SERVICES_TYPES_def create_service_def Let_def split: sum.split)

lemma bootstrap_fails:
  "Bootstrap_Run env new_ServiceManager =
     Inl (case Raft_initialize (ne_files env) (ne_rv_interval env) of
            Inl err \<Rightarrow> err | Inr _ \<Rightarrow> Exception ''Cannot start services!'')"
  by (simp add: Bootstrap_Run_def new_ServiceManager_def created_services split: sum.split)
     (simp add: SERVICES_TYPES_def service_start_def ClientRpc_Start_def)

text \<open>C36. The server never serves: started with the right number of arguments the process is aborted,
  whatever the files, the flags and the system give it, because the switch that creates the services falls
  through, the client's RPC service stands in the place of the elector manager, and its start fails.\<close>

theorem server_never_serves:
  "\<exists>err. main argc os fs g env sigs = (if argc \<noteq> 2 then Returns (-1) else Aborted err)"
  by (auto simp: main_def bootstrap_fails split: sum.splits)

text \<open>With the services of the switch, the start of the consensus module fails its assertion even on its
  own: the cast of the elector manager gives null.\<close>

theorem raft_start_asserts:
  assumes "create_services env SERVICES_TYPES Map.empty = Inr m" "m RaftConsensusType = Some s"
  shows "service_start env m s = Inl Assertion_failed"
proof -
  obtain rc where rc: "Raft_initialize (ne_files env) (ne_rv_interval env) = Inr rc"
    and m: "m ElectorManager = Some ClientRpcService" "s = RaftConsensusService rc"
    using assms by (cases "Raft_initialize (ne_files env) (ne_rv_interval env)") (auto simp: created_services)
  have "rc_stopped rc"
    using rc by (auto simp: Raft_initialize_def Raft_load_def new_RaftConsensus_def Let_def
        split: if_splits sum.splits option.splits prod.splits)
  then show ?thesis using m by (simp add: service_start_def GetService_def Raft_Start_def)
qed

definition demo_env :: node_env where
  "demo_env = \<lparr>ne_server_id = 1, ne_conf = None,
     ne_files = demo_files, ne_rv_interval = 24, ne_rpc_start = True, ne_rpc_stop = True, ne_now = cctime 10 0,
     ne_interval = 30, ne_rand = 200\<rparr>"

theorem raft_start_asserts_witness:
  "\<exists>m s. create_services demo_env SERVICES_TYPES Map.empty = Inr m \<and> m RaftConsensusType = Some s
     \<and> service_start demo_env m s = Inl Assertion_failed"
proof -
  obtain rc where rc: "Raft_initialize (ne_files demo_env) (ne_rv_interval demo_env) = Inr rc"
    by (simp add: demo_env_def demo_files_def Raft_initialize_def new_Range_def Logger_initialize_def Raft_load_def)
  let ?m = "[ElectorManager \<mapsto> ClientRpcService, ClientRpc \<mapsto> ClientRpcService,
    RaftConsensusType \<mapsto> RaftConsensusService rc, RaftStateMachine \<mapsto> RfStateMachineService new_RfStateMachine]"
  have m: "create_services demo_env SERVICES_TYPES Map.empty = Inr ?m" by (simp add: created_services rc)
  from raft_start_asserts [OF m, of "RaftConsensusService rc"] m show ?thesis
    by (intro exI [of _ ?m] exI [of _ "RaftConsensusService rc"]) simp
qed








end
