(* ===== verification/SegVector.thy ===== *)
theory SegVector
  imports Resources
begin

text \<open>
  The segmented vector (\<open>common/segmented-vector.h\<close>) with its default index type \<open>uint32_t\<close>: construction,
  \<open>push_back\<close>, the index operator, \<open>clear\<close>, \<open>size\<close> and \<open>empty\<close>. An access outside a segment or to a
  segment that is not there, a division by zero and a failed assertion are \<open>None\<close>. The two remaining
  operations, \<open>erase_tail\<close> and \<open>vacuum\<close>, pass integers where \<open>std::vector::erase\<close> takes iterators and
  cannot be instantiated.
\<close>

section \<open>Operations\<close>

record 'a SegmentedVector =
  m_iSegmentSize :: u32
  m_iExpandSegmentNum :: u32
  m_vSegments :: "'a list list"
  m_iSegmentsMaxIdx :: int
  m_nextElementShouldUsedIdx :: "u32 \<times> u32"
  sv_iSize :: u32

definition DEFAULT_SEGMENT_SIZE :: u32 where "DEFAULT_SEGMENT_SIZE = 127"
definition DEFAULT_EXPEND_SEG_NUM :: u32 where "DEFAULT_EXPEND_SEG_NUM = 1"

definition alloc_new_segments :: "'a SegmentedVector \<Rightarrow> 'a SegmentedVector" where
  "alloc_new_segments v =
     v\<lparr>m_vSegments := m_vSegments v @ replicate (unat (m_iExpandSegmentNum v)) [],
       m_iSegmentsMaxIdx := m_iSegmentsMaxIdx v + uint (m_iExpandSegmentNum v)\<rparr>"

definition sv_init :: "'a SegmentedVector \<Rightarrow> 'a SegmentedVector" where
  "sv_init v = v\<lparr>sv_iSize := 0, m_nextElementShouldUsedIdx := (of_int (m_iSegmentsMaxIdx v), 0)\<rparr>"

definition sv_members :: "'a SegmentedVector" where
  "sv_members = \<lparr>m_iSegmentSize = DEFAULT_SEGMENT_SIZE, m_iExpandSegmentNum = DEFAULT_EXPEND_SEG_NUM,
     m_vSegments = [], m_iSegmentsMaxIdx = -1, m_nextElementShouldUsedIdx = (0, 0), sv_iSize = 0\<rparr>"

definition new_SegmentedVector0 :: "'a SegmentedVector" where
  "new_SegmentedVector0 = sv_init (alloc_new_segments sv_members)"

definition new_SegmentedVector1 :: "u32 \<Rightarrow> 'a SegmentedVector option" where
  "new_SegmentedVector1 segmentSize =
     (if \<not> IsPowerOfTwo (sint segmentSize) then None
      else Some (sv_init (alloc_new_segments (sv_members\<lparr>m_iSegmentSize := segmentSize - 1\<rparr>))))"

definition new_SegmentedVector2 :: "u32 \<Rightarrow> u32 \<Rightarrow> 'a SegmentedVector option" where
  "new_SegmentedVector2 segmentSize reserveSegmentsCnt =
     (if \<not> IsPowerOfTwo (sint segmentSize) then None
      else Some (sv_init (alloc_new_segments (sv_members\<lparr>m_iSegmentSize := segmentSize - 1\<rparr>))))"

definition new_SegmentedVector3 :: "u32 \<Rightarrow> u32 \<Rightarrow> u32 \<Rightarrow> 'a SegmentedVector option" where
  "new_SegmentedVector3 segmentSize reserveSegmentsCnt expendSegNumber =
     (if \<not> IsPowerOfTwo (sint segmentSize) then None
      else Some (sv_init (alloc_new_segments
                   (sv_members\<lparr>m_iExpandSegmentNum := expendSegNumber, m_iSegmentSize := segmentSize - 1\<rparr>))))"

definition sv_at :: "u32 \<Rightarrow> 'a SegmentedVector \<Rightarrow> 'a option" where
  "sv_at index v =
     (if m_iSegmentSize v = 0 then None
      else
        let segIdx = unat (index div m_iSegmentSize v);
            inSegIdx = unat (and index (m_iSegmentSize v))
        in if segIdx < length (m_vSegments v) \<and> inSegIdx < length (m_vSegments v ! segIdx)
           then Some (m_vSegments v ! segIdx ! inSegIdx) else None)"

definition push_back :: "'a \<Rightarrow> 'a SegmentedVector \<Rightarrow> 'a SegmentedVector option" where
  "push_back element v =
     (let v = v\<lparr>sv_iSize := sv_iSize v + 1\<rparr>;
          (i, j) = m_nextElementShouldUsedIdx v;
          v = (if j > m_iSegmentSize v
               then (let v = (if m_iSegmentsMaxIdx v = uint i then alloc_new_segments v else v)
                     in v\<lparr>m_nextElementShouldUsedIdx := (i + 1, 1)\<rparr>)
               else v\<lparr>m_nextElementShouldUsedIdx := (i, j + 1)\<rparr>);
          k = unat (fst (m_nextElementShouldUsedIdx v))
      in if k < length (m_vSegments v)
         then Some (v\<lparr>m_vSegments := (m_vSegments v)[k := m_vSegments v ! k @ [element]]\<rparr>) else None)"

definition sv_clear :: "'a SegmentedVector \<Rightarrow> 'a SegmentedVector" where
  "sv_clear v = (let v = sv_init v in v\<lparr>m_vSegments := map (\<lambda>p. []) (m_vSegments v)\<rparr>)"

definition sv_size :: "'a SegmentedVector \<Rightarrow> u32" where
  "sv_size v = sv_iSize v"

definition sv_empty :: "'a SegmentedVector \<Rightarrow> bool" where
  "sv_empty v \<longleftrightarrow> sv_iSize v = 0"

fun push_all :: "'a list \<Rightarrow> 'a SegmentedVector \<Rightarrow> 'a SegmentedVector option" where
  "push_all [] v = Some v"
| "push_all (x # xs) v = (case push_back x v of None \<Rightarrow> None | Some v \<Rightarrow> push_all xs v)"

section \<open>The content\<close>

text \<open>A vector that grows by one segment at a time: full segments of \<open>K\<close> elements, then the segment that
  is being filled.\<close>

definition sv_holds :: "nat \<Rightarrow> 'a list \<Rightarrow> 'a SegmentedVector \<Rightarrow> bool" where
  "sv_holds K xs v \<longleftrightarrow>
     (\<exists>fs l. m_vSegments v = fs @ [l] \<and> list_all (\<lambda>f. length f = K) fs \<and> length l \<le> K \<and> xs = concat fs @ l
        \<and> m_iSegmentsMaxIdx v = int (length fs)
        \<and> m_nextElementShouldUsedIdx v = (of_nat (length fs), of_nat (length l)))
   \<and> sv_iSize v = of_nat (length xs) \<and> m_iExpandSegmentNum v = 1 \<and> K = Suc (unat (m_iSegmentSize v)) \<and> K < 2 ^ 32"

lemma length_concat_full: "list_all (\<lambda>f. length f = K) fs \<Longrightarrow> length (concat fs) = length fs * K"
  by (induction fs) auto

lemma push_back_holds:
  assumes "sv_holds K xs v" "Suc (length xs) < 2 ^ 32"
  shows "\<exists>v'. push_back x v = Some v' \<and> sv_holds K (xs @ [x]) v' \<and> m_iSegmentSize v' = m_iSegmentSize v"
proof -
  obtain fs l where v: "m_vSegments v = fs @ [l]" "list_all (\<lambda>f. length f = K) fs" "length l \<le> K" "xs = concat fs @ l"
    "m_iSegmentsMaxIdx v = int (length fs)" "m_nextElementShouldUsedIdx v = (of_nat (length fs), of_nat (length l))"
    and K: "sv_iSize v = of_nat (length xs)" "m_iExpandSegmentNum v = 1" "K = Suc (unat (m_iSegmentSize v))" "K < 2 ^ 32"
    using assms(1) unfolding sv_holds_def by blast
  have "length fs \<le> length fs * K" using K(3) by simp
  moreover have "length fs * K \<le> length xs" using length_concat_full [OF v(2)] v(4) by simp
  ultimately have small: "Suc (length fs) < 2 ^ 32" using assms(2) by linarith
  have fs: "unat (of_nat (length fs) :: u32) = length fs" "unat (of_nat (length fs) + 1 :: u32) = Suc (length fs)"
    "uint (of_nat (length fs) :: u32) = int (length fs)"
    using small by (simp_all add: unat_of_nat unat_word_ariths uint_nat)
  have l: "unat (of_nat (length l) :: u32) = length l" using v(3) K(4) by (simp add: unat_of_nat)
  have full: "of_nat (length l) > m_iSegmentSize v \<longleftrightarrow> length l = K"
    using l v(3) K(3) by (auto simp: word_less_nat_alt)
  show ?thesis
  proof (cases "length l = K")
    case True
    then have "push_back x v = Some (v\<lparr>sv_iSize := sv_iSize v + 1, m_vSegments := (fs @ [l]) @ [[x]],
        m_iSegmentsMaxIdx := int (length fs) + 1, m_nextElementShouldUsedIdx := (of_nat (length fs) + 1, 1)\<rparr>)"
      using v(1,5,6) K(2) full fs by (simp add: push_back_def Let_def alloc_new_segments_def list_update_append nth_append)
    moreover have "sv_holds K (xs @ [x]) (v\<lparr>sv_iSize := sv_iSize v + 1, m_vSegments := (fs @ [l]) @ [[x]],
        m_iSegmentsMaxIdx := int (length fs) + 1, m_nextElementShouldUsedIdx := (of_nat (length fs) + 1, 1)\<rparr>)"
      unfolding sv_holds_def using v K True
      by (auto intro!: exI [of _ "fs @ [l]"] exI [of _ "[x]"])
    ultimately show ?thesis by simp
  next
    case False
    then have "push_back x v = Some (v\<lparr>sv_iSize := sv_iSize v + 1, m_vSegments := fs @ [l @ [x]],
        m_nextElementShouldUsedIdx := (of_nat (length fs), of_nat (length l) + 1)\<rparr>)"
      using v(1,5,6) K(2) full fs by (simp add: push_back_def Let_def list_update_append nth_append)
    moreover have "sv_holds K (xs @ [x]) (v\<lparr>sv_iSize := sv_iSize v + 1, m_vSegments := fs @ [l @ [x]],
        m_nextElementShouldUsedIdx := (of_nat (length fs), of_nat (length l) + 1)\<rparr>)"
      unfolding sv_holds_def using v K False
      by (auto intro!: exI [of _ fs] exI [of _ "l @ [x]"])
    ultimately show ?thesis by simp
  qed
qed

lemma push_all_holds:
  "sv_holds K xs v \<Longrightarrow> length xs + length ys < 2 ^ 32 \<Longrightarrow>
     \<exists>v'. push_all ys v = Some v' \<and> sv_holds K (xs @ ys) v' \<and> m_iSegmentSize v' = m_iSegmentSize v"
proof (induction ys arbitrary: xs v)
  case (Cons y ys)
  obtain v1 where v1: "push_back y v = Some v1" "sv_holds K (xs @ [y]) v1" "m_iSegmentSize v1 = m_iSegmentSize v"
    using push_back_holds [OF Cons.prems(1), of y] Cons.prems(2) by auto
  from Cons.IH [OF v1(2)] Cons.prems(2) v1 show ?case by auto
qed simp



section \<open>Properties\<close>

lemma new_SegmentedVector1_holds:
  assumes "k \<le> 30"
  shows "\<exists>v. new_SegmentedVector1 (2 ^ k) = Some v \<and> sv_holds (2 ^ k) [] v"
proof -
  have "(2 :: nat) ^ k \<le> 2 ^ 30" using assms by (intro power_increasing) auto
  then have lt: "(2 :: nat) ^ k < 2 ^ 31" by simp
  have u: "unat (2 ^ k :: u32) = 2 ^ k" using unat_of_nat [where 'a = 32, of "2 ^ k"] lt by simp
  then have "uint (2 ^ k :: u32) = 2 ^ k" by (metis of_nat_numeral of_nat_power uint_nat)
  then have "sint (2 ^ k :: u32) = 2 ^ k"
    using sint_uint [of "2 ^ k :: u32"] signed_take_bit_int_eq_self [of 31 "2 ^ k"]
      power_strict_increasing [of k 31 "2 :: int"] assms
    by (simp add: order.trans [OF _ zero_le_power])
  then have "IsPowerOfTwo (sint (2 ^ k :: u32))" using is_power_of_two_correct by auto
  moreover have "unat (2 ^ k - 1 :: u32) = 2 ^ k - 1"
    using u by (subst unat_sub) (auto simp: word_le_nat_alt)
  ultimately show ?thesis
    using lt
    by (auto simp: new_SegmentedVector1_def sv_holds_def sv_init_def alloc_new_segments_def sv_members_def
        DEFAULT_EXPEND_SEG_NUM_def)
qed



text \<open>After \<open>clear\<close> of a vector with more than one segment the next element goes to the last segment
  while the index operator looks for element 0 in the first: the element cannot be read back.\<close>

theorem segmented_vector_clear_loses:
  assumes "sv_holds K xs v" "K < length xs" "length xs < 2 ^ 32"
  shows "\<exists>v'. push_back y (sv_clear v) = Some v' \<and> sv_size v' = 1 \<and> sv_at 0 v' = None"
proof -
  obtain fs l where v: "m_vSegments v = fs @ [l]" "list_all (\<lambda>f. length f = K) fs" "length l \<le> K" "xs = concat fs @ l"
    "m_iSegmentsMaxIdx v = int (length fs)"
    and K: "K = Suc (unat (m_iSegmentSize v))"
    using assms(1) unfolding sv_holds_def by blast
  have "fs \<noteq> []" using v(3,4) assms(2) by auto
  moreover have "length fs \<le> length fs * K" "length fs * K \<le> length xs"
    using K length_concat_full [OF v(2)] v(4) by simp_all
  then have "length fs < 2 ^ 32" using assms(3) by linarith
  then have "unat (of_int (int (length fs)) :: u32) = length fs" by (simp add: unat_of_nat)
  ultimately show ?thesis
    using v(1,5)
    by (simp add: sv_clear_def sv_init_def push_back_def Let_def sv_size_def sv_at_def list_update_append nth_append
        word_less_nat_alt split: if_splits)
qed

theorem segmented_vector_clear_loses_witness:
  "\<exists>v0 v v'. new_SegmentedVector1 2 = Some v0 \<and> push_all ''abc'' v0 = Some v
     \<and> push_back CHR ''d'' (sv_clear v) = Some v' \<and> sv_at 0 v' = None"
proof -
  obtain v0 :: "char SegmentedVector" where v0: "new_SegmentedVector1 2 = Some v0" "sv_holds 2 [] v0"
    using new_SegmentedVector1_holds [of 1] by auto
  obtain v where v: "push_all ''abc'' v0 = Some v" "sv_holds 2 ''abc'' v"
    using push_all_holds [OF v0(2), of "''abc''"] by auto
  from segmented_vector_clear_loses [OF v(2)] v0 v(1) show ?thesis by auto
qed

end
