(* ===== verification/SkipList.thy ===== *)
theory SkipList
  imports Prelude
begin

text \<open>
  The skip list (\<open>common/skip-list.h\<close>): nodes with one next pointer per level live in a heap, the head is a
  node of the maximal level. The comparison orders elements by a key. Reading or writing behind the pointer
  array of a node or behind the local array \<open>targetPrev\<close>, and an unallocated node, are \<open>None\<close>; so is a search
  that does not end. The level of a new node is an argument, the result of \<open>rand_level\<close>.
\<close>

section \<open>Nodes and heap\<close>

record 'a sl_node =
  sn_data :: 'a
  sn_next :: "nat option list"

type_synonym 'a sl_heap = "nat \<rightharpoonup> 'a sl_node"

record 'a skip_list =
  sl_heap :: "'a sl_heap"
  m_pHead :: nat
  m_iCurLevel :: nat
  m_iMaxLevel :: nat
  sl_fresh :: nat

definition SKIPLIST_MAX_LEVEL :: u32 where "SKIPLIST_MAX_LEVEL = 32 - 1"
definition SKIPLIST_DEFAULT_LEVEL :: nat where "SKIPLIST_DEFAULT_LEVEL = 16 - 1"
definition SKIPLIST_MIN_LEVEL :: nat where "SKIPLIST_MIN_LEVEL = 4 - 1"

text \<open>\<open>p->Next[i]\<close> and the assignment to it.\<close>

definition get_next :: "'a sl_heap \<Rightarrow> nat \<Rightarrow> nat \<Rightarrow> nat option option" where
  "get_next h p i =
     (case h p of None \<Rightarrow> None | Some n \<Rightarrow> if i < length (sn_next n) then Some (sn_next n ! i) else None)"

definition set_next :: "nat \<Rightarrow> nat \<Rightarrow> nat option \<Rightarrow> 'a sl_heap \<Rightarrow> 'a sl_heap option" where
  "set_next p i q h =
     (case h p of
        None \<Rightarrow> None
      | Some n \<Rightarrow> if i < length (sn_next n) then Some (h(p \<mapsto> n\<lparr>sn_next := (sn_next n)[i := q]\<rparr>)) else None)"

definition create_node :: "nat \<Rightarrow> 'a \<Rightarrow> 'a sl_node" where
  "create_node level data = \<lparr>sn_data = data, sn_next = replicate (Suc level) None\<rparr>"

text \<open>The constructor with \<open>maxLevel\<close> minus one and \<open>init\<close>, which compares as unsigned numbers. A negative
  level is no size of an array.\<close>

definition sl_init :: "'a \<Rightarrow> int \<Rightarrow> 'a skip_list option" where
  "sl_init defaultData level =
     (let level = (if of_int level < SKIPLIST_MAX_LEVEL then int SKIPLIST_MIN_LEVEL else level)
      in if level < 0 then None
         else Some \<lparr>sl_heap = [0 \<mapsto> create_node (nat level) defaultData], m_pHead = 0, m_iCurLevel = 0,
                    m_iMaxLevel = nat level, sl_fresh = 1\<rparr>)"

definition new_skip_list0 :: "'a \<Rightarrow> 'a skip_list option" where
  "new_skip_list0 defaultData = sl_init defaultData (int SKIPLIST_DEFAULT_LEVEL)"

definition new_skip_list1 :: "'a \<Rightarrow> int \<Rightarrow> 'a skip_list option" where
  "new_skip_list1 defaultData maxLevel = sl_init defaultData (maxLevel - 1)"

text \<open>The loop of \<open>rand_level\<close> over the values \<open>rand()\<close> gives.\<close>

fun rand_level :: "nat \<Rightarrow> nat \<Rightarrow> nat list \<Rightarrow> nat" where
  "rand_level mx l [] = l"
| "rand_level mx l (r # rs) = (if r mod 12 < 4 \<and> l < mx then rand_level mx (Suc l) rs else l)"

section \<open>Searching\<close>

text \<open>The inner loop of both searches, on level \<open>i\<close> from node \<open>p\<close>.\<close>

partial_function (option) walk :: "('a \<Rightarrow> 'k::linorder) \<Rightarrow> 'a sl_heap \<Rightarrow> nat \<Rightarrow> 'k \<Rightarrow> nat \<Rightarrow> nat option" where
  "walk key h i t p =
     (case get_next h p i of
        None \<Rightarrow> None
      | Some None \<Rightarrow> Some p
      | Some (Some q) \<Rightarrow>
          (case h q of None \<Rightarrow> None | Some n \<Rightarrow> if key (sn_data n) < t then walk key h i t q else Some p))"

declare walk.simps [code]

text \<open>The loop from level \<open>i\<close> down to 0; the list is \<open>targetPrev\<close>.\<close>

primrec find_previous_from :: "('a \<Rightarrow> 'k::linorder) \<Rightarrow> 'a sl_heap \<Rightarrow> 'k \<Rightarrow> nat \<Rightarrow> nat \<Rightarrow> nat list option" where
  "find_previous_from key h t 0 p = (case walk key h 0 t p of None \<Rightarrow> None | Some p \<Rightarrow> Some [p])"
| "find_previous_from key h t (Suc i) p =
     (case walk key h (Suc i) t p of
        None \<Rightarrow> None
      | Some p \<Rightarrow> (case find_previous_from key h t i p of None \<Rightarrow> None | Some ps \<Rightarrow> Some (ps @ [p])))"

definition find_previous_levels_nodes :: "('a \<Rightarrow> 'k::linorder) \<Rightarrow> 'k \<Rightarrow> 'a skip_list \<Rightarrow> nat list option" where
  "find_previous_levels_nodes key t s =
     (if m_iMaxLevel s \<le> m_iCurLevel s then None
      else find_previous_from key (sl_heap s) t (m_iCurLevel s) (m_pHead s))"

primrec find_node_from :: "('a \<Rightarrow> 'k::linorder) \<Rightarrow> 'a sl_heap \<Rightarrow> 'k \<Rightarrow> nat \<Rightarrow> nat \<Rightarrow> nat option option" where
  "find_node_from key h t 0 p =
     (case walk key h 0 t p of
        None \<Rightarrow> None
      | Some p \<Rightarrow>
          (case get_next h p 0 of
             None \<Rightarrow> None
           | Some None \<Rightarrow> Some None
           | Some (Some q) \<Rightarrow>
               (case h q of None \<Rightarrow> None | Some n \<Rightarrow> if \<not> t < key (sn_data n) then Some (Some q) else Some None)))"
| "find_node_from key h t (Suc i) p =
     (case walk key h (Suc i) t p of
        None \<Rightarrow> None
      | Some p \<Rightarrow>
          (case get_next h p (Suc i) of
             None \<Rightarrow> None
           | Some None \<Rightarrow> find_node_from key h t i p
           | Some (Some q) \<Rightarrow>
               (case h q of
                  None \<Rightarrow> None
                | Some n \<Rightarrow> if \<not> t < key (sn_data n) then Some (Some q) else find_node_from key h t i p)))"

definition find_node :: "('a \<Rightarrow> 'k::linorder) \<Rightarrow> 'k \<Rightarrow> 'a skip_list \<Rightarrow> nat option option" where
  "find_node key t s = find_node_from key (sl_heap s) t (m_iCurLevel s) (m_pHead s)"

text \<open>\<open>get\<close>: the element, or \<open>None\<close> for a result whose flag is false.\<close>

definition sl_get :: "('a \<Rightarrow> 'k::linorder) \<Rightarrow> 'a \<Rightarrow> 'a skip_list \<Rightarrow> 'a option option" where
  "sl_get key t s =
     (case find_node key (key t) s of
        None \<Rightarrow> None
      | Some None \<Rightarrow> Some None
      | Some (Some q) \<Rightarrow> map_option (\<lambda>n. Some (sn_data n)) (sl_heap s q))"

definition sl_contains :: "('a \<Rightarrow> 'k::linorder) \<Rightarrow> 'a \<Rightarrow> 'a skip_list \<Rightarrow> bool option" where
  "sl_contains key t s = map_option (\<lambda>q. q \<noteq> None) (find_node key (key t) s)"

section \<open>Inserting and erasing\<close>

text \<open>The loop that links the new node \<open>pNode\<close> on the levels from \<open>i\<close> on.\<close>

fun link_levels :: "nat \<Rightarrow> nat list \<Rightarrow> nat \<Rightarrow> 'a sl_heap \<Rightarrow> 'a sl_heap option" where
  "link_levels pNode [] i h = Some h"
| "link_levels pNode (p # ps) i h =
     (case get_next h p i of
        None \<Rightarrow> None
      | Some q \<Rightarrow>
          (case set_next pNode i q h of
             None \<Rightarrow> None
           | Some h \<Rightarrow> (case set_next p i (Some pNode) h of None \<Rightarrow> None | Some h \<Rightarrow> link_levels pNode ps (Suc i) h)))"

text \<open>The part of \<open>insert\<close> for an element that is not there. When the level rises, the entries of
  \<open>targetPrev\<close> from the current level on are the head.\<close>

definition insert_new :: "nat \<Rightarrow> 'a \<Rightarrow> nat list \<Rightarrow> 'a skip_list \<Rightarrow> 'a skip_list option" where
  "insert_new nodeLevel t targetPrev s =
     (if m_iCurLevel s < nodeLevel \<and> m_iMaxLevel s \<le> nodeLevel then None
      else
        let targetPrev = (if m_iCurLevel s < nodeLevel
              then targetPrev[m_iCurLevel s := m_pHead s] @ replicate (nodeLevel - m_iCurLevel s) (m_pHead s)
              else targetPrev);
            curLevel = (if m_iCurLevel s < nodeLevel then nodeLevel else m_iCurLevel s);
            pNode = sl_fresh s
        in case link_levels pNode (take (Suc nodeLevel) targetPrev) 0 ((sl_heap s)(pNode \<mapsto> create_node nodeLevel t)) of
             None \<Rightarrow> None
           | Some h \<Rightarrow> Some (s\<lparr>sl_heap := h, m_iCurLevel := curLevel, sl_fresh := Suc pNode\<rparr>))"

definition sl_insert :: "('a \<Rightarrow> 'k::linorder) \<Rightarrow> nat \<Rightarrow> 'a \<Rightarrow> 'a skip_list \<Rightarrow> 'a skip_list option" where
  "sl_insert key nodeLevel t s =
     (case find_previous_levels_nodes key (key t) s of
        None \<Rightarrow> None
      | Some targetPrev \<Rightarrow>
          (case get_next (sl_heap s) (targetPrev ! 0) 0 of
             None \<Rightarrow> None
           | Some None \<Rightarrow> insert_new nodeLevel t targetPrev s
           | Some (Some q) \<Rightarrow>
               (case sl_heap s q of
                  None \<Rightarrow> None
                | Some n \<Rightarrow>
                    if \<not> key (sn_data n) < key t \<and> \<not> key t < key (sn_data n)
                    then Some (s\<lparr>sl_heap := (sl_heap s)(q \<mapsto> n\<lparr>sn_data := t\<rparr>)\<rparr>)
                    else insert_new nodeLevel t targetPrev s)))"

text \<open>The loop of \<open>erase\<close> that unlinks the node \<open>q\<close> from level \<open>i\<close> on.\<close>

fun unlink_levels :: "nat \<Rightarrow> nat list \<Rightarrow> nat \<Rightarrow> 'a sl_heap \<Rightarrow> 'a sl_heap option" where
  "unlink_levels q [] i h = Some h"
| "unlink_levels q (p # ps) i h =
     (case get_next h p i of
        None \<Rightarrow> None
      | Some x \<Rightarrow>
          if x = Some q
          then (case get_next h q i of
                  None \<Rightarrow> None
                | Some y \<Rightarrow> (case set_next p i y h of None \<Rightarrow> None | Some h \<Rightarrow> unlink_levels q ps (Suc i) h))
          else Some h)"

text \<open>The loop that lowers the current level \<open>c\<close> by the empty levels from \<open>i\<close> down to 1.\<close>

primrec drop_levels :: "'a sl_heap \<Rightarrow> nat \<Rightarrow> nat \<Rightarrow> nat \<Rightarrow> nat option" where
  "drop_levels h head 0 c = Some c"
| "drop_levels h head (Suc i) c =
     (case get_next h head (Suc i) of
        None \<Rightarrow> None
      | Some None \<Rightarrow> drop_levels h head i (c - 1)
      | Some (Some q) \<Rightarrow> drop_levels h head i c)"

definition sl_erase :: "('a \<Rightarrow> 'k::linorder) \<Rightarrow> 'a \<Rightarrow> 'a skip_list \<Rightarrow> (bool \<times> 'a skip_list) option" where
  "sl_erase key t s =
     (case find_previous_levels_nodes key (key t) s of
        None \<Rightarrow> None
      | Some targetPrev \<Rightarrow>
          (case get_next (sl_heap s) (targetPrev ! 0) 0 of
             None \<Rightarrow> None
           | Some None \<Rightarrow> Some (False, s)
           | Some (Some q) \<Rightarrow>
               (case sl_heap s q of
                  None \<Rightarrow> None
                | Some n \<Rightarrow>
                    if key (sn_data n) < key t \<or> key t < key (sn_data n) then Some (False, s)
                    else
                      (case unlink_levels q targetPrev 0 (sl_heap s) of
                         None \<Rightarrow> None
                       | Some h \<Rightarrow>
                           let h = h(q := None)
                           in (case drop_levels h (m_pHead s) (m_iCurLevel s) (m_iCurLevel s) of
                                 None \<Rightarrow> None
                               | Some c \<Rightarrow> Some (True, s\<lparr>sl_heap := h, m_iCurLevel := c\<rparr>))))))"

text \<open>The loop of \<open>clear\<close>, which deletes a node, steps over the next one and goes on behind it.\<close>

partial_function (option) clear_loop :: "nat option \<Rightarrow> 'a sl_heap \<Rightarrow> 'a sl_heap option" where
  "clear_loop q h =
     (case q of
        None \<Rightarrow> Some h
      | Some q \<Rightarrow>
          (case get_next h q 0 of
             None \<Rightarrow> None
           | Some None \<Rightarrow> Some (h(q := None))
           | Some (Some p) \<Rightarrow>
               (case get_next (h(q := None)) p 0 of None \<Rightarrow> None | Some q' \<Rightarrow> clear_loop q' (h(q := None)))))"

declare clear_loop.simps [code]

definition sl_clear :: "'a skip_list \<Rightarrow> 'a skip_list option" where
  "sl_clear s =
     (case get_next (sl_heap s) (m_pHead s) 0 of
        None \<Rightarrow> None
      | Some q \<Rightarrow>
          (case clear_loop q (sl_heap s) of
             None \<Rightarrow> None
           | Some h \<Rightarrow>
               map_option (\<lambda>n. s\<lparr>sl_heap := h(m_pHead s \<mapsto> n\<lparr>sn_next := map (\<lambda>_. None) (sn_next n)\<rparr>)\<rparr>) (h (m_pHead s))))"

text \<open>The iterator is the current node, null at the end.\<close>

definition sl_begin :: "'a skip_list \<Rightarrow> nat option option" where
  "sl_begin s = get_next (sl_heap s) (m_pHead s) 0"

definition iter_next :: "'a sl_heap \<Rightarrow> nat option \<Rightarrow> nat option option" where
  "iter_next h m_pCur = (case m_pCur of None \<Rightarrow> Some None | Some p \<Rightarrow> get_next h p 0)"

definition iter_data :: "'a sl_heap \<Rightarrow> nat option \<Rightarrow> 'a option" where
  "iter_data h m_pCur = (case m_pCur of None \<Rightarrow> None | Some p \<Rightarrow> map_option sn_data (h p))"

section \<open>Pointers and chains\<close>

definition dat :: "'a sl_heap \<Rightarrow> nat \<Rightarrow> 'a" where
  "dat h a = sn_data (the (h a))"

definition height :: "'a sl_heap \<Rightarrow> nat \<Rightarrow> nat" where
  "height h a = (case h a of None \<Rightarrow> 0 | Some n \<Rightarrow> length (sn_next n))"

lemma get_next_None: "get_next h a i = None \<longleftrightarrow> height h a \<le> i"
  by (auto simp: get_next_def height_def split: option.splits)

lemma set_next_Some:
  assumes "i < height h a"
  shows "\<exists>h'. set_next a i q h = Some h' \<and> dom h' = dom h \<and> dat h' = dat h \<and> height h' = height h
    \<and> (\<forall>b j. get_next h' b j = (if b = a \<and> j = i then Some q else get_next h b j))"
proof -
  obtain n where n: "h a = Some n" "i < length (sn_next n)"
    using assms by (auto simp: height_def split: option.splits)
  then show ?thesis
    by (intro exI [of _ "h(a \<mapsto> n\<lparr>sn_next := (sn_next n)[i := q]\<rparr>)"])
      (auto simp: set_next_def dat_def height_def get_next_def fun_eq_iff)
qed

text \<open>The nodes reached on level \<open>i\<close> behind node \<open>a\<close>.\<close>

primrec chain :: "(nat \<Rightarrow> nat option option) \<Rightarrow> nat \<Rightarrow> nat list \<Rightarrow> bool" where
  "chain nx a [] \<longleftrightarrow> nx a = Some None"
| "chain nx a (b # bs) \<longleftrightarrow> nx a = Some (Some b) \<and> chain nx b bs"

lemma chain_append:
  "chain nx a (bs @ cs) \<Longrightarrow>
     nx (last (a # bs)) = Some (case cs of [] \<Rightarrow> None | c # _ \<Rightarrow> Some c) \<and> chain nx (last (a # bs)) cs"
  by (induction bs arbitrary: a) (auto split: list.split)

lemma chain_cong: "(\<And>b. b \<in> set (a # bs) \<Longrightarrow> nx b = nx' b) \<Longrightarrow> chain nx a bs = chain nx' a bs"
  by (induction bs arbitrary: a) auto

lemma chain_insert:
  assumes "chain nx a (bs @ cs)" "x \<notin> set (a # bs @ cs)" "distinct (a # bs @ cs)"
    and "nx' (last (a # bs)) = Some (Some x)" "nx' x = nx (last (a # bs))"
    and "\<And>b. b \<noteq> x \<Longrightarrow> b \<noteq> last (a # bs) \<Longrightarrow> nx' b = nx b"
  shows "chain nx' a (bs @ x # cs)"
  using assms
proof (induction bs arbitrary: a)
  case Nil
  have "chain nx' x cs"
  proof (cases cs)
    case (Cons c ds)
    have "chain nx' c ds = chain nx c ds"
      using Nil(2,3) Cons by (intro chain_cong Nil(6)) auto
    then show ?thesis using Nil(1,5) Cons by auto
  qed (use Nil in auto)
  then show ?case using Nil(4) by simp
next
  case (Cons b bs)
  have "a \<noteq> last (b # bs)" using Cons.prems(3) by (metis append_Cons distinct.simps(2) last_in_set list.distinct(1) Un_iff set_append)
  then show ?case using Cons.IH [of b] Cons.prems by auto
qed

lemma chain_remove:
  assumes "chain nx a (bs @ x # cs)" "distinct (a # bs @ x # cs)"
    and "nx' (last (a # bs)) = nx x" "\<And>b. b \<noteq> x \<Longrightarrow> b \<noteq> last (a # bs) \<Longrightarrow> nx' b = nx b"
  shows "chain nx' a (bs @ cs)"
  using assms
proof (induction bs arbitrary: a)
  case Nil
  show ?case
  proof (cases cs)
    case (Cons c ds)
    have "chain nx' c ds = chain nx c ds"
      using Nil(2) Cons by (intro chain_cong Nil(4)) auto
    then show ?thesis using Nil(1,3) Cons by auto
  qed (use Nil in auto)
next
  case (Cons b bs)
  have "a \<noteq> last (b # bs)" using Cons.prems(2) by (metis append_Cons distinct.simps(2) last_in_set list.distinct(1) Un_iff set_append)
  then show ?case using Cons.IH [of b] Cons.prems by auto
qed

section \<open>The invariant\<close>

text \<open>\<open>xs\<close> are the nodes in the order of their keys. Level \<open>i\<close> links those that are higher than \<open>i\<close>.\<close>

definition on_level :: "'a sl_heap \<Rightarrow> nat \<Rightarrow> nat list \<Rightarrow> nat list" where
  "on_level h i xs = filter (\<lambda>a. i < height h a) xs"

definition sl_inv :: "('a \<Rightarrow> 'k::linorder) \<Rightarrow> 'a skip_list \<Rightarrow> nat list \<Rightarrow> bool" where
  "sl_inv key s xs \<longleftrightarrow>
     distinct (m_pHead s # xs)
   \<and> (\<forall>a \<in> set xs. 0 < height (sl_heap s) a \<and> height (sl_heap s) a \<le> Suc (m_iCurLevel s))
   \<and> height (sl_heap s) (m_pHead s) = Suc (m_iMaxLevel s) \<and> m_iCurLevel s \<le> m_iMaxLevel s
   \<and> sorted_wrt (\<lambda>a b. key (dat (sl_heap s) a) < key (dat (sl_heap s) b)) xs
   \<and> (\<forall>i \<le> m_iMaxLevel s. chain (\<lambda>a. get_next (sl_heap s) a i) (m_pHead s) (on_level (sl_heap s) i xs))
   \<and> (\<forall>a \<in> dom (sl_heap s). a < sl_fresh s)"

section \<open>The searches\<close>

lemma chain_in_dom: "chain (\<lambda>a. get_next h a i) a bs \<Longrightarrow> b \<in> set (a # bs) \<Longrightarrow> b \<in> dom h"
  by (induction bs arbitrary: a) (auto simp: get_next_def split: option.splits)

lemma dat_eq: "h a = Some n \<Longrightarrow> sn_data n = dat h a"
  by (simp add: dat_def)

lemma walk_chain:
  assumes "chain (\<lambda>a. get_next h a i) p (bs @ cs)" "\<forall>b \<in> set bs. key (dat h b) < t"
    and "\<forall>c \<in> set cs. \<not> key (dat h c) < t"
  shows "walk key h i t p = Some (last (p # bs))"
  using assms
proof (induction bs arbitrary: p)
  case Nil
  show ?case
  proof (cases cs)
    case (Cons c ds)
    then obtain n where n: "h c = Some n" using chain_in_dom [OF Nil(1), of c] by auto
    then show ?thesis using Nil Cons n by (subst walk.simps) (simp add: dat_eq [where h = h, OF n])
  qed (use Nil in \<open>subst walk.simps, simp\<close>)
next
  case (Cons b bs)
  obtain n where n: "h b = Some n" using chain_in_dom [OF Cons.prems(1), of b] by auto
  then show ?case using Cons n by (subst walk.simps) (simp add: dat_eq [where h = h, OF n])
qed

lemma walk_from:
  assumes "chain (\<lambda>a. get_next h a i) head (bs @ cs)" "p \<in> set (head # bs)" "\<forall>b \<in> set bs. key (dat h b) < t"
    and "\<forall>c \<in> set cs. \<not> key (dat h c) < t"
  shows "walk key h i t p = Some (last (head # bs))"
proof (cases "p = head")
  case True
  then show ?thesis using walk_chain [OF assms(1,3,4)] by simp
next
  case False
  then obtain us vs where bs: "bs = us @ p # vs" using assms(2) by (auto dest: split_list)
  have "chain (\<lambda>a. get_next h a i) p (vs @ cs)"
    using chain_append [of "\<lambda>a. get_next h a i" head "us @ [p]" "vs @ cs"] assms(1) bs by simp
  from walk_chain [OF this, of key t] show ?thesis using assms(3,4) bs by simp
qed

lemma last_on_level: "last (a # on_level h (Suc i) xs) \<in> set (a # on_level h i xs)"
  using last_in_set [of "on_level h (Suc i) xs"] by (auto simp: on_level_def)

text \<open>The nodes before and from the key \<open>t\<close> on, and the level chains over them.\<close>

definition at_key :: "('a \<Rightarrow> 'k::linorder) \<Rightarrow> 'a sl_heap \<Rightarrow> nat \<Rightarrow> 'k \<Rightarrow> nat \<Rightarrow> nat list \<Rightarrow> nat list \<Rightarrow> bool" where
  "at_key key h head t m T D \<longleftrightarrow>
     (\<forall>a \<in> set T. key (dat h a) < t) \<and> (\<forall>a \<in> set D. \<not> key (dat h a) < t)
   \<and> sorted_wrt (\<lambda>a b. key (dat h a) < key (dat h b)) D \<and> (\<forall>a \<in> set D. 0 < height h a)
   \<and> (\<forall>i \<le> m. chain (\<lambda>a. get_next h a i) head (on_level h i T @ on_level h i D))"

definition prev :: "'a sl_heap \<Rightarrow> nat \<Rightarrow> nat list \<Rightarrow> nat \<Rightarrow> nat" where
  "prev h head T i = last (head # on_level h i T)"

lemma at_key_walk:
  assumes "at_key key h head t m T D" "i \<le> m" "p \<in> set (head # on_level h i T)"
  shows "walk key h i t p = Some (prev h head T i)"
    and "get_next h (prev h head T i) i = Some (case on_level h i D of [] \<Rightarrow> None | d # _ \<Rightarrow> Some d)"
proof -
  have c: "chain (\<lambda>a. get_next h a i) head (on_level h i T @ on_level h i D)"
    using assms(1,2) by (auto simp: at_key_def)
  show "walk key h i t p = Some (prev h head T i)"
    using walk_from [OF c assms(3), of key t] assms(1) by (auto simp: at_key_def on_level_def prev_def)
  show "get_next h (prev h head T i) i = Some (case on_level h i D of [] \<Rightarrow> None | d # _ \<Rightarrow> Some d)"
    using chain_append [OF c] by (simp add: prev_def)
qed

lemma find_previous_ok:
  assumes "at_key key h head t m T D"
  shows "i \<le> m \<Longrightarrow> p \<in> set (head # on_level h i T) \<Longrightarrow>
     find_previous_from key h t i p = Some (map (prev h head T) [0..<Suc i])"
proof (induction i arbitrary: p)
  case 0
  then show ?case using at_key_walk(1) [OF assms, of 0 p] by simp
next
  case (Suc i)
  have "prev h head T (Suc i) \<in> set (head # on_level h i T)" unfolding prev_def by (rule last_on_level)
  then show ?case using at_key_walk(1) [OF assms Suc.prems] Suc.IH Suc.prems(1) by simp
qed

text \<open>A node of the right key on any level is the first one from the key on.\<close>

lemma found_is_first:
  assumes "at_key key h head t m T D" "on_level h i D = q # qs" "\<not> t < key (dat h q)"
  shows "\<exists>ds. D = q # ds \<and> key (dat h q) = t"
proof -
  have q: "q \<in> set D" using assms(2) by (metis filter_is_subset list.set_intros(1) on_level_def subsetD)
  then obtain d ds where D: "D = d # ds" by (cases D) auto
  have "\<not> key (dat h q) < t" "\<not> key (dat h d) < t" using assms(1) q D by (auto simp: at_key_def)
  moreover have "q = d \<or> key (dat h d) < key (dat h q)" using assms(1) q D by (auto simp: at_key_def)
  ultimately show ?thesis using assms(3) D by auto
qed

lemma find_node_ok:
  assumes "at_key key h head t m T D"
  shows "i \<le> m \<Longrightarrow> p \<in> set (head # on_level h i T) \<Longrightarrow>
     find_node_from key h t i p = Some (case D of [] \<Rightarrow> None | d # _ \<Rightarrow> if key (dat h d) = t then Some d else None)"
proof (induction i arbitrary: p)
  case 0
  have all: "on_level h 0 D = D" using assms by (auto simp: at_key_def on_level_def)
  note w = at_key_walk [OF assms 0]
  show ?case
  proof (cases D)
    case (Cons d ds)
    have "d \<in> dom h" using assms Cons by (auto simp: at_key_def height_def split: option.splits)
    then obtain n where n: "h d = Some n" by auto
    have "\<not> key (dat h d) < t" using assms Cons by (auto simp: at_key_def)
    then show ?thesis using w n all Cons by (auto simp: dat_eq [where h = h, OF n])
  qed (use w all in simp)
next
  case (Suc i)
  note w = at_key_walk [OF assms Suc.prems]
  have "prev h head T (Suc i) \<in> set (head # on_level h i T)" unfolding prev_def by (rule last_on_level)
  then have ih: "find_node_from key h t i (prev h head T (Suc i))
      = Some (case D of [] \<Rightarrow> None | d # _ \<Rightarrow> if key (dat h d) = t then Some d else None)"
    using Suc.IH Suc.prems(1) by simp
  show ?case
  proof (cases "on_level h (Suc i) D")
    case (Cons q qs)
    then have "q \<in> dom h"
      by (metis (mono_tags, lifting) domIff filter_eq_Cons_iff height_def not_less_zero on_level_def option.simps(4))
    then obtain n where n: "h q = Some n" by auto
    show ?thesis
    proof (cases "t < key (dat h q)")
      case False
      then show ?thesis using found_is_first [OF assms Cons False] w n Cons by (auto simp: dat_eq [where h = h, OF n])
    qed (use w n Cons ih in \<open>simp add: dat_eq [where h = h, OF n]\<close>)
  qed (use w ih in simp)
qed

text \<open>The split of a list that keeps the invariant.\<close>

lemma sorted_wrt_dropWhile_ge:
  fixes f :: "'b \<Rightarrow> 'k::linorder"
  assumes "sorted_wrt (\<lambda>a b. f a < f b) xs" "a \<in> set (dropWhile (\<lambda>a. f a < t) xs)"
  shows "\<not> f a < t"
  using assms
proof (induction xs)
  case (Cons x xs)
  show ?case
  proof (cases "f x < t")
    case True
    have "sorted_wrt (\<lambda>a b. f a < f b) xs" using Cons.prems(1) by (simp only: sorted_wrt.simps)
    moreover have "a \<in> set (dropWhile (\<lambda>a. f a < t) xs)" using Cons.prems(2) True by (simp only: dropWhile.simps if_True)
    ultimately show ?thesis by (rule Cons.IH)
  next
    case False
    then have "a = x \<or> a \<in> set xs" using Cons.prems(2) by (simp only: dropWhile.simps if_False list.set insert_iff)
    then have "a = x \<or> f x < f a" using Cons.prems(1) by (auto simp only: sorted_wrt.simps)
    then show ?thesis using False by (metis less_trans)
  qed
next
  case Nil
  then show ?case by (simp only: dropWhile.simps list.set empty_iff)
qed

lemma inv_at_key:
  assumes "sl_inv key s xs"
  obtains T D where "xs = T @ D" "at_key key (sl_heap s) (m_pHead s) t (m_iMaxLevel s) T D"
    "T = takeWhile (\<lambda>a. key (dat (sl_heap s) a) < t) xs" "D = dropWhile (\<lambda>a. key (dat (sl_heap s) a) < t) xs"
proof -
  let ?T = "takeWhile (\<lambda>a. key (dat (sl_heap s) a) < t) xs"
  let ?D = "dropWhile (\<lambda>a. key (dat (sl_heap s) a) < t) xs"
  have xs: "xs = ?T @ ?D" by simp
  have "sorted_wrt (\<lambda>a b. key (dat (sl_heap s) a) < key (dat (sl_heap s) b)) (?T @ ?D)"
    using assms xs by (simp add: sl_inv_def)
  then have "sorted_wrt (\<lambda>a b. key (dat (sl_heap s) a) < key (dat (sl_heap s) b)) ?D"
    unfolding sorted_wrt_append by blast
  moreover have "\<forall>a \<in> set ?T. key (dat (sl_heap s) a) < t" by (meson set_takeWhileD)
  moreover have "\<forall>a \<in> set ?D. \<not> key (dat (sl_heap s) a) < t"
    using sorted_wrt_dropWhile_ge [of "\<lambda>a. key (dat (sl_heap s) a)" xs _ t] assms unfolding sl_inv_def by blast
  moreover have "chain (\<lambda>a. get_next (sl_heap s) a i) (m_pHead s) (on_level (sl_heap s) i ?T @ on_level (sl_heap s) i ?D)"
    if "i \<le> m_iMaxLevel s" for i
    using assms that xs unfolding sl_inv_def on_level_def filter_append [symmetric] by auto
  moreover have "\<forall>a \<in> set ?D. 0 < height (sl_heap s) a"
    using assms set_dropWhileD [of _ "\<lambda>a. key (dat (sl_heap s) a) < t" xs] by (auto simp: sl_inv_def)
  ultimately have "at_key key (sl_heap s) (m_pHead s) t (m_iMaxLevel s) ?T ?D"
    unfolding at_key_def by blast
  then show thesis using that xs by blast
qed

lemma inv_get_next:
  assumes "sl_inv key s xs" "a \<in> set (m_pHead s # xs)" "i < height (sl_heap s) a"
  shows "\<exists>q. get_next (sl_heap s) a i = Some q"
  using assms(3) get_next_None [of "sl_heap s" a i] by (cases "get_next (sl_heap s) a i") auto

text \<open>What \<open>get\<close> returns: the first element of the key.\<close>

lemma find_at_key:
  assumes "\<forall>a \<in> set T. f a < t" "\<forall>a \<in> set D. \<not> f a < t" "sorted_wrt (\<lambda>a b. f a < f b) D"
  shows "find (\<lambda>a. f a = (t :: 'k::linorder)) (T @ D) = (case D of [] \<Rightarrow> None | d # _ \<Rightarrow> if f d = t then Some d else None)"
proof -
  have "find (\<lambda>a. f a = t) T = None" using assms(1) by (auto simp: find_None_iff)
  moreover have "find (\<lambda>a. f a = t) ds = None" if "D = d # ds" for d ds
    using assms(2,3) that by (auto simp: find_None_iff)
  moreover have "find (\<lambda>a. f a = t) (T @ D) = find (\<lambda>a. f a = t) D" if "find (\<lambda>a. f a = t) T = None"
    using that by (induction T) (auto split: if_splits)
  ultimately show ?thesis by (cases D) auto
qed

lemma inv_find_node:
  assumes "sl_inv key s xs"
  shows "find_node key t s = Some (find (\<lambda>a. key (dat (sl_heap s) a) = t) xs)"
proof -
  obtain T D where TD: "xs = T @ D" "at_key key (sl_heap s) (m_pHead s) t (m_iMaxLevel s) T D"
    using inv_at_key [OF assms, of t] by blast
  have "m_iCurLevel s \<le> m_iMaxLevel s" using assms by (simp add: sl_inv_def)
  from find_node_ok [OF TD(2) this, of "m_pHead s"]
  have "find_node key t s = Some (case D of [] \<Rightarrow> None | d # _ \<Rightarrow> if key (dat (sl_heap s) d) = t then Some d else None)"
    by (simp add: find_node_def)
  also have "\<dots> = Some (find (\<lambda>a. key (dat (sl_heap s) a) = t) xs)"
    using find_at_key [of T "\<lambda>a. key (dat (sl_heap s) a)" t D] TD by (simp add: at_key_def)
  finally show ?thesis .
qed

definition sl_elems :: "'a skip_list \<Rightarrow> nat list \<Rightarrow> 'a list" where
  "sl_elems s xs = map (dat (sl_heap s)) xs"

lemma find_map: "find P (map f xs) = map_option f (find (P \<circ> f) xs)"
  by (induction xs) auto

lemma inv_dom: "sl_inv key s xs \<Longrightarrow> a \<in> set xs \<Longrightarrow> a \<in> dom (sl_heap s)"
  by (fastforce simp: sl_inv_def height_def split: option.splits)

lemma inv_get:
  assumes "sl_inv key s xs"
  shows "sl_get key u s = Some (find (\<lambda>d. key d = key u) (sl_elems s xs))"
proof -
  have "find (\<lambda>a. key (dat (sl_heap s) a) = key u) xs = Some a \<Longrightarrow> sl_heap s a \<noteq> None" for a
    using inv_dom [OF assms, of a] by (auto simp: find_Some_iff)
  then show ?thesis
    using inv_find_node [OF assms, of "key u"]
    by (auto simp: sl_get_def sl_elems_def find_map comp_def dat_def split: option.splits)
qed

section \<open>Insertion\<close>

lemma link_levels_ok:
  assumes "\<forall>k < length ps. i + k < height h (ps ! k) \<and> i + k < height h x" "x \<notin> set ps"
  shows "\<exists>h'. link_levels x ps i h = Some h' \<and> dom h' = dom h \<and> dat h' = dat h \<and> height h' = height h
    \<and> (\<forall>b j. get_next h' b j =
          (if i \<le> j \<and> j < i + length ps
           then (if b = x then get_next h (ps ! (j - i)) j else if b = ps ! (j - i) then Some (Some x) else get_next h b j)
           else get_next h b j))"
  using assms
proof (induction ps arbitrary: i h)
  case (Cons p ps)
  have hp: "i < height h p" "i < height h x" using Cons.prems(1) by (force dest: spec [of _ 0])+
  then obtain q where q: "get_next h p i = Some q" using get_next_None [of h p i] by (cases "get_next h p i") auto
  obtain h1 where h1: "set_next x i q h = Some h1" "dom h1 = dom h" "dat h1 = dat h" "height h1 = height h"
    "\<forall>b j. get_next h1 b j = (if b = x \<and> j = i then Some q else get_next h b j)"
    using set_next_Some [OF hp(2)] by blast
  obtain h2 where h2: "set_next p i (Some x) h1 = Some h2" "dom h2 = dom h1" "dat h2 = dat h1" "height h2 = height h1"
    "\<forall>b j. get_next h2 b j = (if b = p \<and> j = i then Some (Some x) else get_next h1 b j)"
    using set_next_Some [of i h1 p "Some x"] hp(1) h1(4) by auto
  have "\<forall>k < length ps. Suc i + k < height h2 (ps ! k) \<and> Suc i + k < height h2 x"
    using Cons.prems(1) h1(4) h2(4) by (auto dest: spec [of _ "Suc _"])
  then obtain h3 where h3: "link_levels x ps (Suc i) h2 = Some h3" "dom h3 = dom h2" "dat h3 = dat h2" "height h3 = height h2"
    "\<forall>b j. get_next h3 b j =
          (if Suc i \<le> j \<and> j < Suc i + length ps
           then (if b = x then get_next h2 (ps ! (j - Suc i)) j
                 else if b = ps ! (j - Suc i) then Some (Some x) else get_next h2 b j)
           else get_next h2 b j)"
    using Cons.IH [of "Suc i" h2] Cons.prems(2) by auto
  have "get_next h3 b j =
          (if i \<le> j \<and> j < i + length (p # ps)
           then (if b = x then get_next h ((p # ps) ! (j - i)) j
                 else if b = (p # ps) ! (j - i) then Some (Some x) else get_next h b j)
           else get_next h b j)" for b j
    using h1(5) h2(5) h3(5) q Cons.prems(2) by (cases "j = i") (auto simp: nth_Cons' Suc_diff_Suc)
  then show ?case using q h1 h2 h3 by auto
next
  case Nil
  then show ?case by (intro exI [of _ h]) auto
qed

lemma prev_height:
  assumes "i < height h head"
  shows "i < height h (prev h head T i)"
proof (cases "on_level h i T = []")
  case False
  then have "prev h head T i \<in> set (on_level h i T)" by (simp add: prev_def)
  then show ?thesis by (simp add: on_level_def)
qed (use assms in \<open>simp add: prev_def\<close>)

lemma prev_in: "prev h head T i \<in> set (head # T)"
  using last_in_set [of "on_level h i T"] by (auto simp: prev_def on_level_def)

lemma new_node_heap:
  "a \<noteq> x \<Longrightarrow> get_next (h(x \<mapsto> create_node lv t)) a j = get_next h a j"
  "height (h(x \<mapsto> create_node lv t)) a = (if a = x then Suc lv else height h a)"
  "dat (h(x \<mapsto> create_node lv t)) a = (if a = x then t else dat h a)"
  "dom (h(x \<mapsto> create_node lv t)) = insert x (dom h)"
  by (auto simp: get_next_def height_def dat_def create_node_def)

lemma on_level_cong: "(\<And>a. a \<in> set xs \<Longrightarrow> height h a = height h' a) \<Longrightarrow> on_level h i xs = on_level h' i xs"
  by (auto simp: on_level_def intro: filter_cong)

lemma on_level_append [simp]: "on_level h i (xs @ ys) = on_level h i xs @ on_level h i ys"
  by (simp add: on_level_def)

lemma on_level_Cons: "on_level h i (a # xs) = (if i < height h a then a # on_level h i xs else on_level h i xs)"
  by (simp add: on_level_def)

lemma set_on_level: "set (on_level h i xs) \<subseteq> set xs"
  by (auto simp: on_level_def)

lemma distinct_on_level: "distinct xs \<Longrightarrow> distinct (on_level h i xs)"
  by (simp add: on_level_def)

text \<open>A node \<open>x\<close> linked on the levels up to \<open>lv\<close> behind the nodes \<open>T\<close>.\<close>

lemma insert_chain:
  assumes "chain (\<lambda>a. get_next h a i) head (on_level h i T @ on_level h i D)" "distinct (head # T @ D)"
    and "x \<notin> set (head # T @ D)"
    and "\<And>b. get_next h' b i =
          (if i \<le> lv then (if b = x then get_next h (prev h head T i) i
                         else if b = prev h head T i then Some (Some x) else get_next h b i)
           else if b = x then get_next h' b i else get_next h b i)"
  shows "chain (\<lambda>a. get_next h' a i) head (on_level h i T @ (if i \<le> lv then [x] else []) @ on_level h i D)"
proof -
  have fresh: "x \<notin> set (head # on_level h i T @ on_level h i D)"
    using assms(3) set_on_level [of h i T] set_on_level [of h i D] by auto
  have dist: "distinct (head # on_level h i T @ on_level h i D)"
    using assms(2) distinct_on_level [of "T @ D" h i] set_on_level [of h i "T @ D"] by auto
  show ?thesis
  proof (cases "i \<le> lv")
    case True
    have "prev h head T i \<noteq> x" using fresh prev_in [of h head T i] assms(3) by auto
    then have "chain (\<lambda>a. get_next h' a i) head (on_level h i T @ x # on_level h i D)"
      unfolding prev_def using assms(4) [unfolded prev_def] True
      by (intro chain_insert [OF assms(1) fresh dist]) (simp_all del: last.simps)
    then show ?thesis using True by simp
  next
    case False
    have "get_next h' b i = get_next h b i" if "b \<noteq> x" for b using assms(4) [of b] False that by simp
    then have "chain (\<lambda>a. get_next h' a i) head (on_level h i T @ on_level h i D)
        = chain (\<lambda>a. get_next h a i) head (on_level h i T @ on_level h i D)"
      using fresh by (intro chain_cong) metis
    then show ?thesis using assms(1) False by simp
  qed
qed

lemma inv_sorted_insert:
  assumes inv: "sl_inv key s xs" and TD: "xs = T @ D" "\<forall>a \<in> set T. key (dat (sl_heap s) a) < key t"
    "\<forall>a \<in> set D. key t < key (dat (sl_heap s) a)" and x: "x \<notin> set (T @ D)"
    and dt: "\<And>a. dat h' a = (if a = x then t else dat (sl_heap s) a)"
  shows "sorted_wrt (\<lambda>a b. key (dat h' a) < key (dat h' b)) (T @ x # D)"
proof -
  let ?R = "\<lambda>a b. key (dat (sl_heap s) a) < key (dat (sl_heap s) b)"
  have old: "sorted_wrt ?R T" "sorted_wrt ?R D" "\<forall>a \<in> set T. \<forall>b \<in> set D. ?R a b"
    using inv TD(1) unfolding sl_inv_def by (simp_all add: sorted_wrt_append)
  have "sorted_wrt (\<lambda>a b. key (dat h' a) < key (dat h' b)) T"
    using x by (intro sorted_wrt_mono_rel [OF _ old(1)]) (auto simp: dt)
  moreover have "sorted_wrt (\<lambda>a b. key (dat h' a) < key (dat h' b)) D"
    using x by (intro sorted_wrt_mono_rel [OF _ old(2)]) (auto simp: dt)
  ultimately show ?thesis using old(3) TD(2,3) x by (auto simp: sorted_wrt_append dt)
qed

lemma insert_node:
  assumes inv: "sl_inv key s xs" and TD: "xs = T @ D" "\<forall>a \<in> set T. key (dat (sl_heap s) a) < key t"
    "\<forall>a \<in> set D. key t < key (dat (sl_heap s) a)" and lv: "lv \<le> m_iMaxLevel s"
  shows "\<exists>h'. link_levels (sl_fresh s) (map (prev (sl_heap s) (m_pHead s) T) [0..<Suc lv]) 0
        ((sl_heap s)(sl_fresh s \<mapsto> create_node lv t)) = Some h'
    \<and> sl_inv key (s\<lparr>sl_heap := h', m_iCurLevel := max (m_iCurLevel s) lv, sl_fresh := Suc (sl_fresh s)\<rparr>) (T @ sl_fresh s # D)
    \<and> map (dat h') (T @ sl_fresh s # D) = map (dat (sl_heap s)) T @ t # map (dat (sl_heap s)) D"
proof -
  let ?h = "sl_heap s" and ?x = "sl_fresh s" and ?hd = "m_pHead s"
  let ?h1 = "?h(?x \<mapsto> create_node lv t)" and ?ps = "map (prev ?h ?hd T) [0..<Suc lv]"
  have head: "?hd \<in> dom ?h" "height ?h ?hd = Suc (m_iMaxLevel s)"
    using inv by (auto simp: sl_inv_def height_def split: option.splits)
  have x: "?x \<notin> set (?hd # T @ D)" "?x \<notin> dom ?h"
    using inv inv_dom [OF inv] head(1) TD(1) unfolding sl_inv_def by fastforce+
  have ne: "prev ?h ?hd T k \<noteq> ?x" for k using prev_in [of ?h ?hd T k] x(1) by auto
  have "\<forall>k < length ?ps. 0 + k < height ?h1 (?ps ! k) \<and> 0 + k < height ?h1 ?x"
    using prev_height [of _ ?h ?hd T] lv head(2) ne by (simp del: upt_Suc fun_upd_apply add: new_node_heap)
  moreover have "?x \<notin> set ?ps" unfolding set_map using ne by (metis imageE)
  ultimately obtain h' where h': "link_levels ?x ?ps 0 ?h1 = Some h'" "dom h' = dom ?h1" "dat h' = dat ?h1" "height h' = height ?h1"
    "\<forall>b j. get_next h' b j =
          (if 0 \<le> j \<and> j < 0 + length ?ps
           then (if b = ?x then get_next ?h1 (?ps ! (j - 0)) j else if b = ?ps ! (j - 0) then Some (Some ?x) else get_next ?h1 b j)
           else get_next ?h1 b j)"
    using link_levels_ok [of ?ps 0 ?h1 ?x] by blast
  have nx: "get_next h' b i =
          (if i \<le> lv then (if b = ?x then get_next ?h (prev ?h ?hd T i) i
                         else if b = prev ?h ?hd T i then Some (Some ?x) else get_next ?h b i)
           else if b = ?x then get_next h' b i else get_next ?h b i)" for b i
    using h'(5) ne by (auto simp del: upt_Suc fun_upd_apply simp: new_node_heap)
  have dt: "dat h' a = (if a = ?x then t else dat ?h a)" "height h' a = (if a = ?x then Suc lv else height ?h a)" for a
    using h'(3,4) by (simp_all del: fun_upd_apply add: new_node_heap)
  have "on_level h' i T = on_level ?h i T" "on_level h' i D = on_level ?h i D" for i
    using x(1) by (auto intro!: on_level_cong simp: dt)
  then have ol: "on_level h' i (T @ ?x # D) = on_level ?h i T @ (if i \<le> lv then [?x] else []) @ on_level ?h i D" for i
    by (simp add: dt on_level_Cons less_Suc_eq_le)
  have ch: "chain (\<lambda>a. get_next h' a i) ?hd (on_level h' i (T @ ?x # D))" if "i \<le> m_iMaxLevel s" for i
    unfolding ol using inv that TD(1) x(1) by (intro insert_chain nx) (auto simp: sl_inv_def)
  have st: "sorted_wrt (\<lambda>a b. key (dat h' a) < key (dat h' b)) (T @ ?x # D)"
    using x(1) by (intro inv_sorted_insert [OF inv TD _ dt(1)]) simp
  have hb: "\<forall>a \<in> set T \<union> set D. height ?h a \<le> Suc (max (m_iCurLevel s) lv)"
    using inv TD(1) unfolding sl_inv_def by (metis Suc_le_mono le_trans max.cobounded1 set_append)
  have "sl_inv key (s\<lparr>sl_heap := h', m_iCurLevel := max (m_iCurLevel s) lv, sl_fresh := Suc ?x\<rparr>) (T @ ?x # D)"
    using inv x lv st ch TD(1) h'(2) hb unfolding sl_inv_def by (auto simp: dt less_Suc_eq)
  moreover have "map (dat h') (T @ ?x # D) = map (dat ?h) T @ t # map (dat ?h) D"
    using x(1) dt by auto
  ultimately show ?thesis using h'(1) by blast
qed

text \<open>The specification: a list of elements with increasing keys.\<close>

definition ins_key :: "('a \<Rightarrow> 'k::linorder) \<Rightarrow> 'a \<Rightarrow> 'a list \<Rightarrow> 'a list" where
  "ins_key key t es = takeWhile (\<lambda>d. key d < key t) es @ t # dropWhile (\<lambda>d. key d \<le> key t) es"

text \<open>The level of the new node is at most the current level, or it is below the maximal level and no node
  of the current level precedes the new one.\<close>

definition level_ok :: "('a \<Rightarrow> 'k::linorder) \<Rightarrow> nat \<Rightarrow> 'a \<Rightarrow> 'a skip_list \<Rightarrow> bool" where
  "level_ok key lv t s \<longleftrightarrow> m_iCurLevel s < m_iMaxLevel s \<and>
     (lv \<le> m_iCurLevel s
      \<or> lv < m_iMaxLevel s \<and> walk key (sl_heap s) (m_iCurLevel s) (key t) (m_pHead s) = Some (m_pHead s))"

lemma target_prev:
  assumes inv: "sl_inv key s xs" and TD: "xs = T @ D" "at_key key (sl_heap s) (m_pHead s) (key t) (m_iMaxLevel s) T D"
    and ok: "level_ok key lv t s"
  defines "P \<equiv> prev (sl_heap s) (m_pHead s) T"
  shows "find_previous_levels_nodes key (key t) s = Some (map P [0..<Suc (m_iCurLevel s)])"
    and "take (Suc lv) (if m_iCurLevel s < lv
           then (map P [0..<Suc (m_iCurLevel s)])[m_iCurLevel s := m_pHead s] @ replicate (lv - m_iCurLevel s) (m_pHead s)
           else map P [0..<Suc (m_iCurLevel s)]) = map P [0..<Suc lv]"
proof -
  let ?c = "m_iCurLevel s"
  have lim: "?c \<le> m_iMaxLevel s" using ok by (simp add: level_ok_def)
  show "find_previous_levels_nodes key (key t) s = Some (map P [0..<Suc ?c])"
    using find_previous_ok [OF TD(2) lim, of "m_pHead s"] ok
    by (simp add: find_previous_levels_nodes_def level_ok_def P_def)
  show "take (Suc lv) (if ?c < lv
           then (map P [0..<Suc ?c])[?c := m_pHead s] @ replicate (lv - ?c) (m_pHead s)
           else map P [0..<Suc ?c]) = map P [0..<Suc lv]"
  proof (cases "?c < lv")
    case True
    have "P ?c = m_pHead s"
      using at_key_walk(1) [OF TD(2) lim, of "m_pHead s"] True ok by (auto simp: level_ok_def P_def)
    moreover have "P k = m_pHead s" if "?c < k" for k
    proof -
      have "\<forall>a \<in> set T. height (sl_heap s) a \<le> Suc ?c" using inv TD(1) by (simp add: sl_inv_def)
      then have "on_level (sl_heap s) k T = []" using that by (fastforce simp: on_level_def filter_empty_conv)
      then show ?thesis by (simp add: P_def prev_def)
    qed
    ultimately have "(map P [0..<Suc ?c])[?c := m_pHead s] @ replicate (lv - ?c) (m_pHead s) = map P [0..<Suc lv]"
      using True by (intro nth_equalityI) (simp_all del: upt_Suc add: nth_append nth_list_update, auto)
    then show ?thesis using True by (simp del: upt_Suc)
  qed (simp add: take_map del: upt_Suc)
qed

text \<open>Writing the data of a node keeps the structure.\<close>

lemma update_node:
  assumes inv: "sl_inv key s xs" and n: "sl_heap s q = Some n" and k: "key (sn_data n) = key t"
  shows "sl_inv key (s\<lparr>sl_heap := (sl_heap s)(q \<mapsto> n\<lparr>sn_data := t\<rparr>)\<rparr>) xs"
    and "dat ((sl_heap s)(q \<mapsto> n\<lparr>sn_data := t\<rparr>)) a = (if a = q then t else dat (sl_heap s) a)"
proof -
  let ?h' = "(sl_heap s)(q \<mapsto> n\<lparr>sn_data := t\<rparr>)"
  have "get_next ?h' = get_next (sl_heap s)" "height ?h' = height (sl_heap s)"
    using n by (auto simp: fun_eq_iff get_next_def height_def)
  moreover have "key (dat ?h' a) = key (dat (sl_heap s) a)" for a
    using n k by (simp add: dat_def)
  moreover have "dom ?h' = dom (sl_heap s)" using n by auto
  ultimately show "sl_inv key (s\<lparr>sl_heap := ?h'\<rparr>) xs"
    using inv by (simp del: fun_upd_apply add: sl_inv_def on_level_def)
  show "dat ?h' a = (if a = q then t else dat (sl_heap s) a)" by (simp add: dat_def)
qed

lemma ins_key_split:
  assumes "\<forall>a \<in> set T. key (f a) < key t" "\<forall>a \<in> set D. \<not> key (f a) < key t" "sorted_wrt (\<lambda>a b. key (f a) < key (f b)) D"
  shows "ins_key key t (map f (T @ D)) = map f T @ t # (case D of [] \<Rightarrow> [] | d # ds \<Rightarrow> if key (f d) = key t then map f ds else map f D)"
proof -
  have tw: "takeWhile (\<lambda>e. key e < key t) (map f T @ map f D) = map f T"
    using assms(1,2) takeWhile_append2 [of "map f T" "\<lambda>e. key e < key t" "map f D"] by (cases D) auto
  have dw: "dropWhile (\<lambda>e. key e \<le> key t) (map f T @ map f D) = dropWhile (\<lambda>e. key e \<le> key t) (map f D)"
    using assms(1) by (intro dropWhile_append2) (auto intro: less_imp_le)
  have "dropWhile (\<lambda>e. key e \<le> key t) (map f ds) = map f ds" if "D = d # ds" "key (f d) = key t" for d ds
    using assms(3) that by (cases ds) auto
  then show ?thesis using assms(2) unfolding ins_key_def map_append tw dw by (cases D) auto
qed

lemma insert_refines:
  assumes inv: "sl_inv key s xs" and ok: "level_ok key lv t s"
  shows "\<exists>s' xs'. sl_insert key lv t s = Some s' \<and> sl_inv key s' xs' \<and> sl_elems s' xs' = ins_key key t (sl_elems s xs)
    \<and> m_iCurLevel s' < m_iMaxLevel s'"
proof -
  let ?h = "sl_heap s"
  obtain T D where TD: "xs = T @ D" "at_key key ?h (m_pHead s) (key t) (m_iMaxLevel s) T D"
    using inv_at_key [OF inv, of "key t"] by blast
  note tp = target_prev [OF inv TD ok]
  have ins: "ins_key key t (sl_elems s xs) = map (dat ?h) T @ t #
      (case D of [] \<Rightarrow> [] | d # ds \<Rightarrow> if key (dat ?h d) = key t then map (dat ?h) ds else map (dat ?h) D)"
    unfolding sl_elems_def TD(1) using TD(2) by (intro ins_key_split) (auto simp: at_key_def)
  have D0: "on_level ?h 0 D = D" using TD(2) by (auto simp: at_key_def on_level_def)
  have first: "get_next ?h (map (prev ?h (m_pHead s) T) [0..<Suc (m_iCurLevel s)] ! 0) 0
      = Some (case D of [] \<Rightarrow> None | d # _ \<Rightarrow> Some d)"
    using at_key_walk(2) [OF TD(2), of 0 "m_pHead s"] D0 by (simp del: upt_Suc)
  show ?thesis
  proof (cases "\<exists>d ds. D = d # ds \<and> key (dat ?h d) = key t")
    case True
    then obtain d ds where D: "D = d # ds" "key (dat ?h d) = key t" by blast
    then obtain n where n: "?h d = Some n" using inv_dom [OF inv, of d] TD(1) by auto
    have k: "key (sn_data n) = key t" using n D(2) by (simp add: dat_def)
    have "sl_insert key lv t s = Some (s\<lparr>sl_heap := ?h(d \<mapsto> n\<lparr>sn_data := t\<rparr>)\<rparr>)"
      using tp(1) first D n k by (simp del: upt_Suc add: sl_insert_def)
    moreover have "sl_elems (s\<lparr>sl_heap := ?h(d \<mapsto> n\<lparr>sn_data := t\<rparr>)\<rparr>) xs = ins_key key t (sl_elems s xs)"
    proof -
      have "d \<notin> set T" "d \<notin> set ds" using inv TD(1) D by (auto simp: sl_inv_def)
      then show ?thesis
        unfolding ins using D TD(1) by (auto simp del: fun_upd_apply simp: sl_elems_def update_node(2) [OF inv n k])
    qed
    ultimately show ?thesis using update_node(1) [OF inv n k] ok by (auto simp: level_ok_def)
  next
    case False
    have gt: "\<forall>a \<in> set D. key t < key (dat ?h a)"
      using TD(2) False by (cases D) (fastforce simp: at_key_def)+
    have new: "sl_insert key lv t s = insert_new lv t (map (prev ?h (m_pHead s) T) [0..<Suc (m_iCurLevel s)]) s"
    proof (cases D)
      case (Cons d ds)
      then obtain n where n: "?h d = Some n" using inv_dom [OF inv, of d] TD(1) by auto
      then have "key t < key (sn_data n)" using gt Cons by (simp add: dat_def)
      then show ?thesis using tp(1) first Cons n by (simp del: upt_Suc add: sl_insert_def)
    qed (use tp(1) first in \<open>simp del: upt_Suc add: sl_insert_def\<close>)
    have lv: "lv \<le> m_iMaxLevel s" "\<not> (m_iCurLevel s < lv \<and> m_iMaxLevel s \<le> lv)" using ok by (auto simp: level_ok_def)
    have lt: "\<forall>a \<in> set T. key (dat ?h a) < key t" using TD(2) by (auto simp: at_key_def)
    obtain h' where h': "link_levels (sl_fresh s) (map (prev ?h (m_pHead s) T) [0..<Suc lv]) 0
        (?h(sl_fresh s \<mapsto> create_node lv t)) = Some h'"
      "sl_inv key (s\<lparr>sl_heap := h', m_iCurLevel := max (m_iCurLevel s) lv, sl_fresh := Suc (sl_fresh s)\<rparr>) (T @ sl_fresh s # D)"
      "map (dat h') (T @ sl_fresh s # D) = map (dat ?h) T @ t # map (dat ?h) D"
      using insert_node [OF inv TD(1) lt gt lv(1)] by blast
    have "insert_new lv t (map (prev ?h (m_pHead s) T) [0..<Suc (m_iCurLevel s)]) s
        = Some (s\<lparr>sl_heap := h', m_iCurLevel := max (m_iCurLevel s) lv, sl_fresh := Suc (sl_fresh s)\<rparr>)"
      using lv(2) tp(2) h'(1) by (auto simp del: upt_Suc fun_upd_apply simp: insert_new_def Let_def max_def split: if_splits)
    moreover have "ins_key key t (sl_elems s xs) = map (dat ?h) T @ t # map (dat ?h) D"
      unfolding ins using False by (cases D) auto
    ultimately show ?thesis using new h'(2,3) ok by (auto simp: sl_elems_def level_ok_def)
  qed
qed

section \<open>Erasure\<close>

lemma unlink_levels_ok:
  assumes "\<forall>k < length ps. if i + k < height h q then get_next h (ps ! k) (i + k) = Some (Some q)
      else \<exists>y. get_next h (ps ! k) (i + k) = Some y \<and> y \<noteq> Some q"
    and "height h q \<le> i + length ps" "q \<notin> set ps"
  shows "\<exists>h'. unlink_levels q ps i h = Some h' \<and> dom h' = dom h \<and> dat h' = dat h \<and> height h' = height h
    \<and> (\<forall>b j. get_next h' b j =
          (if i \<le> j \<and> j < height h q \<and> b = ps ! (j - i) then get_next h q j else get_next h b j))"
  using assms
proof (induction ps arbitrary: i h)
  case Nil
  then show ?case by (intro exI [of _ h]) auto
next
  case (Cons p ps)
  show ?case
  proof (cases "i < height h q")
    case False
    then obtain y where "get_next h p i = Some y" "y \<noteq> Some q" using spec [OF Cons.prems(1), of 0] by auto
    then show ?thesis using False by (intro exI [of _ h]) auto
  next
    case True
    then have p: "get_next h p i = Some (Some q)" using spec [OF Cons.prems(1), of 0] by auto
    have ip: "i < height h p" using p get_next_None [of h p i] by (cases "i < height h p") auto
    obtain y where y: "get_next h q i = Some y" using True get_next_None [of h q i] by (cases "get_next h q i") auto
    obtain h1 where h1: "set_next p i y h = Some h1" "dom h1 = dom h" "dat h1 = dat h" "height h1 = height h"
      "\<forall>b j. get_next h1 b j = (if b = p \<and> j = i then Some y else get_next h b j)"
      using set_next_Some [OF ip] by blast
    have side: "height h1 q \<le> Suc i + length ps" "q \<notin> set ps" using Cons.prems(2,3) h1(4) by auto
    have "\<forall>k < length ps. if Suc i + k < height h1 q then get_next h1 (ps ! k) (Suc i + k) = Some (Some q)
      else \<exists>y. get_next h1 (ps ! k) (Suc i + k) = Some y \<and> y \<noteq> Some q"
    proof (intro allI impI)
      fix k assume "k < length ps"
      then show "if Suc i + k < height h1 q then get_next h1 (ps ! k) (Suc i + k) = Some (Some q)
          else \<exists>y. get_next h1 (ps ! k) (Suc i + k) = Some y \<and> y \<noteq> Some q"
        using spec [OF Cons.prems(1), of "Suc k"] h1(4,5) by (auto split: if_splits)
    qed
    then obtain h2 where h2: "unlink_levels q ps (Suc i) h1 = Some h2" "dom h2 = dom h1" "dat h2 = dat h1" "height h2 = height h1"
      "\<forall>b j. get_next h2 b j =
          (if Suc i \<le> j \<and> j < height h1 q \<and> b = ps ! (j - Suc i) then get_next h1 q j else get_next h1 b j)"
      using Cons.IH [OF _ side] by blast
    have "get_next h2 b j =
          (if i \<le> j \<and> j < height h q \<and> b = (p # ps) ! (j - i) then get_next h q j else get_next h b j)" for b j
      using h1(4,5) h2(5) y True Cons.prems(3) by (cases "j = i") (auto simp: nth_Cons' Suc_diff_Suc)
    then show ?thesis using p y h1 h2 by auto
  qed
qed

lemma remove_chain:
  assumes "chain (\<lambda>a. get_next h a i) head (on_level h i (T @ q # ds))" "distinct (head # T @ q # ds)"
    and "\<And>b. b \<noteq> q \<Longrightarrow> get_next h' b i = (if i < height h q \<and> b = prev h head T i then get_next h q i else get_next h b i)"
  shows "chain (\<lambda>a. get_next h' a i) head (on_level h i (T @ ds))"
proof -
  have ne: "prev h head T i \<noteq> q" using prev_in [of h head T i] assms(2) by auto
  show ?thesis
  proof (cases "i < height h q")
    case True
    have "distinct (head # on_level h i T @ q # on_level h i ds)"
      using assms(2) distinct_on_level [of T h i] distinct_on_level [of ds h i] set_on_level [of h i T] set_on_level [of h i ds]
      by auto
    moreover have "chain (\<lambda>a. get_next h a i) head (on_level h i T @ q # on_level h i ds)"
      using assms(1) True by (simp add: on_level_Cons)
    moreover have "get_next h' (last (head # on_level h i T)) i = get_next h q i"
      using assms(3) [OF ne] True by (simp add: prev_def)
    moreover have "get_next h' b i = get_next h b i" if "b \<noteq> q" "b \<noteq> last (head # on_level h i T)" for b
      using assms(3) [OF that(1)] that(2) by (simp add: prev_def)
    ultimately have "chain (\<lambda>a. get_next h' a i) head (on_level h i T @ on_level h i ds)"
      using chain_remove [of "\<lambda>a. get_next h a i" head "on_level h i T" q "on_level h i ds" "\<lambda>a. get_next h' a i"] by blast
    then show ?thesis by simp
  next
    case False
    have "get_next h' b i = get_next h b i" if "b \<noteq> q" for b using assms(3) [OF that] False by simp
    moreover have "q \<notin> set (head # on_level h i (T @ ds))" using assms(2) set_on_level [of h i "T @ ds"] by auto
    ultimately have "chain (\<lambda>a. get_next h' a i) head (on_level h i (T @ ds)) = chain (\<lambda>a. get_next h a i) head (on_level h i (T @ ds))"
      by (intro chain_cong) metis
    then show ?thesis using assms(1) False by (simp add: on_level_Cons)
  qed
qed

lemma drop_levels_keep:
  assumes "\<forall>j \<le> i. get_next h head j = Some (case on_level h j xs of [] \<Rightarrow> None | a # _ \<Rightarrow> Some a)" "on_level h i xs \<noteq> []"
  shows "drop_levels h head i c = Some c"
  using assms
proof (induction i)
  case (Suc i)
  have "on_level h i xs \<noteq> []" using Suc.prems(2) by (force simp: on_level_def filter_empty_conv)
  then show ?case using Suc by (auto split: list.splits)
qed simp

lemma drop_levels_ok:
  assumes "\<forall>j \<le> i. get_next h head j = Some (case on_level h j xs of [] \<Rightarrow> None | a # _ \<Rightarrow> Some a)"
    and "\<forall>a \<in> set xs. height h a \<le> Suc i"
  shows "\<exists>c \<le> i. drop_levels h head i i = Some c \<and> (\<forall>a \<in> set xs. height h a \<le> Suc c)"
  using assms
proof (induction i)
  case (Suc i)
  show ?case
  proof (cases "on_level h (Suc i) xs = []")
    case True
    then have "\<forall>a \<in> set xs. height h a \<le> Suc i" by (auto simp: on_level_def filter_empty_conv not_less)
    then obtain c where "c \<le> i" "drop_levels h head i i = Some c" "\<forall>a \<in> set xs. height h a \<le> Suc c"
      using Suc.IH Suc.prems(1) by auto
    then show ?thesis using True Suc.prems(1) by (intro exI [of _ c]) auto
  next
    case False
    then show ?thesis using drop_levels_keep [OF Suc.prems(1) False, of "Suc i"] Suc.prems(2) by auto
  qed
qed simp

lemma unlink_node:
  assumes inv: "sl_inv key s xs" and xs: "xs = T @ q # ds"
    and ak: "at_key key (sl_heap s) (m_pHead s) t (m_iMaxLevel s) T (q # ds)"
  shows "\<exists>h c. unlink_levels q (map (prev (sl_heap s) (m_pHead s) T) [0..<Suc (m_iCurLevel s)]) 0 (sl_heap s) = Some h
    \<and> drop_levels (h(q := None)) (m_pHead s) (m_iCurLevel s) (m_iCurLevel s) = Some c
    \<and> sl_inv key (s\<lparr>sl_heap := h(q := None), m_iCurLevel := c\<rparr>) (T @ ds)
    \<and> c \<le> m_iCurLevel s \<and> map (dat (h(q := None))) (T @ ds) = map (dat (sl_heap s)) (T @ ds)"
proof -
  let ?h = "sl_heap s" and ?c = "m_iCurLevel s" and ?hd = "m_pHead s"
  let ?ps = "map (prev ?h ?hd T) [0..<Suc ?c]"
  have lim: "?c \<le> m_iMaxLevel s" "height ?h q \<le> Suc ?c" "distinct (?hd # T @ q # ds)"
    using inv xs by (auto simp: sl_inv_def)
  have ne: "prev ?h ?hd T k \<noteq> q" for k using prev_in [of ?h ?hd T k] lim(3) by auto
  have "if 0 + k < height ?h q then get_next ?h (?ps ! k) (0 + k) = Some (Some q)
      else \<exists>y. get_next ?h (?ps ! k) (0 + k) = Some y \<and> y \<noteq> Some q" if "k < length ?ps" for k
  proof -
    have "get_next ?h (prev ?h ?hd T k) k = Some (case on_level ?h k (q # ds) of [] \<Rightarrow> None | d # _ \<Rightarrow> Some d)"
      using at_key_walk(2) [OF ak, of k ?hd] that lim(1) by simp
    moreover have "q \<notin> set (on_level ?h k ds)" using lim(3) set_on_level [of ?h k ds] by auto
    ultimately show ?thesis using that by (auto simp del: upt_Suc simp: on_level_Cons split: list.splits)
  qed
  then obtain h where h: "unlink_levels q ?ps 0 ?h = Some h" "dom h = dom ?h" "dat h = dat ?h" "height h = height ?h"
    "\<forall>b j. get_next h b j = (if 0 \<le> j \<and> j < height ?h q \<and> b = ?ps ! (j - 0) then get_next ?h q j else get_next ?h b j)"
    using unlink_levels_ok [of ?ps 0 ?h q] lim(2) ne by fastforce
  let ?h' = "h(q := None)"
  have h': "height ?h' a = height ?h a" "dat ?h' a = dat ?h a" "get_next ?h' a j = get_next h a j" if "a \<noteq> q" for a j
    using that h(3,4) by (simp_all add: height_def dat_def get_next_def fun_eq_iff)
  have nx: "get_next ?h' b i = (if i < height ?h q \<and> b = prev ?h ?hd T i then get_next ?h q i else get_next ?h b i)"
    if "b \<noteq> q" for b i
    using h(5) h'(3) [OF that] lim(2) by (auto simp del: upt_Suc fun_upd_apply)
  have ol: "on_level ?h' i (T @ ds) = on_level ?h i (T @ ds)" for i
    using lim(3) by (intro on_level_cong h'(1)) auto
  have ch: "chain (\<lambda>a. get_next ?h' a i) ?hd (on_level ?h' i (T @ ds))" if "i \<le> m_iMaxLevel s" for i
    unfolding ol using inv that xs lim(3) nx by (intro remove_chain [of ?h i ?hd T q ds]) (auto simp: sl_inv_def)
  have "get_next ?h' ?hd j = Some (case on_level ?h' j (T @ ds) of [] \<Rightarrow> None | a # _ \<Rightarrow> Some a)" if "j \<le> ?c" for j
    using chain_append [of "\<lambda>a. get_next ?h' a j" ?hd "[]"] ch [of j] that lim(1) by simp
  moreover have hb: "\<forall>a \<in> set (T @ ds). height ?h' a = height ?h a" using lim(3) by (intro ballI h'(1)) auto
  moreover have "\<forall>a \<in> set (T @ ds). height ?h a \<le> Suc ?c \<and> 0 < height ?h a" using inv xs by (simp add: sl_inv_def)
  ultimately obtain c where c: "c \<le> ?c" "drop_levels ?h' ?hd ?c ?c = Some c" "\<forall>a \<in> set (T @ ds). height ?h' a \<le> Suc c"
    using drop_levels_ok [of ?c ?h' ?hd "T @ ds"] by (auto simp del: fun_upd_apply)
  have dt: "\<forall>a \<in> set (T @ ds). dat ?h' a = dat ?h a" using lim(3) by (intro ballI h'(2)) auto
  have old: "sorted_wrt (\<lambda>a b. key (dat ?h a) < key (dat ?h b)) (T @ ds)"
    using inv xs by (simp add: sl_inv_def sorted_wrt_append)
  have "sorted_wrt (\<lambda>a b. key (dat ?h' a) < key (dat ?h' b)) (T @ ds)"
  proof (rule sorted_wrt_mono_rel [OF _ old])
    fix a b
    assume ab: "a \<in> set (T @ ds)" "b \<in> set (T @ ds)" "key (dat ?h a) < key (dat ?h b)"
    show "key (dat ?h' a) < key (dat ?h' b)"
      unfolding bspec [OF dt ab(1)] bspec [OF dt ab(2)] by (rule ab(3))
  qed
  moreover have "height ?h' ?hd = Suc (m_iMaxLevel s)" using h'(1) [of ?hd] lim(3) inv by (auto simp: sl_inv_def)
  moreover have "\<forall>a \<in> dom ?h'. a < sl_fresh s" using h(2) inv by (auto simp: sl_inv_def)
  moreover have "\<forall>a \<in> set (T @ ds). 0 < height ?h' a" using hb inv xs by (simp add: sl_inv_def)
  moreover have "distinct (?hd # T @ ds)" "c \<le> m_iMaxLevel s" using lim c(1) by auto
  ultimately have "sl_inv key (s\<lparr>sl_heap := ?h', m_iCurLevel := c\<rparr>) (T @ ds)"
    using c(3) ch unfolding sl_inv_def by (simp del: fun_upd_apply distinct.simps set_append)
  then show ?thesis using h(1) c(1,2) dt by (auto simp del: fun_upd_apply)
qed

lemma erase_refines:
  assumes inv: "sl_inv key s xs" and ok: "m_iCurLevel s < m_iMaxLevel s"
  shows "\<exists>s' xs'. sl_erase key t s = Some (\<exists>d \<in> set (sl_elems s xs). key d = key t, s') \<and> sl_inv key s' xs'
    \<and> sl_elems s' xs' = filter (\<lambda>d. key d \<noteq> key t) (sl_elems s xs)
    \<and> m_iCurLevel s' \<le> m_iCurLevel s \<and> m_iMaxLevel s' = m_iMaxLevel s"
proof -
  let ?h = "sl_heap s"
  obtain T D where TD: "xs = T @ D" "at_key key ?h (m_pHead s) (key t) (m_iMaxLevel s) T D"
    using inv_at_key [OF inv, of "key t"] by blast
  have "level_ok key 0 t s" using ok by (simp add: level_ok_def)
  note tp = target_prev(1) [OF inv TD this]
  have D0: "on_level ?h 0 D = D" using TD(2) by (auto simp: at_key_def on_level_def)
  have first: "get_next ?h (map (prev ?h (m_pHead s) T) [0..<Suc (m_iCurLevel s)] ! 0) 0
      = Some (case D of [] \<Rightarrow> None | d # _ \<Rightarrow> Some d)"
    using at_key_walk(2) [OF TD(2), of 0 "m_pHead s"] D0 by (simp del: upt_Suc)
  have lt: "\<forall>a \<in> set T. key (dat ?h a) \<noteq> key t" using TD(2) by (auto simp: at_key_def)
  show ?thesis
  proof (cases "\<exists>d ds. D = d # ds \<and> key (dat ?h d) = key t")
    case True
    then obtain d ds where D: "D = d # ds" "key (dat ?h d) = key t" by blast
    then obtain n where n: "?h d = Some n" using inv_dom [OF inv, of d] TD(1) by auto
    have k: "key (sn_data n) = key t" using n D(2) by (simp add: dat_def)
    have xs: "xs = T @ d # ds" using TD(1) D(1) by simp
    have gt: "\<forall>a \<in> set ds. key (dat ?h a) \<noteq> key t" using TD(2) D by (auto simp: at_key_def)
    obtain h c where h: "unlink_levels d (map (prev ?h (m_pHead s) T) [0..<Suc (m_iCurLevel s)]) 0 ?h = Some h"
      "drop_levels (h(d := None)) (m_pHead s) (m_iCurLevel s) (m_iCurLevel s) = Some c"
      "sl_inv key (s\<lparr>sl_heap := h(d := None), m_iCurLevel := c\<rparr>) (T @ ds)" "c \<le> m_iCurLevel s"
      "map (dat (h(d := None))) (T @ ds) = map (dat ?h) (T @ ds)"
      using unlink_node [OF inv xs TD(2) [unfolded D(1)]] by blast
    have "sl_erase key t s = Some (True, s\<lparr>sl_heap := h(d := None), m_iCurLevel := c\<rparr>)"
      using tp first D n k h(1,2) by (simp del: upt_Suc fun_upd_apply add: sl_erase_def Let_def)
    moreover have "filter (\<lambda>e. key e \<noteq> key t) (sl_elems s xs) = map (dat ?h) (T @ ds)"
      using lt gt D(2) xs by (simp add: sl_elems_def filter_id_conv)
    moreover have "\<exists>e \<in> set (sl_elems s xs). key e = key t" using D(2) xs by (auto simp: sl_elems_def)
    ultimately show ?thesis using h(3,4,5) unfolding sl_elems_def by (auto simp del: fun_upd_apply map_append)
  next
    case False
    have gt: "\<forall>a \<in> set D. key t < key (dat ?h a)"
      using TD(2) False by (cases D) (fastforce simp: at_key_def)+
    then have none: "\<forall>e \<in> set (sl_elems s xs). key e \<noteq> key t" using lt TD(1) by (auto simp: sl_elems_def)
    have "sl_erase key t s = Some (False, s)"
    proof (cases D)
      case (Cons d ds)
      then obtain n where n: "?h d = Some n" using inv_dom [OF inv, of d] TD(1) by auto
      then have "key t < key (sn_data n)" using gt Cons by (simp add: dat_def)
      then show ?thesis using tp first Cons n by (simp del: upt_Suc add: sl_erase_def)
    qed (use tp first in \<open>simp del: upt_Suc add: sl_erase_def\<close>)
    moreover have "filter (\<lambda>d. key d \<noteq> key t) (sl_elems s xs) = sl_elems s xs" using none by (simp add: filter_id_conv)
    ultimately show ?thesis using inv none by auto
  qed
qed

section \<open>Iteration\<close>

text \<open>The iterator after \<open>k\<close> increments, from \<open>begin\<close>.\<close>

primrec iter_at :: "'a skip_list \<Rightarrow> nat \<Rightarrow> nat option option" where
  "iter_at s 0 = sl_begin s"
| "iter_at s (Suc k) = Option.bind (iter_at s k) (iter_next (sl_heap s))"

lemma chain_nth:
  "chain nx a bs \<Longrightarrow> k \<le> length bs \<Longrightarrow> nx ((a # bs) ! k) = Some (if k < length bs then Some (bs ! k) else None)"
proof (induction bs arbitrary: a k)
  case (Cons b bs)
  then show ?case by (cases k) auto
qed simp

lemma inv_iterates:
  assumes inv: "sl_inv key s xs"
  shows "iter_at s k = Some (if k < length xs then Some (xs ! k) else None)"
proof (induction k)
  case 0
  have "on_level (sl_heap s) 0 xs = xs" using inv by (auto simp: sl_inv_def on_level_def)
  then have ch: "chain (\<lambda>a. get_next (sl_heap s) a 0) (m_pHead s) xs" using inv unfolding sl_inv_def by force
  show ?case using chain_nth [OF ch, of 0] by (simp add: sl_begin_def)
next
  case (Suc k)
  have "on_level (sl_heap s) 0 xs = xs" using inv by (auto simp: sl_inv_def on_level_def)
  then have ch: "chain (\<lambda>a. get_next (sl_heap s) a 0) (m_pHead s) xs" using inv unfolding sl_inv_def by force
  show ?case using chain_nth [OF ch, of "Suc k"] Suc by (auto simp: iter_next_def)
qed

section \<open>The contract of a keyed store\<close>

lemma find_ins_key:
  assumes "sorted_wrt (\<lambda>a b. key a < key b) es"
  shows "find (\<lambda>d. key d = k) (ins_key key t es) = (if k = key t then Some t else find (\<lambda>d. key d = k) es)"
  using assms
proof (induction es)
  case (Cons e es)
  have "ins_key key t (e # es) = (if key e < key t then e # ins_key key t es
      else if key e = key t then t # es else t # e # es)"
  proof -
    have "dropWhile (\<lambda>d. key d \<le> key t) es = es" if "key e = key t"
      using Cons.prems that by (cases es) auto
    then show ?thesis by (auto simp: ins_key_def)
  qed
  then show ?case using Cons by auto
qed (simp add: ins_key_def)

lemma find_filter_key: "find (\<lambda>d. key d = k) (filter (\<lambda>d. key d \<noteq> l) es) = (if k = l then None else find (\<lambda>d. key d = k) es)"
  by (induction es) auto

locale keyed_store =
  fixes key :: "'a \<Rightarrow> 'k::linorder"
    and abs :: "'s \<Rightarrow> 'a list \<Rightarrow> bool"
    and get :: "'a \<Rightarrow> 's \<Rightarrow> 'a option option"
    and ok :: "'i \<Rightarrow> 'a \<Rightarrow> 's \<Rightarrow> bool"
    and put :: "'i \<Rightarrow> 'a \<Rightarrow> 's \<Rightarrow> 's option"
    and del :: "'a \<Rightarrow> 's \<Rightarrow> (bool \<times> 's) option"
  assumes abs_sorted: "abs s es \<Longrightarrow> sorted_wrt (\<lambda>a b. key a < key b) es"
    and get_abs: "abs s es \<Longrightarrow> get u s = Some (find (\<lambda>d. key d = key u) es)"
    and put_abs: "abs s es \<Longrightarrow> ok i t s \<Longrightarrow> \<exists>s'. put i t s = Some s' \<and> abs s' (ins_key key t es)"
    and del_abs: "abs s es \<Longrightarrow>
      \<exists>s'. del t s = Some (\<exists>d \<in> set es. key d = key t, s') \<and> abs s' (filter (\<lambda>d. key d \<noteq> key t) es)"
begin

lemma get_put:
  assumes "abs s es" "ok i t s"
  shows "\<exists>s'. put i t s = Some s' \<and> abs s' (ins_key key t es)
    \<and> (\<forall>u. get u s' = (if key u = key t then Some (Some t) else get u s))"
proof -
  obtain s' where s': "put i t s = Some s'" "abs s' (ins_key key t es)" using put_abs [OF assms] by blast
  have "get u s' = (if key u = key t then Some (Some t) else get u s)" for u
    using get_abs [OF s'(2)] get_abs [OF assms(1)] find_ins_key [OF abs_sorted [OF assms(1)]] by simp
  then show ?thesis using s' by blast
qed

lemma get_del:
  assumes "abs s es"
  shows "\<exists>s'. del t s = Some (get t s \<noteq> Some None, s') \<and> abs s' (filter (\<lambda>d. key d \<noteq> key t) es)
    \<and> (\<forall>u. get u s' = (if key u = key t then Some None else get u s))"
proof -
  obtain s' where s': "del t s = Some (\<exists>d \<in> set es. key d = key t, s')" "abs s' (filter (\<lambda>d. key d \<noteq> key t) es)"
    using del_abs [OF assms] by blast
  have "get u s' = (if key u = key t then Some None else get u s)" for u
    using get_abs [OF s'(2)] get_abs [OF assms] find_filter_key [of key "key u" "key t" es] by simp
  moreover have "(\<exists>d \<in> set es. key d = key t) = (get t s \<noteq> Some None)"
    using get_abs [OF assms] by (auto simp: find_None_iff)
  ultimately show ?thesis using s' by auto
qed

end

definition sl_abs :: "('a \<Rightarrow> 'k::linorder) \<Rightarrow> 'a skip_list \<Rightarrow> 'a list \<Rightarrow> bool" where
  "sl_abs key s es \<longleftrightarrow> m_iCurLevel s < m_iMaxLevel s \<and> (\<exists>xs. sl_inv key s xs \<and> es = sl_elems s xs)"

interpretation sl: keyed_store key "sl_abs key" "sl_get key" "level_ok key" "sl_insert key" "sl_erase key"
  for key :: "'a \<Rightarrow> 'k::linorder"
proof unfold_locales
  fix s :: "'a skip_list" and es
  assume abs: "sl_abs key s es"
  then obtain xs where xs: "sl_inv key s xs" "es = sl_elems s xs" "m_iCurLevel s < m_iMaxLevel s" by (auto simp: sl_abs_def)
  show "sorted_wrt (\<lambda>a b. key a < key b) es" using xs by (simp add: sl_inv_def sl_elems_def sorted_wrt_map)
  show "sl_get key u s = Some (find (\<lambda>d. key d = key u) es)" for u using inv_get [OF xs(1)] xs(2) by simp
  show "\<exists>s'. sl_erase key t s = Some (\<exists>d \<in> set es. key d = key t, s') \<and> sl_abs key s' (filter (\<lambda>d. key d \<noteq> key t) es)" for t
    using erase_refines [OF xs(1,3), of t] xs(2,3) unfolding sl_abs_def by fastforce
  show "\<exists>s'. sl_insert key lv t s = Some s' \<and> sl_abs key s' (ins_key key t es)" if "level_ok key lv t s" for lv t
    using insert_refines [OF xs(1) that] xs(2) unfolding sl_abs_def by fastforce
qed

lemma new_skip_list_abs:
  assumes "sl_init d n = Some s"
  shows "sl_abs key s []"
proof -
  have "0 < m_iMaxLevel s" using assms by (cases "n = 0") (auto simp: sl_init_def SKIPLIST_MAX_LEVEL_def SKIPLIST_MIN_LEVEL_def Let_def split: if_splits)
  moreover have "sl_inv key s []" using assms
    by (auto simp: sl_init_def sl_inv_def Let_def on_level_def height_def create_node_def get_next_def simp del: replicate.simps split: if_splits)
  ultimately show ?thesis using assms by (auto simp: sl_abs_def sl_elems_def sl_init_def Let_def intro!: exI [of _ "[]"] split: if_splits)
qed

section \<open>Properties\<close>

text \<open>A skip list of numbers with the elements 5 at level 0 and 3 at level 1.\<close>

definition three_five :: "nat skip_list option" where
  "three_five = Option.bind (new_skip_list0 0) (\<lambda>s. Option.bind (sl_insert (\<lambda>n. n) 0 5 s) (sl_insert (\<lambda>n. n) 1 3))"

lemma three_five_abs: "\<exists>s. three_five = Some s \<and> sl_abs (\<lambda>n. n) s [3, 5] \<and> level_ok (\<lambda>n. n) 1 4 s"
proof -
  obtain s0 where s0: "new_skip_list0 (0 :: nat) = Some s0"
    by (simp add: new_skip_list0_def sl_init_def SKIPLIST_MAX_LEVEL_def SKIPLIST_DEFAULT_LEVEL_def)
  have l0: "map_option (level_ok (\<lambda>n. n) 0 5) (new_skip_list0 (0 :: nat)) = Some True" by code_simp
  have l1: "map_option (level_ok (\<lambda>n. n) 1 3) (Option.bind (new_skip_list0 (0 :: nat)) (sl_insert (\<lambda>n. n) 0 5)) = Some True"
    by code_simp
  have l2: "map_option (level_ok (\<lambda>n. n) 1 4) three_five = Some True" by code_simp
  have "sl_abs (\<lambda>n. n) s0 []" using s0 unfolding new_skip_list0_def by (rule new_skip_list_abs)
  then obtain s1 where s1: "sl_insert (\<lambda>n. n) 0 5 s0 = Some s1" "sl_abs (\<lambda>n. n) s1 (ins_key (\<lambda>n. n) 5 [])"
    using sl.put_abs [of "\<lambda>n. n" s0 "[]" 0 5] l0 s0 by auto
  then obtain s2 where "sl_insert (\<lambda>n. n) 1 3 s1 = Some s2" "sl_abs (\<lambda>n. n) s2 (ins_key (\<lambda>n. n) 3 (ins_key (\<lambda>n. n) 5 []))"
    using sl.put_abs [of "\<lambda>n. n" s1 _ 1 3] l1 s0 by auto
  then show ?thesis using s0 s1(1) l2 by (simp add: three_five_def ins_key_def)
qed

text \<open>C39. A skip list with at least one spare level holds a list of elements with increasing keys: \<open>get\<close> returns
  the element of the key, \<open>insert\<close> ends and afterwards \<open>get\<close> returns the new element for its key and what it
  returned before for every other one, provided that the level of the new node does not rise above nodes that precede
  it, \<open>erase\<close> removes exactly the element of the key and tells whether there was one, and the iterator visits
  the elements in order.\<close>

theorem skip_list_refines:
  assumes "sl_abs key s es"
  shows "sl_get key u s = Some (find (\<lambda>d. key d = key u) es)
    \<and> sorted_wrt (\<lambda>a b. key a < key b) es
    \<and> (level_ok key lv t s \<longrightarrow> (\<exists>s'. sl_insert key lv t s = Some s' \<and> sl_abs key s' (ins_key key t es)
      \<and> (\<forall>u. sl_get key u s' = (if key u = key t then Some (Some t) else sl_get key u s))))
    \<and> (\<exists>s'. sl_erase key t s = Some (sl_get key t s \<noteq> Some None, s') \<and> sl_abs key s' (filter (\<lambda>d. key d \<noteq> key t) es)
      \<and> (\<forall>u. sl_get key u s' = (if key u = key t then Some None else sl_get key u s)))
    \<and> map_option (iter_data (sl_heap s)) (iter_at s k) = Some (if k < length es then Some (es ! k) else None)"
proof (intro conjI impI)
  obtain xs where "sl_inv key s xs" "es = sl_elems s xs" using assms by (auto simp: sl_abs_def)
  then show "map_option (iter_data (sl_heap s)) (iter_at s k) = Some (if k < length es then Some (es ! k) else None)"
    using inv_dom [of key s xs "xs ! k"] inv_iterates [of key s xs k] by (auto simp: sl_elems_def iter_data_def dat_def)
qed (fact sl.get_abs [OF assms] sl.abs_sorted [OF assms] sl.get_put [OF assms] sl.get_del [OF assms])+

theorem skip_list_refines_witness:
  "\<exists>s s'. three_five = Some s \<and> sl_abs (\<lambda>n. n) s [3, 5] \<and> level_ok (\<lambda>n. n) 1 4 s
     \<and> sl_insert (\<lambda>n. n) 1 4 s = Some s' \<and> sl_abs (\<lambda>n. n) s' [3, 4, 5] \<and> sl_get (\<lambda>n. n) 3 s' = Some (Some 3)"
proof -
  obtain s where s: "three_five = Some s" "sl_abs (\<lambda>n. n) s [3, 5]" "level_ok (\<lambda>n. n) 1 4 s"
    using three_five_abs by blast
  have "ins_key (\<lambda>n. n) 4 [3, 5] = [3, 4, 5 :: nat]" by (simp add: ins_key_def)
  then show ?thesis using skip_list_refines [OF s(2), of 3 1 4 0] s by auto
qed

text \<open>A node that rises above a smaller one hides it: with the level of the second node 1, 1 is lost behind 2.\<close>

theorem rising_insert_loses:
  "Option.bind (new_skip_list0 (0 :: nat)) (\<lambda>s. Option.bind (sl_insert (\<lambda>n. n) 0 1 s) (\<lambda>s. Option.bind (sl_insert (\<lambda>n. n) 1 2 s)
     (sl_get (\<lambda>n. n) 1))) = Some None"
  by code_simp

text \<open>A level equal to the maximal one is written behind \<open>targetPrev\<close>.\<close>

theorem maximal_level_overflows:
  "Option.bind (new_skip_list0 (0 :: nat)) (sl_insert (\<lambda>n. n) (rand_level 3 0 [0, 0, 0, 0]) 1) = None"
  by code_simp

text \<open>The default level is replaced by the minimal one.\<close>

lemma default_level_is_minimal: "map_option m_iMaxLevel (new_skip_list0 (d :: 'a)) = Some SKIPLIST_MIN_LEVEL"
  by (simp add: new_skip_list0_def sl_init_def SKIPLIST_MAX_LEVEL_def SKIPLIST_DEFAULT_LEVEL_def SKIPLIST_MIN_LEVEL_def)

text \<open>\<open>clear\<close> keeps every second node allocated.\<close>

theorem clear_leaks:
  "Option.bind (new_skip_list0 (0 :: nat)) (\<lambda>s. Option.bind (sl_insert (\<lambda>n. n) 0 1 s) (\<lambda>s. Option.bind (sl_insert (\<lambda>n. n) 0 2 s)
     (\<lambda>s. map_option (\<lambda>s'. (sl_begin s', sl_heap s' 1 = None, sl_heap s' 2 = None)) (sl_clear s)))) = Some (Some None, True, False)"
  by code_simp

end
