(* ===== verification/Sockets.thy ===== *)
theory Sockets
  imports Peers "HOL-Library.Word"
begin

text \<open>
  The sockets of the TCP stack: \<open>file-descriptor.h\<close>, \<open>connection-socket.cc\<close>, \<open>server-socket.cc\<close>, the
  constructor and destructor of \<open>server-event-handler.cc\<close>, and the helpers of \<open>ccsys/utils.cc\<close>. The system is
  a parameter that answers a call with a result that may depend on all calls before; an operation returns its
  result and the calls made so far, so that the theorems speak of what the system is asked and in which order.
  Results are C integers with \<open>errno\<close>.
\<close>

unbundle bit_operations_syntax

section \<open>The system\<close>

type_synonym c_int = "32 word"

datatype sys_call =
    Sys_socket
  | Sys_getfl c_int
  | Sys_setfl c_int c_int
  | Sys_connect c_int net_addr
  | Sys_select c_int
  | Sys_so_error c_int
  | Sys_setsockopt c_int c_int c_int "c_int list"
  | Sys_bind c_int u16
  | Sys_listen c_int c_int
  | Sys_close c_int
  | Sys_accept c_int
  | Sys_accept4 c_int c_int
  | Sys_memalign u64 u64
  | Sys_getaddrinfo string
  | Sys_getnameinfo nat
  | Sys_freeaddrinfo

text \<open>An answer: the returned integer, \<open>errno\<close>, and what is written through the pointers the call is
  given, an option value, a text, a pointer or the families of a list of addresses.\<close>

record sys_ret =
  ret :: c_int
  errno :: c_int
  out_int :: c_int
  out_text :: string
  out_ptr :: nat
  out_families :: "c_int list"

type_synonym trace = "sys_call list"
type_synonym system = "trace \<Rightarrow> sys_call \<Rightarrow> sys_ret"

definition sys :: "system \<Rightarrow> sys_call \<Rightarrow> trace \<Rightarrow> sys_ret \<times> trace" where
  "sys k c tr = (k tr c, tr @ [c])"

definition O_NONBLOCK :: c_int where "O_NONBLOCK = 2048"
definition AF_INET :: c_int where "AF_INET = 2"
definition EINTR :: c_int where "EINTR = 4"
definition EINPROGRESS :: c_int where "EINPROGRESS = 115"
definition EAI_AGAIN :: c_int where "EAI_AGAIN = - 3"
definition SOL_SOCKET :: c_int where "SOL_SOCKET = 1"
definition SO_REUSEADDR :: c_int where "SO_REUSEADDR = 2"
definition SO_SNDBUF :: c_int where "SO_SNDBUF = 7"
definition SO_RCVBUF :: c_int where "SO_RCVBUF = 8"
definition SO_KEEPALIVE :: c_int where "SO_KEEPALIVE = 9"
definition SO_LINGER :: c_int where "SO_LINGER = 13"
definition SO_REUSEPORT :: c_int where "SO_REUSEPORT = 15"
definition IPPROTO_TCP :: c_int where "IPPROTO_TCP = 6"
definition TCP_NODELAY :: c_int where "TCP_NODELAY = 1"

section \<open>Utils\<close>

definition Utils_SetNonBlocking :: "system \<Rightarrow> c_int \<Rightarrow> trace \<Rightarrow> c_int \<times> trace" where
  "Utils_SetNonBlocking k fd tr =
     (let (r, tr) = sys k (Sys_getfl fd) tr
      in if ret r = - 1 then (- 1, tr)
         else
           let (s, tr) = sys k (Sys_setfl fd (ret r OR O_NONBLOCK)) tr
           in if ret s = - 1 then (- 1, tr) else (0, tr))"

definition Utils_SetBlocking :: "system \<Rightarrow> c_int \<Rightarrow> trace \<Rightarrow> c_int \<times> trace" where
  "Utils_SetBlocking k fd tr =
     (let (r, tr) = sys k (Sys_getfl fd) tr
      in if ret r = - 1 then (- 1, tr)
         else
           let (s, tr) = sys k (Sys_setfl fd (ret r AND NOT O_NONBLOCK)) tr
           in if ret s = - 1 then (- 1, tr) else (0, tr))"

text \<open>The allocated address, or null.\<close>

definition PosixMemAlign :: "system \<Rightarrow> u64 \<Rightarrow> u64 \<Rightarrow> trace \<Rightarrow> nat option \<times> trace" where
  "PosixMemAlign k align sz tr =
     (let (r, tr) = sys k (Sys_memalign align sz) tr in (if ret r \<noteq> 0 then None else Some (out_ptr r), tr))"

text \<open>The loop over \<open>getnameinfo\<close> for the chosen address, with at most \<open>n\<close> more tries. The text is
  assigned up to its first 0.\<close>

primrec name_loop :: "system \<Rightarrow> nat \<Rightarrow> nat \<Rightarrow> trace \<Rightarrow> string option \<times> trace" where
  "name_loop k a 0 tr = (None, tr)"
| "name_loop k a (Suc n) tr =
     (let (r, tr) = sys k (Sys_getnameinfo a) tr
      in if ret r = 0 then (Some (takeWhile (\<lambda>c. c \<noteq> char_of (0 :: nat)) (out_text r)), tr)
         else if ret r = EAI_AGAIN then name_loop k a n tr
         else (None, tr))"

text \<open>\<open>GetAddrInfo\<close> returns its result and the value of \<open>ip\<close>. Addresses are numbers in the list the system
  returned; \<open>rnd\<close> is the random number.\<close>

definition choose_name :: "system \<Rightarrow> nat \<Rightarrow> c_int list \<Rightarrow> trace \<Rightarrow> string option \<times> trace" where
  "choose_name k rnd families tr =
     (let candidates = filter (\<lambda>i. families ! i = AF_INET) [0..<length families]
      in if candidates \<noteq> [] then name_loop k (candidates ! (rnd mod length candidates)) 10 tr else (None, tr))"

definition GetAddrInfo :: "system \<Rightarrow> nat \<Rightarrow> string \<Rightarrow> trace \<Rightarrow> (bool \<times> string) \<times> trace" where
  "GetAddrInfo k rnd host tr =
     (let (r, tr) = sys k (Sys_getaddrinfo host) tr;
          (ip, tr) = (if ret r = 0 then choose_name k rnd (out_families r) tr else (None, tr));
          tr = (if out_families r \<noteq> [] then snd (sys k Sys_freeaddrinfo tr) else tr)
      in (case ip of None \<Rightarrow> (False, []) | Some t \<Rightarrow> (True, t), tr))"

section \<open>Descriptors and connection sockets\<close>

record ConnectionSocket =
  m_fd :: c_int
  m_real_peer :: net_peer_info
  m_logic_peer :: net_peer_info
  m_connected :: bool

definition new_FileDescriptor0 :: ConnectionSocket where
  "new_FileDescriptor0 =
     \<lparr>m_fd = - 1, m_real_peer = new_net_peer_info0, m_logic_peer = new_net_peer_info0, m_connected = False\<rparr>"

definition SetLogicPeerInfo :: "net_peer_info \<Rightarrow> ConnectionSocket \<Rightarrow> ConnectionSocket" where
  "SetLogicPeerInfo peer s = s\<lparr>m_logic_peer := peer\<rparr>"

definition new_ConnectionSocket1 :: "net_addr \<Rightarrow> ConnectionSocket" where
  "new_ConnectionSocket1 peerAddr = new_FileDescriptor0\<lparr>m_real_peer := \<lparr>peer_nat = peerAddr, sp = Tcp\<rparr>\<rparr>"

definition new_ConnectionSocket2 :: "net_addr \<Rightarrow> c_int \<Rightarrow> ConnectionSocket" where
  "new_ConnectionSocket2 peerAddr sfd =
     new_FileDescriptor0\<lparr>m_real_peer := \<lparr>peer_nat = peerAddr, sp = Tcp\<rparr>, m_fd := sfd\<rparr>"

text \<open>\<open>Socket\<close>.\<close>

definition cs_Socket :: "system \<Rightarrow> ConnectionSocket \<Rightarrow> trace \<Rightarrow> (bool \<times> ConnectionSocket) \<times> trace" where
  "cs_Socket k s tr = (let (r, tr) = sys k Sys_socket tr in ((ret r \<noteq> - 1, s\<lparr>m_fd := ret r\<rparr>), tr))"

definition cs_SetNonBlocking :: "system \<Rightarrow> bool \<Rightarrow> ConnectionSocket \<Rightarrow> trace \<Rightarrow> bool \<times> trace" where
  "cs_SetNonBlocking k val s tr =
     (let (r, tr) = (if val then Utils_SetNonBlocking k (m_fd s) tr else Utils_SetBlocking k (m_fd s) tr) in (r = 0, tr))"

text \<open>\<open>Connect\<close> without and with a time-out; what a non-blocking connect that is under way comes to.\<close>

definition Connect_blocking :: "system \<Rightarrow> ConnectionSocket \<Rightarrow> trace \<Rightarrow> (bool \<times> ConnectionSocket) \<times> trace" where
  "Connect_blocking k s tr =
     (let (r, tr) = sys k (Sys_connect (m_fd s) (peer_nat (m_real_peer s))) tr
      in if ret r = 0 then ((True, s\<lparr>m_connected := True\<rparr>), tr) else ((False, s), tr))"

definition wait_connected :: "system \<Rightarrow> c_int \<Rightarrow> trace \<Rightarrow> bool \<times> trace" where
  "wait_connected k fd tr =
     (let (r, tr) = sys k (Sys_select fd) tr
      in if ret r <s 0 \<and> errno r \<noteq> EINTR then (False, tr)
         else if 0 <s ret r
         then (let (o', tr) = sys k (Sys_so_error fd) tr
               in if ret o' <s 0 then (False, tr) else (out_int o' = 0, tr))
         else (False, tr))"

definition Connect_timed :: "system \<Rightarrow> ConnectionSocket \<Rightarrow> trace \<Rightarrow> (bool \<times> ConnectionSocket) \<times> trace" where
  "Connect_timed k s tr =
     (let (ok, tr) = cs_SetNonBlocking k True s tr
      in if \<not> ok then ((False, s), tr)
         else
           let (r, tr) = sys k (Sys_connect (m_fd s) (peer_nat (m_real_peer s))) tr;
               (ok, tr) =
                 (if ret r <s 0
                  then if errno r = EINPROGRESS then wait_connected k (m_fd s) tr else (False, tr)
                  else (True, tr))
           in if \<not> ok then ((False, s), tr)
              else (let (ok, tr) = cs_SetNonBlocking k False s tr in ((ok, s), tr)))"

definition cs_Connect :: "system \<Rightarrow> bool \<Rightarrow> ConnectionSocket \<Rightarrow> trace \<Rightarrow> (bool \<times> ConnectionSocket) \<times> trace" where
  "cs_Connect k timeout s tr = (if \<not> timeout then Connect_blocking k s tr else Connect_timed k s tr)"

text \<open>The options. Setting a buffer size of a connected socket throws (\<open>None\<close>).\<close>

definition SetSockOpt :: "system \<Rightarrow> c_int \<Rightarrow> c_int \<Rightarrow> c_int list \<Rightarrow> ConnectionSocket \<Rightarrow> trace \<Rightarrow> c_int \<times> trace" where
  "SetSockOpt k lvl optname optval s tr = (let (r, tr) = sys k (Sys_setsockopt (m_fd s) lvl optname optval) tr in (ret r, tr))"

definition flag :: "bool \<Rightarrow> c_int" where "flag ok = (if ok then 1 else 0)"

definition SetNoDelay :: "system \<Rightarrow> bool \<Rightarrow> ConnectionSocket \<Rightarrow> trace \<Rightarrow> bool \<times> trace" where
  "SetNoDelay k ok s tr =
     (let (r, tr) = sys k (Sys_setsockopt (m_fd s) IPPROTO_TCP TCP_NODELAY [flag ok]) tr in (ret r = 0, tr))"

definition SetRcvBufferSize :: "system \<Rightarrow> c_int \<Rightarrow> ConnectionSocket \<Rightarrow> trace \<Rightarrow> bool option \<times> trace" where
  "SetRcvBufferSize k nbytes s tr =
     (if m_connected s then (None, tr)
      else (let (r, tr) = sys k (Sys_setsockopt (m_fd s) SOL_SOCKET SO_RCVBUF [nbytes]) tr in (Some (ret r = 0), tr)))"

definition SetSndBufferSize :: "system \<Rightarrow> c_int \<Rightarrow> ConnectionSocket \<Rightarrow> trace \<Rightarrow> bool option \<times> trace" where
  "SetSndBufferSize k nbytes s tr =
     (if m_connected s then (None, tr)
      else (let (r, tr) = sys k (Sys_setsockopt (m_fd s) SOL_SOCKET SO_SNDBUF [nbytes]) tr in (Some (ret r = 0), tr)))"

definition SetSoLinger :: "system \<Rightarrow> bool \<Rightarrow> c_int \<Rightarrow> ConnectionSocket \<Rightarrow> trace \<Rightarrow> bool \<times> trace" where
  "SetSoLinger k ok seconds s tr =
     (let (r, tr) = sys k (Sys_setsockopt (m_fd s) SOL_SOCKET SO_LINGER [flag ok, seconds]) tr in (ret r = 0, tr))"

definition SetKeepalive :: "system \<Rightarrow> bool \<Rightarrow> ConnectionSocket \<Rightarrow> trace \<Rightarrow> bool \<times> trace" where
  "SetKeepalive k ok s tr =
     (let (r, tr) = sys k (Sys_setsockopt (m_fd s) SOL_SOCKET SO_KEEPALIVE [flag ok]) tr in (ret r = 0, tr))"

definition SetAddrReuse :: "system \<Rightarrow> bool \<Rightarrow> ConnectionSocket \<Rightarrow> trace \<Rightarrow> bool \<times> trace" where
  "SetAddrReuse k ok s tr =
     (let (r, tr) = sys k (Sys_setsockopt (m_fd s) SOL_SOCKET SO_REUSEADDR [flag ok]) tr in (ret r = 0, tr))"

definition cs_Close :: "system \<Rightarrow> ConnectionSocket \<Rightarrow> trace \<Rightarrow> c_int \<times> trace" where
  "cs_Close k s tr =
     (if m_fd s \<noteq> - 1 then (let (r, tr) = sys k (Sys_close (m_fd s)) tr in (ret r, tr)) else (0, tr))"

section \<open>The server socket\<close>

record ServerSocket = ConnectionSocket +
  m_local_addr :: net_addr
  m_max_listen_conns :: c_int

definition new_ServerSocket :: "net_addr \<Rightarrow> c_int \<Rightarrow> ServerSocket" where
  "new_ServerSocket localAddr maxConns =
     ConnectionSocket.extend new_FileDescriptor0 (ServerSocket.fields localAddr maxConns)"

definition ss_Bind :: "system \<Rightarrow> ServerSocket \<Rightarrow> trace \<Rightarrow> bool \<times> trace" where
  "ss_Bind k s tr = (let (r, tr) = sys k (Sys_bind (m_fd s) (port (m_local_addr s))) tr in (ret r = 0, tr))"

definition ss_Listen :: "system \<Rightarrow> ServerSocket \<Rightarrow> trace \<Rightarrow> bool \<times> trace" where
  "ss_Listen k s tr = (let (r, tr) = sys k (Sys_listen (m_fd s) (m_max_listen_conns s)) tr in (ret r = 0, tr))"

definition ss_Accept :: "system \<Rightarrow> ServerSocket \<Rightarrow> trace \<Rightarrow> c_int \<times> trace" where
  "ss_Accept k s tr = (let (r, tr) = sys k (Sys_accept (m_fd s)) tr in (ret r, tr))"

definition ss_Accept4 :: "system \<Rightarrow> c_int \<Rightarrow> ServerSocket \<Rightarrow> trace \<Rightarrow> c_int \<times> trace" where
  "ss_Accept4 k flags s tr = (let (r, tr) = sys k (Sys_accept4 (m_fd s) flags) tr in (ret r, tr))"

text \<open>\<open>SetPortReuse\<close> passes four bytes from the address of the 16 bit port; the two bytes behind the port
  are padding of the structure, an argument here.\<close>

definition SetPortReuse :: "system \<Rightarrow> endian \<Rightarrow> bytes \<Rightarrow> ServerSocket \<Rightarrow> trace \<Rightarrow> bool \<times> trace" where
  "SetPortReuse k e padding s tr =
     (let v = host_word e 4 (host_bytes e 2 (port (m_local_addr s)) @ padding);
          (r, tr) = sys k (Sys_setsockopt (m_fd s) SOL_SOCKET SO_REUSEPORT [v]) tr
      in (ret r = 0, tr))"

text \<open>The constructor of the server's event handler, as far as it concerns the socket: the message of the
  exception, or the socket.\<close>

definition with_fd :: "c_int \<Rightarrow> ServerSocket \<Rightarrow> ServerSocket" where
  "with_fd fd s = s\<lparr>m_fd := fd\<rparr>"

definition new_ServerEventHandler :: "system \<Rightarrow> net_addr \<Rightarrow> trace \<Rightarrow> (string + ServerSocket) \<times> trace" where
  "new_ServerEventHandler k local tr =
     (let s = new_ServerSocket local 512; (r, tr) = sys k Sys_socket tr; s = with_fd (ret r) s
      in if ret r = - 1 then (Inl ''server socket err!'', tr)
         else
           let (b, tr) = Utils_SetNonBlocking k (m_fd s) tr
           in if b \<noteq> 0
              then (let (r, tr) = sys k (Sys_close (m_fd s)) tr in (Inl ''set server socket fd non-blocking err!'', tr))
              else
                let (ok, tr) = SetAddrReuse k True (ConnectionSocket.truncate s) tr
                in if \<not> ok then (Inl ''server SetAddrReuse err!'', tr)
                   else
                     let (ok, tr) = ss_Bind k s tr
                     in if \<not> ok then (Inl ''bind err!'', tr)
                        else
                          let (ok, tr) = ss_Listen k s tr
                          in if \<not> ok then (Inl ''listen err!'', tr) else (Inr s, tr))"

definition delete_ServerEventHandler :: "system \<Rightarrow> ServerSocket \<Rightarrow> trace \<Rightarrow> trace" where
  "delete_ServerEventHandler k s tr = snd (cs_Close k (ConnectionSocket.truncate s) tr)"

section \<open>Lemmas\<close>

lemmas utils_defs = Utils_SetNonBlocking_def Utils_SetBlocking_def cs_SetNonBlocking_def sys_def Let_def

text \<open>Setting the mode of a descriptor: the calls, and when it succeeds.\<close>

lemma SetNonBlocking_calls:
  "Utils_SetNonBlocking k fd tr = (r, tr') \<Longrightarrow>
     (r = 0 \<and> ret (k tr (Sys_getfl fd)) \<noteq> - 1
        \<and> tr' = tr @ [Sys_getfl fd, Sys_setfl fd (ret (k tr (Sys_getfl fd)) OR O_NONBLOCK)]
        \<and> ret (k (tr @ [Sys_getfl fd]) (Sys_setfl fd (ret (k tr (Sys_getfl fd)) OR O_NONBLOCK))) \<noteq> - 1)
     \<or> (r = - 1 \<and> (tr' = tr @ [Sys_getfl fd]
          \<or> tr' = tr @ [Sys_getfl fd, Sys_setfl fd (ret (k tr (Sys_getfl fd)) OR O_NONBLOCK)]))"
  by (auto simp: utils_defs split: if_splits)

lemma mode_bits:
  fixes x y :: "'a::len word"
  shows "(x AND NOT y) AND y = 0" "(x OR y) AND y = y"
  by (rule bit_eqI, auto simp: bit_simps)+

lemma cs_SetNonBlocking_False:
  assumes "cs_SetNonBlocking k False s tr = (True, tr')"
  shows "\<exists>fl. tr' = tr @ [Sys_getfl (m_fd s), Sys_setfl (m_fd s) fl] \<and> fl AND O_NONBLOCK = 0
    \<and> ret (k (tr @ [Sys_getfl (m_fd s)]) (Sys_setfl (m_fd s) fl)) \<noteq> - 1"
  using assms by (auto simp: utils_defs mode_bits split: if_splits)

lemma cs_SetNonBlocking_True:
  assumes "cs_SetNonBlocking k True s tr = (True, tr')"
  shows "\<exists>fl. tr' = tr @ [Sys_getfl (m_fd s), Sys_setfl (m_fd s) fl] \<and> fl AND O_NONBLOCK = O_NONBLOCK
    \<and> ret (k (tr @ [Sys_getfl (m_fd s)]) (Sys_setfl (m_fd s) fl)) \<noteq> - 1"
  using assms by (auto simp: utils_defs mode_bits split: if_splits)

lemma wait_connected_calls:
  "wait_connected k fd tr = (b, tr') \<Longrightarrow>
     tr' = tr @ [Sys_select fd] @ (if 0 <s ret (k tr (Sys_select fd)) then [Sys_so_error fd] else [])
   \<and> (b \<longleftrightarrow> 0 <s ret (k tr (Sys_select fd)) \<and> \<not> ret (k (tr @ [Sys_select fd]) (Sys_so_error fd)) <s 0
        \<and> out_int (k (tr @ [Sys_select fd]) (Sys_so_error fd)) = 0)"
  by (auto simp: wait_connected_def sys_def Let_def word_sless_alt split: if_splits)

text \<open>The evidence that a connection stands: \<open>connect\<close> succeeded, or it was under way and the descriptor
  became writable without an error.\<close>

definition established :: "system \<Rightarrow> ConnectionSocket \<Rightarrow> trace \<Rightarrow> bool" where
  "established k s tr \<longleftrightarrow>
     (let fd = m_fd s; c = Sys_connect fd (peer_nat (m_real_peer s)); r = k tr c; tr1 = tr @ [c]
      in \<not> ret r <s 0
       \<or> errno r = EINPROGRESS \<and> 0 <s ret (k tr1 (Sys_select fd))
         \<and> \<not> ret (k (tr1 @ [Sys_select fd]) (Sys_so_error fd)) <s 0
         \<and> out_int (k (tr1 @ [Sys_select fd]) (Sys_so_error fd)) = 0)"

lemma name_loop_calls:
  "name_loop k a n tr = (r, tr') \<Longrightarrow>
     \<exists>m \<le> n. tr' = tr @ replicate m (Sys_getnameinfo a)
       \<and> (\<forall>t. r = Some t \<longrightarrow> 0 < m \<and> ret (k (tr @ replicate (m - 1) (Sys_getnameinfo a)) (Sys_getnameinfo a)) = 0
            \<and> t = takeWhile (\<lambda>c. c \<noteq> char_of (0 :: nat)) (out_text (k (tr @ replicate (m - 1) (Sys_getnameinfo a)) (Sys_getnameinfo a))))"
proof (induction n arbitrary: tr)
  case (Suc n)
  let ?c = "Sys_getnameinfo a" let ?r = "k tr ?c"
  show ?case
  proof (cases "ret ?r = EAI_AGAIN")
    case True
    then have "name_loop k a n (tr @ [?c]) = (r, tr')" using Suc.prems by (simp add: sys_def EAI_AGAIN_def)
    from Suc.IH [OF this] obtain m where m: "m \<le> n" "tr' = (tr @ [?c]) @ replicate m ?c"
      "\<forall>t. r = Some t \<longrightarrow> 0 < m \<and> ret (k ((tr @ [?c]) @ replicate (m - 1) ?c) ?c) = 0
         \<and> t = takeWhile (\<lambda>c. c \<noteq> char_of (0 :: nat)) (out_text (k ((tr @ [?c]) @ replicate (m - 1) ?c) ?c))"
      by blast
    have "(tr @ [?c]) @ replicate (m - 1) ?c = tr @ replicate (Suc m - 1) ?c" if "0 < m"
      using that by (cases m) auto
    then show ?thesis using m by (intro exI [of _ "Suc m"]) auto
  next
    case False
    then show ?thesis using Suc.prems by (intro exI [of _ "Suc 0"]) (auto simp: sys_def split: if_splits)
  qed
qed simp

lemma choose_name_calls:
  assumes "choose_name k rnd families tr = (r, tr')"
  shows "\<exists>m i. m \<le> 10 \<and> tr' = tr @ replicate m (Sys_getnameinfo i)
    \<and> (0 < m \<longrightarrow> i < length families \<and> families ! i = AF_INET)
    \<and> (\<forall>t. r = Some t \<longrightarrow> 0 < m \<and> ret (k (tr @ replicate (m - 1) (Sys_getnameinfo i)) (Sys_getnameinfo i)) = 0
         \<and> t = takeWhile (\<lambda>c. c \<noteq> char_of (0 :: nat)) (out_text (k (tr @ replicate (m - 1) (Sys_getnameinfo i)) (Sys_getnameinfo i))))"
proof -
  let ?c = "filter (\<lambda>i. families ! i = AF_INET) [0..<length families]"
  let ?i = "?c ! (rnd mod length ?c)"
  show ?thesis
  proof (cases "?c = []")
    case True
    then show ?thesis using assms by (intro exI [of _ 0]) (simp add: choose_name_def Let_def)
  next
    case False
    then have run: "name_loop k ?i 10 tr = (r, tr')" using assms by (simp only: choose_name_def Let_def if_True not_False_eq_True)
    have "?i \<in> set ?c" using False by (intro nth_mem) simp
    then have "?i < length families" "families ! ?i = AF_INET" by auto
    then show ?thesis using name_loop_calls [OF run] by blast
  qed
qed

text \<open>The calls between the two switches of the mode.\<close>

definition connect_calls :: "ConnectionSocket \<Rightarrow> sys_call list set" where
  "connect_calls s =
     {[Sys_connect (m_fd s) (peer_nat (m_real_peer s))],
      [Sys_connect (m_fd s) (peer_nat (m_real_peer s)), Sys_select (m_fd s)],
      [Sys_connect (m_fd s) (peer_nat (m_real_peer s)), Sys_select (m_fd s), Sys_so_error (m_fd s)]}"

lemma connect_middle:
  assumes "(if ret (k tr c) <s 0 then if errno (k tr c) = EINPROGRESS then wait_connected k (m_fd s) (tr @ [c]) else (False, tr @ [c])
      else (True, tr @ [c])) = (ok, tr')" "c = Sys_connect (m_fd s) (peer_nat (m_real_peer s))"
  shows "(ok \<longleftrightarrow> established k s tr) \<and> (\<exists>mid \<in> connect_calls s. tr' = tr @ mid)"
  using assms wait_connected_calls [of k "m_fd s" "tr @ [c]" ok tr']
  by (auto simp: established_def connect_calls_def Let_def split: if_splits)

section \<open>Properties\<close>

text \<open>C23. A connect with a time-out returns true only when the connection stands, and its last call has then set
  the descriptor to blocking mode; when the connection does not come to stand, no call switches the mode back and
  the descriptor stays non-blocking. The socket object is unchanged in every case: it does not know that it is
  connected.\<close>

theorem timed_connect_sound:
  assumes "cs_Connect k True s tr = ((ok, s'), tr')"
  shows "s' = s
    \<and> (ok \<longrightarrow> (\<exists>fl0 mid fl. let tr0 = tr @ [Sys_getfl (m_fd s), Sys_setfl (m_fd s) fl0]; tr1 = tr0 @ mid in
         fl0 AND O_NONBLOCK = O_NONBLOCK \<and> mid \<in> connect_calls s \<and> established k s tr0
         \<and> tr' = tr1 @ [Sys_getfl (m_fd s), Sys_setfl (m_fd s) fl] \<and> fl AND O_NONBLOCK = 0
         \<and> ret (k (tr1 @ [Sys_getfl (m_fd s)]) (Sys_setfl (m_fd s) fl)) \<noteq> - 1))
    \<and> (\<forall>tr0. cs_SetNonBlocking k True s tr = (True, tr0) \<and> \<not> established k s tr0 \<longrightarrow>
         \<not> ok \<and> (\<exists>mid \<in> connect_calls s. tr' = tr0 @ mid))"
proof (cases "cs_SetNonBlocking k True s tr")
  case (Pair nb tr0)
  show ?thesis
  proof (cases nb)
    case False
    then show ?thesis using assms Pair by (simp add: cs_Connect_def Connect_timed_def Let_def)
  next
    case True
    let ?c = "Sys_connect (m_fd s) (peer_nat (m_real_peer s))"
    obtain ok1 tr1 where mid: "(if ret (k tr0 ?c) <s 0 then if errno (k tr0 ?c) = EINPROGRESS then wait_connected k (m_fd s) (tr0 @ [?c])
        else (False, tr0 @ [?c]) else (True, tr0 @ [?c])) = (ok1, tr1)" by fastforce
    obtain m where m: "ok1 \<longleftrightarrow> established k s tr0" "m \<in> connect_calls s" "tr1 = tr0 @ m" using connect_middle [OF mid] by blast
    obtain fl0 where fl0: "tr0 = tr @ [Sys_getfl (m_fd s), Sys_setfl (m_fd s) fl0]" "fl0 AND O_NONBLOCK = O_NONBLOCK"
      using cs_SetNonBlocking_True [of k s tr tr0] Pair True by auto
    have run: "(ok, s', tr') = (if \<not> ok1 then (False, s, tr1) else (case cs_SetNonBlocking k False s tr1 of (ok, tr) \<Rightarrow> (ok, s, tr)))"
      using assms Pair True mid by (auto simp: cs_Connect_def Connect_timed_def sys_def Let_def split: prod.splits if_splits)
    show ?thesis
    proof (cases ok1)
      case False
      then show ?thesis using run m Pair by auto
    next
      case ok1: True
      then have r: "cs_SetNonBlocking k False s tr1 = (ok, tr')" "s' = s" using run by (auto split: prod.splits)
      have "\<exists>fl. tr' = tr1 @ [Sys_getfl (m_fd s), Sys_setfl (m_fd s) fl] \<and> fl AND O_NONBLOCK = 0
          \<and> ret (k (tr1 @ [Sys_getfl (m_fd s)]) (Sys_setfl (m_fd s) fl)) \<noteq> - 1" if ok
        using cs_SetNonBlocking_False r(1) that by simp
      then have "ok \<longrightarrow> (\<exists>fl0 mid fl. let tr0 = tr @ [Sys_getfl (m_fd s), Sys_setfl (m_fd s) fl0]; tr1 = tr0 @ mid in
         fl0 AND O_NONBLOCK = O_NONBLOCK \<and> mid \<in> connect_calls s \<and> established k s tr0
         \<and> tr' = tr1 @ [Sys_getfl (m_fd s), Sys_setfl (m_fd s) fl] \<and> fl AND O_NONBLOCK = 0
         \<and> ret (k (tr1 @ [Sys_getfl (m_fd s)]) (Sys_setfl (m_fd s) fl)) \<noteq> - 1)"
        unfolding Let_def using m ok1 fl0 by (metis (no_types, lifting))
      then show ?thesis using r(2) m(1) ok1 Pair by auto
    qed
  qed
qed

text \<open>A system where every call succeeds, with descriptor 3; \<open>connect\<close> is under way and \<open>select\<close> returns 1.\<close>

definition good_system :: system where
  "good_system tr c =
     \<lparr>ret = (case c of Sys_socket \<Rightarrow> 3 | Sys_connect _ _ \<Rightarrow> - 1 | Sys_select _ \<Rightarrow> 1 | _ \<Rightarrow> 0), errno = EINPROGRESS, out_int = 0,
      out_text = ''10.0.0.7'', out_ptr = 0, out_families = [10, AF_INET]\<rparr>"

definition sock3 :: ConnectionSocket where
  "sock3 = new_ConnectionSocket2 \<lparr>addr = ''10.0.0.7'', port = 80\<rparr> 3"

lemma good_connect:
  "cs_Connect good_system True sock3 [] = ((True, sock3),
     [Sys_getfl 3, Sys_setfl 3 O_NONBLOCK, Sys_connect 3 (peer_nat (m_real_peer sock3)), Sys_select 3, Sys_so_error 3, Sys_getfl 3,
      Sys_setfl 3 0])"
  by (simp add: cs_Connect_def Connect_timed_def wait_connected_def utils_defs good_system_def sock3_def new_ConnectionSocket2_def
      EINPROGRESS_def EINTR_def word_sless_alt)

theorem timed_connect_sound_witness:
  "cs_Connect good_system True sock3 [] = ((True, sock3),
     [Sys_getfl 3, Sys_setfl 3 O_NONBLOCK, Sys_connect 3 (peer_nat (m_real_peer sock3)), Sys_select 3, Sys_so_error 3, Sys_getfl 3,
      Sys_setfl 3 0])
   \<and> (\<exists>fl0. established good_system sock3 [Sys_getfl 3, Sys_setfl 3 fl0])"
  using timed_connect_sound [OF good_connect] good_connect
  by (auto simp: Let_def sock3_def new_ConnectionSocket2_def)

text \<open>The constructor of the server's event handler hands out a socket exactly after opening a descriptor, setting
  it non-blocking and reusable, binding it to the local port and listening with a backlog of 512, all
  successful and in this order. It throws otherwise, and closes the descriptor only when the mode cannot be set: when
  it cannot be bound or listened on, the descriptor stays open.\<close>

theorem server_socket_setup:
  assumes "new_ServerEventHandler k local tr = (r, tr')"
  shows "((\<exists>s. r = Inr s) \<longleftrightarrow> (\<exists>fd fl t1 t2 t3 t4 t5. t1 = tr @ [Sys_socket] \<and> t2 = t1 @ [Sys_getfl fd] \<and> t3 = t2 @ [Sys_setfl fd fl]
        \<and> t4 = t3 @ [Sys_setsockopt fd SOL_SOCKET SO_REUSEADDR [1]] \<and> t5 = t4 @ [Sys_bind fd (port local)]
        \<and> tr' = t5 @ [Sys_listen fd 512]
        \<and> fd = ret (k tr Sys_socket) \<and> fd \<noteq> - 1 \<and> ret (k t1 (Sys_getfl fd)) \<noteq> - 1 \<and> fl = ret (k t1 (Sys_getfl fd)) OR O_NONBLOCK
        \<and> ret (k t2 (Sys_setfl fd fl)) \<noteq> - 1 \<and> ret (k t3 (Sys_setsockopt fd SOL_SOCKET SO_REUSEADDR [1])) = 0
        \<and> ret (k t4 (Sys_bind fd (port local))) = 0 \<and> ret (k t5 (Sys_listen fd 512)) = 0))
    \<and> (\<forall>s. r = Inr s \<longrightarrow> m_fd s = ret (k tr Sys_socket) \<and> m_local_addr s = local)
    \<and> (\<forall>e fd. r = Inl e \<and> Sys_bind fd (port local) \<in> set (drop (length tr) tr') \<longrightarrow> (\<forall>x. Sys_close x \<notin> set (drop (length tr) tr')))"
  using assms unfolding new_ServerEventHandler_def
  by (auto simp: utils_defs SetAddrReuse_def ss_Bind_def ss_Listen_def with_fd_def new_ServerSocket_def new_FileDescriptor0_def flag_def
      ConnectionSocket.defs ServerSocket.defs split: if_splits)

lemma good_server:
  "fst (new_ServerEventHandler good_system \<lparr>addr = ''10.0.0.7'', port = 80\<rparr> []) =
     Inr (with_fd 3 (new_ServerSocket \<lparr>addr = ''10.0.0.7'', port = 80\<rparr> 512))"
  by (simp add: new_ServerEventHandler_def utils_defs SetAddrReuse_def ss_Bind_def ss_Listen_def good_system_def)

theorem server_socket_setup_witness:
  "\<exists>s tr'. new_ServerEventHandler good_system \<lparr>addr = ''10.0.0.7'', port = 80\<rparr> [] = (Inr s, tr') \<and> Sys_listen 3 512 \<in> set tr'"
proof (cases "new_ServerEventHandler good_system \<lparr>addr = ''10.0.0.7'', port = 80\<rparr> []")
  case (Pair r tr')
  then have r: "r = Inr (with_fd 3 (new_ServerSocket \<lparr>addr = ''10.0.0.7'', port = 80\<rparr> 512))" using good_server by simp
  have "ret (good_system [] Sys_socket) = 3" by (simp add: good_system_def)
  then show ?thesis using server_socket_setup [OF Pair] Pair r by auto
qed

text \<open>Resolving a host ends after at most ten calls of \<open>getnameinfo\<close>, all for one address of the IPv4 family
  among those the system returned. It returns true exactly when the last of them succeeded and then \<open>ip\<close> is its
  text, else \<open>ip\<close> is empty; a list of addresses is freed once.\<close>

theorem resolve_bounded:
  assumes "GetAddrInfo k rnd host tr = ((ok, ip), tr')"
  shows "\<exists>m i. m \<le> 10 \<and> (let r = k tr (Sys_getaddrinfo host); t1 = tr @ [Sys_getaddrinfo host] in
      tr' = t1 @ replicate m (Sys_getnameinfo i) @ (if out_families r \<noteq> [] then [Sys_freeaddrinfo] else [])
    \<and> (0 < m \<longrightarrow> ret r = 0 \<and> i < length (out_families r) \<and> out_families r ! i = AF_INET)
    \<and> (ok \<longrightarrow> 0 < m \<and> ret (k (t1 @ replicate (m - 1) (Sys_getnameinfo i)) (Sys_getnameinfo i)) = 0
         \<and> ip = takeWhile (\<lambda>c. c \<noteq> char_of (0 :: nat)) (out_text (k (t1 @ replicate (m - 1) (Sys_getnameinfo i)) (Sys_getnameinfo i))))
    \<and> (\<not> ok \<longrightarrow> ip = []))"
proof -
  let ?r = "k tr (Sys_getaddrinfo host)" let ?t1 = "tr @ [Sys_getaddrinfo host]"
  obtain q t2 where q: "(if ret ?r = 0 then choose_name k rnd (out_families ?r) ?t1 else (None, ?t1)) = (q, t2)" by fastforce
  have out: "tr' = t2 @ (if out_families ?r \<noteq> [] then [Sys_freeaddrinfo] else [])"
    "(ok, ip) = (case q of None \<Rightarrow> (False, []) | Some t \<Rightarrow> (True, t))"
    using assms q by (auto simp: GetAddrInfo_def sys_def Let_def)
  have "\<exists>m i. m \<le> 10 \<and> t2 = ?t1 @ replicate m (Sys_getnameinfo i)
    \<and> (0 < m \<longrightarrow> ret ?r = 0 \<and> i < length (out_families ?r) \<and> out_families ?r ! i = AF_INET)
    \<and> (\<forall>t. q = Some t \<longrightarrow> 0 < m \<and> ret (k (?t1 @ replicate (m - 1) (Sys_getnameinfo i)) (Sys_getnameinfo i)) = 0
         \<and> t = takeWhile (\<lambda>c. c \<noteq> char_of (0 :: nat)) (out_text (k (?t1 @ replicate (m - 1) (Sys_getnameinfo i)) (Sys_getnameinfo i))))"
  proof (cases "ret ?r = 0")
    case True
    then have "choose_name k rnd (out_families ?r) ?t1 = (q, t2)" using q by simp
    from choose_name_calls [OF this] True show ?thesis by simp
  next
    case False
    then show ?thesis using q by (intro exI [of _ 0]) simp
  qed
  then obtain m i where "m \<le> 10" "t2 = ?t1 @ replicate m (Sys_getnameinfo i)"
    "0 < m \<longrightarrow> ret ?r = 0 \<and> i < length (out_families ?r) \<and> out_families ?r ! i = AF_INET"
    "\<forall>t. q = Some t \<longrightarrow> 0 < m \<and> ret (k (?t1 @ replicate (m - 1) (Sys_getnameinfo i)) (Sys_getnameinfo i)) = 0
         \<and> t = takeWhile (\<lambda>c. c \<noteq> char_of (0 :: nat)) (out_text (k (?t1 @ replicate (m - 1) (Sys_getnameinfo i)) (Sys_getnameinfo i)))"
    by blast
  then show ?thesis using out by (intro exI [of _ m] exI [of _ i]) (auto simp: Let_def split: option.splits)
qed

lemma good_resolve:
  "GetAddrInfo good_system 5 ''node7'' [] =
     ((True, ''10.0.0.7''), [Sys_getaddrinfo ''node7'', Sys_getnameinfo 1, Sys_freeaddrinfo])"
  by code_simp

theorem resolve_bounded_witness:
  "\<exists>m i. m \<le> 10 \<and> 0 < m \<and> [Sys_getaddrinfo ''node7'', Sys_getnameinfo 1, Sys_freeaddrinfo]
     = [Sys_getaddrinfo ''node7''] @ replicate m (Sys_getnameinfo i) @ [Sys_freeaddrinfo]"
  using resolve_bounded [OF good_resolve] by (auto simp: Let_def good_system_def)

end
