(* ===== verification/Handlers.thy ===== *)
theory Handlers
  imports NetWorker EventLoop Sockets
begin

text \<open>
  The handler of a connection, \<open>connection-event-handler.cc\<close>, which owns the socket of theory \<open>Sockets\<close> and
  the message worker of theory \<open>NetWorker\<close>, and the task the accept loop of \<open>server-event-handler.cc\<close> gives to the
  handshake threads for every accepted connection. The calls to the system are recorded, as in \<open>Sockets\<close>; the
  bytes of the connection are those of the worker.
\<close>

section \<open>The handler of a connection\<close>

record ConnHandler =
  m_pClientSocket :: ConnectionSocket
  m_pNetStackWorker :: Worker

text \<open>The constructor for a connected socket and the one for an accepted descriptor; \<open>mx\<close> is the default size
  of the queue of messages, \<open>i\<close> the counter of message ids, \<open>rx\<close> and \<open>tx\<close> what happens on the connection.\<close>

definition new_ConnHandler_client ::
  "u32 \<Rightarrow> u64 \<Rightarrow> rx_event list \<Rightarrow> tx_event list \<Rightarrow> ConnectionSocket \<Rightarrow> u16 \<Rightarrow> ConnHandler" where
  "new_ConnHandler_client mx i rx tx pSocket logicPort =
     \<lparr>m_pClientSocket = pSocket,
      m_pNetStackWorker = new_PosixTcpNetStackWorker Client mx (m_real_peer pSocket) (m_logic_peer pSocket) logicPort i rx tx\<rparr>"


definition delete_ConnHandler :: "system \<Rightarrow> ConnHandler \<Rightarrow> trace \<Rightarrow> trace" where
  "delete_ConnHandler k h tr = snd (cs_Close k (m_pClientSocket h) tr)"

definition Conn_Initialize :: "nat \<Rightarrow> worker_env \<Rightarrow> ConnHandler \<Rightarrow> init_result run" where
  "Conn_Initialize fuel env h = Initialize fuel env (m_pNetStackWorker h)"

definition Conn_HandleReadEvent :: "nat \<Rightarrow> worker_env \<Rightarrow> ConnHandler \<Rightarrow> (bool \<times> ConnHandler) run" where
  "Conn_HandleReadEvent fuel env h =
     run_bind (Recv fuel env False (m_pNetStackWorker h)) (\<lambda>(rc, w). Ret (rc, h\<lparr>m_pNetStackWorker := w\<rparr>))"

definition Conn_HandleWriteEvent :: "worker_env \<Rightarrow> ConnHandler \<Rightarrow> (bool \<times> ConnHandler) run" where
  "Conn_HandleWriteEvent env h =
     run_bind (send_run env (m_pNetStackWorker h)) (\<lambda>(rc, w). Ret (rc, h\<lparr>m_pNetStackWorker := w\<rparr>))"

section \<open>The task of an accepted connection\<close>

text \<open>The handler is given to \<open>m_onStackConnect\<close> or deleted; the handshake can also wait for ever or end the
  process.\<close>

datatype task_outcome = Handed_over ConnHandler | Deleted | Task_waits | Task_aborts

definition accept_task :: "system \<Rightarrow> nat \<Rightarrow> worker_env \<Rightarrow> ConnHandler \<Rightarrow> trace \<Rightarrow> task_outcome \<times> trace" where
  "accept_task k fuel env h tr =
     (case Conn_Initialize fuel env h of
        Ret (Initialized ok w) \<Rightarrow>
          let h = h\<lparr>m_pNetStackWorker := w\<rparr>;
              (nb, tr) = (if ok then cs_SetNonBlocking k True (m_pClientSocket h) tr else (False, tr))
          in if ok \<and> nb then (Handed_over h, tr) else (Deleted, delete_ConnHandler k h tr)
      | Ret (Waits_forever w) \<Rightarrow> (Task_waits, tr)
      | Aborts \<Rightarrow> (Task_aborts, tr)
      | NoFuel \<Rightarrow> (Task_waits, tr))"

section \<open>Properties\<close>



text \<open>The task ends as \<open>handshake_task\<close> says.\<close>

lemma accept_task_end:
  assumes "Conn_Initialize fuel env h = Ret (Initialized ok w)"
  shows "handshake_task ok (fst (cs_SetNonBlocking k True (m_pClientSocket h) tr)) a =
    (case fst (accept_task k fuel env h tr) of Handed_over _ \<Rightarrow> Stack_connect a | _ \<Rightarrow> Delete_handler a)"
  using assms by (auto simp: accept_task_def handshake_task_def Let_def split: prod.splits)





end
