(* ===== verification/Spec2Isabelle.thy ===== *)
theory Spec2Isabelle
  imports Codec MemPool Buffers Messages WireMessages Hash ThreadPool Resources Timers FileIO Connections EventLoop Node SegVector SkipList Handlers
begin

text \<open>
  Verification development of \<open>ccraft\<close>, a Raft server in C++ (paths below are relative to \<open>src/src\<close>).

  \<^bold>\<open>The program.\<close> A node is a process (\<open>server/ccraftd-main.cc\<close>) that creates, starts and stops a few services
  (\<open>server/node\<close>): the elector manager with the cluster configuration, the consensus module with its log
  on disk, and the RPC services. The consensus module sends its requests through the messenger, which uses
  the RPC clients and server of \<open>rpc\<close>. RPC messages are sent by the socket service of \<open>net\<close>: it keeps one
  connection per peer; the worker of a connection cuts the byte stream into messages, writes queued
  messages and runs a handshake; event workers wait with epoll and call the handlers. Below are the memory
  pool, the buffers, codecs, queues, thread pool, locks and timers of \<open>ccsys\<close> and \<open>common\<close>, and the file
  helpers of \<open>fsio\<close>.

  \<^bold>\<open>How code becomes definitions.\<close> Structs and classes are records with the names of the members, enums are
  datatypes, fixed width integers are words, a pointer into memory is a natural number or an address into
  an explicit heap, and memory is a list of bytes. Every method is one executable definition with the name
  of the method (a prefix or suffix is added where names clash); it takes and returns the state of its
  object. An exception, a failed assertion, a fatal log or undefined behaviour is a value: \<open>Inl\<close> of an
  error type of the component, or \<open>None\<close>. A method that holds a lock for its whole body is one step;
  where the interleaving matters (queue, thread pool, locks, memory pool) the steps of all callers form an
  inductive relation and the invariants are shown for every reachable state.

  \<^bold>\<open>The theories.\<close>
  \<^item> \<open>Prelude\<close>: word and byte-memory types, byte orders, shared facts.
  \<^item> \<open>Codec\<close> (\<open>common/codec-utils.cc\<close>): both integer codecs; round trip across byte orders and the bytes on
    the wire. The locale \<open>byte_codec\<close> is what the message theories use of a codec.
  \<^item> \<open>MemPool\<close> (\<open>ccsys/mem-pool.cc\<close>): the four size classes, page splitting and release. The invariant
    \<open>pool_inv\<close> relates the pool to the set of objects held; \<open>Get\<close> and \<open>Put\<close> return and keep it, held objects
    never overlap and lie in pages still owned. The locale \<open>object_pool\<close> is the contract the buffers rely on.
  \<^item> \<open>Buffers\<close> (\<open>common/buffer.h\<close>, \<open>net/message.cc\<close>): cursor arithmetic with the 32 bit casts, recycled buffers,
    each pool object given back once.
  \<^item> \<open>Messages\<close>, \<open>WireMessages\<close> (\<open>net/snd-message.cc\<close>, \<open>net/rcv-message.cc\<close>, \<open>rpc/request.cc\<close>, \<open>rpc/response.cc\<close>,
    \<open>connect-messages\<close>): the frame, message ids, the payload of every message class as an interpretation of
    the locale \<open>payload_encoder\<close>; what is encoded is decoded on any host.
  \<^item> \<open>Hash\<close>, \<open>Peers\<close> (\<open>common/hash-algorithms.cc\<close>, \<open>net/common-def.h\<close>, \<open>net/notify-message.h\<close>): MurmurHash3 and
    the peers it hashes.
  \<^item> \<open>Queues\<close>, \<open>ThreadPool\<close>, \<open>Locks\<close>, \<open>Timers\<close> (\<open>common/blocking-queue.h\<close>, \<open>ccsys\<close>): order, bounds, wake-ups,
    mutual exclusion, each task run once, termination of the destructor, due timer events.
  \<^item> \<open>Resources\<close> (\<open>common/reference-counter.cc\<close>, \<open>resource-pool.h\<close>, \<open>ccsys/random.cc\<close>, helpers of
    \<open>common-utils.h\<close>), \<open>SegVector\<close> and \<open>SkipList\<close> (\<open>common/segmented-vector.h\<close>, \<open>skip-list.h\<close>): the skip list
    refines a list of elements with increasing keys, through the locale \<open>keyed_store\<close>.
  \<^item> \<open>NetWorker\<close> (\<open>net-stack-worker.cc\<close>, \<open>net-stack-msg-worker.cc\<close>): receive state machine, send loop and
    handshake over the events of a socket; delivery in order whatever pieces the stream is cut into.
  \<^item> \<open>Sockets\<close>, \<open>Handlers\<close>, \<open>EventLoop\<close>, \<open>Connections\<close> (\<open>connection-socket.cc\<close>, \<open>server-socket.cc\<close>,
    \<open>connection-event-handler.cc\<close>, \<open>event-manager.cc\<close>, \<open>event-worker.cc\<close>, \<open>epoll-event-driver.cc\<close>,
    \<open>unique-worker-manager.cc\<close>, \<open>nb-socket-service.cc\<close>): the system calls of a connect, the life of a handler in
    a pass of the event loop, one connection per peer (locale \<open>worker_registry\<close>), and where a message sent
    by the service ends up.
  \<^item> \<open>Rpc\<close> (\<open>rpc\<close>, \<open>server/node/rpc\<close>, \<open>server-internal-messenger.cc\<close>, \<open>server-rpc-service.cc\<close>): calls that wait,
    their completion by a response, a broken connection or a time-out, the server's answer, the messenger.
  \<^item> \<open>FileIO\<close>, \<open>TextIO\<close>, \<open>RfLog\<close>, \<open>Cluster\<close> (\<open>fsio\<close>, \<open>server/rflog\<close>, \<open>common/rf-server-configuration.cc\<close>): full
    reads and writes, the stream extractions of the configuration reader, the log file, the configuration
    and its round trip.
  \<^item> \<open>Raft\<close>, \<open>Node\<close> (\<open>raft-consensus.cc\<close>, \<open>service-manager.cc\<close>, \<open>ccraftd-main.cc\<close>): construction from the
    saved state, the election, the start and the stop of the process.
  \<^item> This theory: what the parts give together. \<open>encode_gives_frame\<close> connects the encoder over the memory
    pool with the frames of the send loop; \<open>rpc_over_connections\<close> follows a remote call from the client's
    queue over two connections to the handler and back to the waiting caller.

  \<^bold>\<open>Loops, fuel and bounds.\<close> Loops are structural or have a termination proof with three exceptions.
  \<open>Recv\<close> and \<open>handshake\<close> call each other and take fuel; a connected worker needs more fuel than bytes have
  arrived (\<open>Recv_fuel\<close>), a handshake 4 (\<open>server_handshake_connects\<close>), and the properties say that the calls
  return. The loops over system calls of \<open>FileIO\<close> and the searches of \<open>SkipList\<close> are partial functions, and the
  properties show that they return. \<open>OnRequest\<close> of \<open>Rpc\<close> is a partial function because service and messenger
  call each other for ever. The reads of \<open>EventWait\<close>, of the accept loop and of the sockets end with the
  list of what the system does. Bounds in hypotheses are those of the machine: a payload has at most
  64 MiB (\<open>MAX_MSG_PAYLOAD_SIZE\<close>), object sizes stay below the bulk threshold of the pool, counters below
  the range of their words.

  \<^bold>\<open>Parameters.\<close> System calls are arguments: lists of the events of a socket, functions that answer a call,
  the outcomes of an allocation (\<open>fresh_pages\<close> says that the system's pages do not overlap those in use).
  The order in which a hash table keeps its entries is the argument \<open>placement\<close>. The protobuf library is
  its serialised bytes and a parser; flags, the clock and \<open>rand()\<close> are arguments. \<open>EventWait\<close> takes the write
  into the reserved but empty vector to store its value, as it does with the standard library in use.

  \<^bold>\<open>Not modelled.\<close> Logging, \<open>DumpDebugInfo\<close> of the pool and other output, which change no state; the generated
  protobuf classes; flag definitions; interfaces without code and the factories that return the only
  implementation; creation and scheduling of threads beyond the interleavings above; the memory model below
  the atomic operations; \<open>erase_tail\<close> and \<open>vacuum\<close> of the segmented vector, which cannot be instantiated;
  destructors that only close a descriptor; unit tests and scripts.
\<close>

section \<open>Properties that span components\<close>

text \<open>C6. The bytes the send loop writes are those the messages encode: whatever message the system sends, when
  \<open>Encode\<close> succeeds the readable part of its buffer is the frame of the message (the header with the magic
  number, the message's id and the length of the payload, then the payload), and the receiver accepts its
  length.\<close>

theorem encode_gives_frame:
  assumes msg: "(n, enc, body) \<in>
      {(RpcRequest_len pb, RpcRequest_encode e hid pb, host_bytes BigEnd 2 hid @ opt_bytes pb),
       (RpcResponse_len pb, RpcResponse_encode e hid pb,
         host_bytes BigEnd 2 (rpc_code_no OK) @ host_bytes BigEnd 2 hid @ opt_bytes pb),
       (RpcResponseBase_len, RpcResponseBase_encode e code hid,
         host_bytes BigEnd 2 (rpc_code_no code) @ host_bytes BigEnd 2 hid),
       (ConnectRequest_len, ConnectRequest_encode e lport, host_bytes BigEnd 2 lport),
       (ConnectResponse_len what, ConnectResponse_encode e stat what, host_bytes BigEnd 2 (status_no stat) @ what)}"
    and enc: "Encode e h ma mem_of n enc hdr st s = Inr ((buf, mem), hdr', st', s')" and len: "length body < 2 ^ 32"
    and env: "pool_inv st live" "fresh_pages st ma" "16 + n \<le> m_bulk_obj_threshold st" "all_clean s"
      "\<And>mo. length (mem_of mo) = unat (m_slot_size mo)"
  shows "take (nat (AvailableLength buf)) (pos_mem buf 0 mem) = frame \<lparr>sm_id = msg_id hdr, sm_body = body\<rparr>
    \<and> encodable \<lparr>sm_id = msg_id hdr, sm_body = body\<rparr>"
proof -
  have pe: "payload_encoder enc body"
    using msg request.payload_encoder_axioms response.payload_encoder_axioms error_response.payload_encoder_axioms
      connect_request.payload_encoder_axioms connect_response.payload_encoder_axioms
    by auto
  have "n = of_nat (length body)"
    using msg by (auto simp: RpcRequest_len_def RpcResponse_len_def RpcResponseBase_len_def ConnectRequest_len_def
        ConnectResponse_len_def opt_bytes_def split: option.splits)
  then have "unat n = length body" using len by (simp add: unat_of_nat take_bit_nat_eq_self)
  from payload_encoder.Encode_sends [OF pe enc env(1-3) this env(4,5)] show ?thesis by simp
qed

theorem encode_gives_frame_witness:
  "\<exists>buf mem hdr' st' s'.
     Encode LittleEnd front (\<lambda>_ _. 64) (\<lambda>mo. replicate (unat (m_slot_size mo)) 0) (RpcRequest_len None)
       (RpcRequest_encode LittleEnd 7 None) \<lparr>magic = 0, msg_id = 5, len = 0\<rparr> pool64 [] = Inr ((buf, mem), hdr', st', s')
     \<and> take (nat (AvailableLength buf)) (pos_mem buf 0 mem) = frame \<lparr>sm_id = 5, sm_body = [0, 7]\<rparr>"
proof -
  let ?mem_of = "\<lambda>mo. replicate (unat (m_slot_size mo)) 0 :: bytes" and ?hdr = "\<lparr>magic = 0, msg_id = 5, len = 0\<rparr>"
  obtain buf mem hdr' st' s' where enc: "Encode LittleEnd front (\<lambda>_ _. 64) ?mem_of (RpcRequest_len None)
      (RpcRequest_encode LittleEnd 7 None) ?hdr pool64 [] = Inr ((buf, mem), hdr', st', s')"
    using pool64_encodes by blast
  have size: "16 + RpcRequest_len None \<le> m_bulk_obj_threshold pool64"
    by (simp add: RpcRequest_len_def new_MemPool_def)
  have "host_bytes BigEnd 2 (7 :: u16) = [0, 7]" by code_simp
  then show ?thesis
    using encode_gives_frame [of "RpcRequest_len None" "RpcRequest_encode LittleEnd 7 None"
        "host_bytes BigEnd 2 (7 :: u16) @ opt_bytes None" None LittleEnd 7 ErrorMsg 0 "[]" Status_OK, OF _ enc _
        pool_inv_new_MemPool [OF cfg_pool64] pool64_fresh size] enc
    by (auto simp: all_clean_def opt_bytes_def)
qed






end
